(* ===== verification/Prelude.thy ===== *)
theory Prelude
  imports Main "HOL-Library.Word" "HOL-Library.Monad_Syntax" "HOL-Library.AList"
begin

text \<open>
  Shared vocabulary of the development: the fixed-width integers of the Go sources, the
  collections of rewrite rules the component theories fill, and the facts on words, lists,
  association lists and the option monad that their proofs use.

  A Go \<open>intN\<close>/\<open>uintN\<close> is an \<open>N word\<close>; \<open>+\<close> and \<open>-\<close> wrap as in Go. Signed comparisons are
  the library's \<open><s\<close> and \<open>\<le>s\<close>. A function that can hit a Go run-time panic (nil dereference,
  index out of range) or fail to return has type \<open>'a option\<close> with \<open>None\<close> for that outcome, and is
  written with the \<open>do\<close> notation of the option monad.
\<close>

unbundle bit_operations_syntax

type_synonym i8 = "8 word"
type_synonym i16 = "16 word"
type_synonym i32 = "32 word"
type_synonym i64 = "64 word"
type_synonym u8 = "8 word"
type_synonym u16 = "16 word"
type_synonym u32 = "32 word"
type_synonym u64 = "64 word"
type_synonym bytes = "8 word list"

named_theorems wire_simps "rewriting encoders and decoders"
named_theorems shape_intros "facts that keep the pointer structure of the book"

section \<open>Signed words\<close>

lemmas signed_ord = word_sless_alt word_sle_eq

definition smin :: "'a::len word \<Rightarrow> 'a word \<Rightarrow> 'a word" where
  "smin a b = (if a <s b then a else b)"

lemma sint_inj: "sint (a :: 'a::len word) = sint b \<longleftrightarrow> a = b"
  by (auto intro: signed_word_eqI)

lemma not_sless [simp]: "\<not> (a :: 'a::len word) <s b \<longleftrightarrow> b \<le>s a"
  by (auto simp: signed_ord)

lemma not_sle [simp]: "\<not> (a :: 'a::len word) \<le>s b \<longleftrightarrow> b <s a"
  by (auto simp: signed_ord)

text \<open>The same two facts in the form that rewrites a guard to \<open>False\<close>.\<close>

lemma sless_sle_False: "(a :: 'a::len word) <s b \<Longrightarrow> b \<le>s a \<longleftrightarrow> False"
  by (auto simp: signed_ord)

lemma sle_sless_False: "(a :: 'a::len word) \<le>s b \<Longrightarrow> b <s a \<longleftrightarrow> False"
  by (auto simp: signed_ord)

lemma sint_eq_0_iff [simp]: "sint (a :: 'a::len word) = 0 \<longleftrightarrow> a = 0"
  using sint_inj [of a 0] by simp

lemma sint_diff_pos:
  fixes a b :: i64
  assumes "0 \<le> sint b" and "sint b \<le> sint a"
  shows "sint (a - b) = sint a - sint b"
proof -
  have "sint (a - b) = signed_take_bit 63 (sint a - sint b)"
    by (simp add: sint_word_ariths)
  moreover have "- (2 ^ 63) \<le> sint a - sint b" "sint a - sint b < 2 ^ 63"
    using assms sint_less [of a] by auto
  ultimately show ?thesis
    by (simp add: signed_take_bit_int_eq_self)
qed

lemma sint_add_small:
  fixes a b :: i64
  assumes "- (2 ^ 63) \<le> sint a + sint b" and "sint a + sint b < 2 ^ 63"
  shows "sint (a + b) = sint a + sint b"
proof -
  have "sint (a + b) = signed_take_bit 63 (sint a + sint b)"
    by (simp add: sint_word_ariths)
  with assms show ?thesis
    by (simp add: signed_take_bit_int_eq_self)
qed

lemma sint_range64: "- (2 ^ 63) \<le> sint (a :: i64)" "sint (a :: i64) < 2 ^ 63"
  using sint_ge [of a] sint_less [of a] by simp_all

lemma sint_of_int64: "- (2 ^ 63) \<le> x \<Longrightarrow> x < 2 ^ 63 \<Longrightarrow> sint (word_of_int x :: i64) = x"
  using sint_sbintrunc' [where ?'a = 64, of x] by (simp add: signed_take_bit_int_eq_self)

lemma sint_small32:
  assumes "int n < 2 ^ 31"
  shows "sint (word_of_nat n :: i32) = int n"
  using assms sint_sbintrunc' [where ?'a = 32, of "int n"] by (simp add: signed_take_bit_int_eq_self)

section \<open>Lists\<close>

lemma sorted_wrt_distinct: "sorted_wrt P xs \<Longrightarrow> (\<And>x. \<not> P x x) \<Longrightarrow> distinct xs"
  by (induction xs) auto

lemma find_SomeD: "find P xs = Some y \<Longrightarrow> P y \<and> y \<in> set xs"
  by (induction xs) (auto split: if_splits)

lemma filter_remove:
  assumes "distinct (map f (xs @ x # ys))"
  shows "filter (\<lambda>y. f y \<noteq> f x) (xs @ x # ys) = xs @ ys"
proof -
  have "filter (\<lambda>y. f y \<noteq> f x) xs = xs" "filter (\<lambda>y. f y \<noteq> f x) ys = ys"
    using assms by (auto simp: image_iff intro!: filter_True)
  then show ?thesis by simp
qed

lemma sorted_wrt_replace:
  "sorted_wrt P (map f (X @ e # Y)) \<Longrightarrow> f e' = f e \<Longrightarrow>
   sorted_wrt P (map f (X @ (if c then [] else [e']) @ Y))"
  by (auto simp: sorted_wrt_append)

lemma take_join:
  "k = n + i \<Longrightarrow> take i (drop n r) @ take j (drop k r) = take (i + j) (drop n r)"
  "take i r @ take j (drop i r) = take (i + j) r"
  by (simp_all add: take_add add.commute)

section \<open>Results with an error\<close>

text \<open>\<open>if err != nil { return err }\<close>: the first error ends the function.\<close>

fun bindE :: "'e + 'a \<Rightarrow> ('a \<Rightarrow> 'e + 'b) \<Rightarrow> 'e + 'b" where
  "bindE (Inl e) f = Inl e"
| "bindE (Inr x) f = f x"

lemma bindE_assoc: "bindE (bindE m f) g = bindE m (\<lambda>x. bindE (f x) g)"
  by (cases m) simp_all

lemma bindE_Inr_iff: "bindE m f = Inr y \<longleftrightarrow> (\<exists>x. m = Inr x \<and> f x = Inr y)"
  by (cases m) simp_all

lemma bindE_Inl_iff: "bindE m f = Inl e \<longleftrightarrow> m = Inl e \<or> (\<exists>x. m = Inr x \<and> f x = Inl e)"
  by (cases m) simp_all

definition isOk :: "'e + 'a \<Rightarrow> bool" where
  "isOk m \<longleftrightarrow> (case m of Inl e \<Rightarrow> False | Inr x \<Rightarrow> True)"

lemma isOk_simps [simp]: "isOk (Inl e) \<longleftrightarrow> False" "isOk (Inr x) \<longleftrightarrow> True"
  by (simp_all add: isOk_def)

lemma isOk_iff: "isOk m \<longleftrightarrow> (\<exists>x. m = Inr x)"
  by (cases m) simp_all

section \<open>Retry loops\<close>

text \<open>A loop that tries again until an attempt stops it. \<open>loop n\<close> is the loop entered at attempt \<open>n\<close>: it ends with
  the result of the first attempt that stops.\<close>

locale retry_loop =
  fixes stop :: "nat \<Rightarrow> bool"
    and loop :: "nat \<Rightarrow> 'r option"
    and result :: "nat \<Rightarrow> 'r"
  assumes stops: "stop n \<Longrightarrow> loop n = Some (result n)"
    and again: "\<not> stop n \<Longrightarrow> loop n = loop (n + 1)"
begin

lemma returns_at:
  assumes "n \<le> k" and "stop k" and "\<And>j. n \<le> j \<Longrightarrow> j < k \<Longrightarrow> \<not> stop j"
  shows "loop n = Some (result k)"
  using assms
proof (induction "k - n" arbitrary: n)
  case 0
  then show ?case by (simp add: stops)
next
  case (Suc d)
  then have "\<not> stop n" "n < k" by (metis diff_is_0_eq' nat.simps(3) not_le order_refl)+
  then show ?case using Suc.hyps(1) [of "n + 1"] Suc.hyps(2) Suc.prems again by simp
qed

lemma returns:
  assumes "\<exists>k \<ge> n. stop k"
  obtains k where "n \<le> k" "stop k" "\<And>j. n \<le> j \<Longrightarrow> j < k \<Longrightarrow> \<not> stop j" "loop n = Some (result k)"
proof -
  let ?k = "LEAST k. n \<le> k \<and> stop k"
  have k: "n \<le> ?k \<and> stop ?k" by (rule LeastI_ex) (use assms in blast)
  moreover have "\<not> stop j" if "n \<le> j" "j < ?k" for j using not_less_Least [OF that(2)] that(1) by blast
  ultimately show thesis using that [of ?k] returns_at [of n ?k] by blast
qed

end

section \<open>Systems that come to rest\<close>

text \<open>A transition system whose steps keep an invariant and lower a rank, and that is not stuck before it has
  reached a final state.\<close>

locale converging =
  fixes step :: "'s \<Rightarrow> 's \<Rightarrow> bool" and inv :: "'s \<Rightarrow> bool" and rank :: "'s \<Rightarrow> nat" and final :: "'s \<Rightarrow> bool"
  assumes step_inv: "inv s \<Longrightarrow> step s s' \<Longrightarrow> inv s'"
    and progress: "inv s \<Longrightarrow> \<not> final s \<Longrightarrow> \<exists>s'. step s s'"
    and rank_less: "inv s \<Longrightarrow> step s s' \<Longrightarrow> rank s' < rank s"
begin

lemma run_inv: "step\<^sup>*\<^sup>* s s' \<Longrightarrow> inv s \<Longrightarrow> inv s'"
  by (induction rule: rtranclp_induct) (auto intro: step_inv)

lemma run_bounded: "inv s \<Longrightarrow> (step ^^ n) s s' \<Longrightarrow> n + rank s' \<le> rank s"
proof (induction n arbitrary: s')
  case (Suc n)
  then obtain t where t: "(step ^^ n) s t" "step t s'" by auto
  have "inv t" using run_inv [OF relpowp_imp_rtranclp [OF t(1)] Suc.prems(1)] .
  from rank_less [OF this t(2)] Suc.IH [OF Suc.prems(1) t(1)] show ?case by simp
qed simp

lemma reaches_final: "inv s \<Longrightarrow> \<exists>s'. step\<^sup>*\<^sup>* s s' \<and> final s'"
proof (induction "rank s" arbitrary: s rule: less_induct)
  case less
  show ?case
  proof (cases "final s")
    case False
    then obtain t where t: "step s t" using progress less.prems by blast
    from less.hyps [OF rank_less [OF less.prems t] step_inv [OF less.prems t]] t show ?thesis
      by (meson converse_rtranclp_into_rtranclp)
  qed blast
qed

end

end
