(* ===== verification/Events.thy ===== *)
theory Events
  imports Prelude
begin

text \<open>
  The vocabulary of the matching core, \<open>src/go/engine/events.go\<close>: sides, event types, reject
  reasons and the flat event record. \<open>Side\<close> is an open \<open>int8\<close> in the source, so values other
  than \<open>Buy\<close> and \<open>Sell\<close> exist and the engine's behaviour on them is part of the model;
  \<open>EventType\<close> and \<open>RejectReason\<close> are only ever written from their constants.
\<close>

type_synonym Side = i8

definition Buy :: Side where
  "Buy = 0"

definition Sell :: Side where
  "Sell = 1"

datatype EventType =
    EvAccepted
  | EvRejected
  | EvTrade
  | EvFilled
  | EvCanceled
  | EvBookUpdate

datatype RejectReason =
    ReasonNone
  | ReasonBadQty
  | ReasonBadPrice
  | ReasonUnknownOrder
  | ReasonNotOwner

record Event =
  Type :: EventType
  OrderId :: i64
  ClientOrderId :: i64
  Owner :: i64
  EvSide :: Side
  Price :: i64
  Qty :: i64
  RemainingQty :: i64
  Reason :: RejectReason
  MakerOrderId :: i64
  TakerOrderId :: i64
  MakerOwner :: i64
  TakerOwner :: i64
  AggregateQty :: i64

text \<open>A Go composite literal leaves the fields it does not name at their zero value.\<close>

definition zeroEvent :: Event where
  "zeroEvent = \<lparr>Type = EvAccepted, OrderId = 0, ClientOrderId = 0, Owner = 0, EvSide = Buy,
     Price = 0, Qty = 0, RemainingQty = 0, Reason = ReasonNone, MakerOrderId = 0,
     TakerOrderId = 0, MakerOwner = 0, TakerOwner = 0, AggregateQty = 0\<rparr>"

lemma Buy_neq_Sell [simp]: "Buy \<noteq> Sell" "Sell \<noteq> Buy"
  by (simp_all add: Buy_def Sell_def)

end
