(* ===== verification/Order_Book.thy ===== *)
theory Order_Book
  imports Events
begin

text \<open>
  The order book of \<open>src/go/engine/order_book.go\<close>, on an explicit store. The Go code keeps orders
  and price levels as heap objects linked by pointers: an order has \<open>level\<close>, \<open>prev\<close> and \<open>next\<close>,
  a level has \<open>head\<close> and \<open>tail\<close>, the two sides are slices of level pointers and the \<open>orders\<close> map
  holds order pointers. The model has one store for orders and one for levels (partial maps from
  addresses), a pointer is an address or \<open>None\<close> for nil, and \<open>&order{..}\<close>/\<open>&priceLevel{..}\<close> take the
  next unused address. Dereferencing nil is \<open>None\<close>, the run-time panic.
\<close>

type_synonym oref = nat
type_synonym lref = nat

record order =
  oid :: i64
  clientOrderId :: i64
  owner :: i64
  side :: Side
  price :: i64
  qty :: i64
  level :: "lref option"
  prev :: "oref option"
  nxt :: "oref option"

record priceLevel =
  lprice :: i64
  totalQty :: i64
  head :: "oref option"
  tail :: "oref option"

record NewOrderCmd =
  cmdClientOrderId :: i64
  cmdOwner :: i64
  cmdSide :: Side
  cmdPrice :: i64
  cmdQty :: i64

text \<open>
  The \<open>OrderBook\<close> struct, with the two stores its pointers live in. The map \<open>orders\<close> is an
  association list with one entry per key, so that \<open>len(b.orders)\<close> is its length.
\<close>

record OrderBook =
  bids :: "lref list"
  asks :: "lref list"
  orders :: "(i64 \<times> oref) list"
  nextOrderId :: i64
  orderAt :: "oref \<rightharpoonup> order"
  levelAt :: "lref \<rightharpoonup> priceLevel"
  orderTop :: oref
  levelTop :: lref

definition NewOrderBook :: OrderBook where
  "NewOrderBook = \<lparr>bids = [], asks = [], orders = [], nextOrderId = 1,
     orderAt = Map.empty, levelAt = Map.empty, orderTop = 0, levelTop = 0\<rparr>"

section \<open>Field access through a pointer\<close>

definition modO :: "oref \<Rightarrow> (order \<Rightarrow> order) \<Rightarrow> OrderBook \<Rightarrow> OrderBook option" where
  "modO r f b = (case orderAt b r of None \<Rightarrow> None
     | Some x \<Rightarrow> Some (b\<lparr>orderAt := (orderAt b)(r \<mapsto> f x)\<rparr>))"

definition modL :: "lref \<Rightarrow> (priceLevel \<Rightarrow> priceLevel) \<Rightarrow> OrderBook \<Rightarrow> OrderBook option" where
  "modL r f b = (case levelAt b r of None \<Rightarrow> None
     | Some x \<Rightarrow> Some (b\<lparr>levelAt := (levelAt b)(r \<mapsto> f x)\<rparr>))"

definition newO :: "order \<Rightarrow> OrderBook \<Rightarrow> oref \<times> OrderBook" where
  "newO x b = (orderTop b, b\<lparr>orderAt := (orderAt b)(orderTop b \<mapsto> x), orderTop := orderTop b + 1\<rparr>)"

definition newL :: "priceLevel \<Rightarrow> OrderBook \<Rightarrow> lref \<times> OrderBook" where
  "newL x b = (levelTop b, b\<lparr>levelAt := (levelAt b)(levelTop b \<mapsto> x), levelTop := levelTop b + 1\<rparr>)"

text \<open>\<open>levels, desc := &b.asks, false; if o.side == Buy { levels, desc = &b.bids, true }\<close>: the flag
  \<open>desc\<close> names the side.\<close>

definition sideLevels :: "bool \<Rightarrow> OrderBook \<Rightarrow> lref list" where
  "sideLevels desc b = (if desc then bids b else asks b)"

definition setSideLevels :: "bool \<Rightarrow> lref list \<Rightarrow> OrderBook \<Rightarrow> OrderBook" where
  "setSideLevels desc ls b = (if desc then b\<lparr>bids := ls\<rparr> else b\<lparr>asks := ls\<rparr>)"

section \<open>Operations\<close>

text \<open>\<open>levelIndex\<close>: the binary search loop from \<open>lo\<close>, \<open>hi\<close>. An index outside the slice panics.\<close>

function levelIndex_loop ::
  "(lref \<rightharpoonup> priceLevel) \<Rightarrow> lref list \<Rightarrow> i64 \<Rightarrow> bool \<Rightarrow> nat \<Rightarrow> nat \<Rightarrow> (nat \<times> bool) option" where
  "levelIndex_loop h levels pr desc lo hi =
     (if lo < hi then
        (let mid = (lo + hi) div 2 in
         if mid < length levels then
           (case h (levels ! mid) of
              None \<Rightarrow> None
            | Some l \<Rightarrow>
                (let p = lprice l in
                 if p = pr then Some (mid, True)
                 else if desc = (pr <s p) then levelIndex_loop h levels pr desc (mid + 1) hi
                 else levelIndex_loop h levels pr desc lo mid))
         else None)
      else Some (lo, False))"
  by pat_completeness auto
termination
  by (relation "measure (\<lambda>(h, levels, pr, desc, lo, hi). hi - lo)") auto

declare levelIndex_loop.simps [simp del]

definition levelIndex :: "OrderBook \<Rightarrow> lref list \<Rightarrow> i64 \<Rightarrow> bool \<Rightarrow> (nat \<times> bool) option" where
  "levelIndex b levels pr desc = levelIndex_loop (levelAt b) levels pr desc 0 (length levels)"

text \<open>The first half of \<open>unlink\<close>: splice the order \<open>x\<close> at \<open>r\<close> out of the list of level \<open>lr\<close> and clear
  its pointers.\<close>

definition fifoRemove :: "oref \<Rightarrow> order \<Rightarrow> lref \<Rightarrow> OrderBook \<Rightarrow> OrderBook option" where
  "fifoRemove r x lr b = do {
     b \<leftarrow> (case prev x of
            Some p \<Rightarrow> modO p (\<lambda>y. y\<lparr>nxt := nxt x\<rparr>) b
          | None \<Rightarrow> modL lr (\<lambda>l. l\<lparr>head := nxt x\<rparr>) b);
     b \<leftarrow> (case nxt x of
            Some n \<Rightarrow> modO n (\<lambda>y. y\<lparr>prev := prev x\<rparr>) b
          | None \<Rightarrow> modL lr (\<lambda>l. l\<lparr>tail := prev x\<rparr>) b);
     modO r (\<lambda>y. y\<lparr>prev := None, nxt := None, level := None\<rparr>) b
   }"

text \<open>\<open>unlink\<close>: take an order out of its level's FIFO and of the map, and the level out of its side
  when that leaves it empty.\<close>

definition unlink :: "oref \<Rightarrow> OrderBook \<Rightarrow> OrderBook option" where
  "unlink r b = do {
     x \<leftarrow> orderAt b r;
     lr \<leftarrow> level x;
     b \<leftarrow> fifoRemove r x lr b;
     let b = b\<lparr>orders := AList.delete (oid x) (orders b)\<rparr>;
     l \<leftarrow> levelAt b lr;
     if head l = None then do {
       let desc = (side x = Buy);
       let levels = sideLevels desc b;
       (idx, found) \<leftarrow> levelIndex b levels (lprice l) desc;
       Some (if found then setSideLevels desc (take idx levels @ drop (idx + 1) levels) b else b)
     } else Some b
   }"

text \<open>The first half of \<open>restOrder\<close>: find the level of the order's price, or insert a new empty one at
  the index the search returned.\<close>

definition levelFor :: "order \<Rightarrow> OrderBook \<Rightarrow> (lref \<times> OrderBook) option" where
  "levelFor x b = do {
     let desc = (side x = Buy);
     let levels = sideLevels desc b;
     (idx, found) \<leftarrow> levelIndex b levels (price x) desc;
     Some (if found then (levels ! idx, b)
        else (let (lr, b) = newL \<lparr>lprice = price x, totalQty = 0, head = None, tail = None\<rparr> b
              in (lr, setSideLevels desc (take idx levels @ lr # drop idx levels) b)))
   }"

text \<open>The second half: set the order's level and append it to the level's list.\<close>

definition fifoAppend :: "oref \<Rightarrow> lref \<Rightarrow> OrderBook \<Rightarrow> OrderBook option" where
  "fifoAppend r lr b = do {
     b \<leftarrow> modO r (\<lambda>y. y\<lparr>level := Some lr\<rparr>) b;
     l \<leftarrow> levelAt b lr;
     case tail l of
       None \<Rightarrow> modL lr (\<lambda>l. l\<lparr>head := Some r, tail := Some r\<rparr>) b
     | Some t \<Rightarrow> do {
         b \<leftarrow> modO r (\<lambda>y. y\<lparr>prev := Some t\<rparr>) b;
         b \<leftarrow> modO t (\<lambda>y. y\<lparr>nxt := Some r\<rparr>) b;
         modL lr (\<lambda>l. l\<lparr>tail := Some r\<rparr>) b
       }
   }"

text \<open>\<open>restOrder\<close>: append the order to the level of its price, add its quantity to the level and
  register it in the map.\<close>

definition restOrder :: "oref \<Rightarrow> OrderBook \<Rightarrow> (lref \<times> OrderBook) option" where
  "restOrder r b = do {
     x \<leftarrow> orderAt b r;
     (lr, b) \<leftarrow> levelFor x b;
     b \<leftarrow> fifoAppend r lr b;
     b \<leftarrow> modL lr (\<lambda>l. l\<lparr>totalQty := totalQty l + qty x\<rparr>) b;
     Some (lr, b\<lparr>orders := AList.update (oid x) r (orders b)\<rparr>)
   }"

text \<open>The variables \<open>changed\<close> and \<open>changedSides\<close> captured by the closure \<open>touch\<close>.\<close>

type_synonym touched = "lref list \<times> Side list"

definition touch :: "Side \<Rightarrow> lref \<Rightarrow> touched \<Rightarrow> touched" where
  "touch s lvl tc = (case tc of (changed, changedSides) \<Rightarrow>
     if lvl \<in> set changed then (changed, changedSides)
     else (changed @ [lvl], changedSides @ [s]))"

definition tradeEvent :: "order \<Rightarrow> order \<Rightarrow> i64 \<Rightarrow> i64 \<Rightarrow> Event" where
  "tradeEvent maker taker p fill = zeroEvent\<lparr>Type := EvTrade, Price := p, Qty := fill,
     MakerOrderId := oid maker, TakerOrderId := oid taker,
     MakerOwner := owner maker, TakerOwner := owner taker\<rparr>"

definition filledEvent :: "order \<Rightarrow> i64 \<Rightarrow> i64 \<Rightarrow> Event" where
  "filledEvent x p fill = zeroEvent\<lparr>Type := EvFilled, OrderId := oid x,
     ClientOrderId := clientOrderId x, Owner := owner x, EvSide := side x, Price := p,
     Qty := fill, RemainingQty := qty x\<rparr>"

text \<open>\<open>match\<close>: the loop that trades the taker against the best opposite level. \<open>None\<close> is a panic or
  a loop that never ends.\<close>

partial_function (option) match ::
  "oref \<Rightarrow> Event list \<Rightarrow> touched \<Rightarrow> OrderBook \<Rightarrow> (Event list \<times> touched \<times> OrderBook) option" where
  "match tk events tc b = do {
     taker \<leftarrow> orderAt b tk;
     if \<not> 0 <s qty taker then Some (events, tc, b) else do {
     let (opp, oppSide) = (if side taker = Sell then (bids b, Buy) else (asks b, Sell));
     if opp = [] then Some (events, tc, b) else do {
     let bestr = hd opp;
     best \<leftarrow> levelAt b bestr;
     if side taker = Buy \<and> price taker <s lprice best then Some (events, tc, b) else
     if side taker = Sell \<and> lprice best <s price taker then Some (events, tc, b) else do {
     mr \<leftarrow> head best;
     maker \<leftarrow> orderAt b mr;
     let fill = (if qty maker <s qty taker then qty maker else qty taker);
     b \<leftarrow> modO mr (\<lambda>y. y\<lparr>qty := qty y - fill\<rparr>) b;
     b \<leftarrow> modO tk (\<lambda>y. y\<lparr>qty := qty y - fill\<rparr>) b;
     b \<leftarrow> modL bestr (\<lambda>l. l\<lparr>totalQty := totalQty l - fill\<rparr>) b;
     let tc = touch oppSide bestr tc;
     maker \<leftarrow> orderAt b mr;
     taker \<leftarrow> orderAt b tk;
     let events = events @ [tradeEvent maker taker (lprice best) fill,
       filledEvent maker (lprice best) fill, filledEvent taker (lprice best) fill];
     b \<leftarrow> (if qty maker = 0 then unlink mr b else Some b);
     match tk events tc b
     }}}}"

definition rejectedOrder :: "NewOrderCmd \<Rightarrow> RejectReason \<Rightarrow> Event" where
  "rejectedOrder cmd why = zeroEvent\<lparr>Type := EvRejected, ClientOrderId := cmdClientOrderId cmd,
     Owner := cmdOwner cmd, Reason := why\<rparr>"

definition acceptedEvent :: "order \<Rightarrow> Event" where
  "acceptedEvent x = zeroEvent\<lparr>Type := EvAccepted, OrderId := oid x,
     ClientOrderId := clientOrderId x, Owner := owner x, EvSide := side x, Price := price x,
     Qty := qty x\<rparr>"

definition bookUpdateEvent :: "Side \<Rightarrow> i64 \<Rightarrow> i64 \<Rightarrow> Event" where
  "bookUpdateEvent s p q = zeroEvent\<lparr>Type := EvBookUpdate, EvSide := s, Price := p, AggregateQty := q\<rparr>"

text \<open>The final loop of \<open>NewLimitOrder\<close> over \<open>changed\<close>.\<close>

fun bookUpdates :: "OrderBook \<Rightarrow> lref list \<Rightarrow> Side list \<Rightarrow> Event list option" where
  "bookUpdates b (lr # changed) (s # sides) = do {
     l \<leftarrow> levelAt b lr;
     es \<leftarrow> bookUpdates b changed sides;
     Some (bookUpdateEvent s (lprice l) (totalQty l) # es)
   }"
| "bookUpdates b [] sides = Some []"
| "bookUpdates b (lr # changed) [] = None"

definition NewLimitOrder :: "NewOrderCmd \<Rightarrow> OrderBook \<Rightarrow> (Event list \<times> OrderBook) option" where
  "NewLimitOrder cmd b =
     (if cmdQty cmd \<le>s 0 then Some ([rejectedOrder cmd ReasonBadQty], b)
      else if cmdPrice cmd \<le>s 0 then Some ([rejectedOrder cmd ReasonBadPrice], b)
      else do {
        let x = \<lparr>oid = nextOrderId b, clientOrderId = cmdClientOrderId cmd, owner = cmdOwner cmd,
          side = cmdSide cmd, price = cmdPrice cmd, qty = cmdQty cmd,
          level = None, prev = None, nxt = None\<rparr>;
        let (tk, b) = newO x b;
        let b = b\<lparr>nextOrderId := nextOrderId b + 1\<rparr>;
        (events, tc, b) \<leftarrow> match tk [acceptedEvent x] ([], []) b;
        taker \<leftarrow> orderAt b tk;
        (tc, b) \<leftarrow> (if 0 <s qty taker then do {
             (lvl, b) \<leftarrow> restOrder tk b;
             Some (touch (side taker) lvl tc, b)
           } else Some (tc, b));
        updates \<leftarrow> bookUpdates b (fst tc) (snd tc);
        Some (events @ updates, b)
      })"

definition rejectedCancel :: "i64 \<Rightarrow> i64 \<Rightarrow> RejectReason \<Rightarrow> Event" where
  "rejectedCancel orderId requestingOwner why = zeroEvent\<lparr>Type := EvRejected, OrderId := orderId,
     Owner := requestingOwner, Reason := why\<rparr>"

definition canceledEvent :: "order \<Rightarrow> Event" where
  "canceledEvent x = zeroEvent\<lparr>Type := EvCanceled, OrderId := oid x,
     ClientOrderId := clientOrderId x, Owner := owner x, EvSide := side x, Price := price x,
     RemainingQty := qty x\<rparr>"

definition Cancel :: "i64 \<Rightarrow> i64 \<Rightarrow> OrderBook \<Rightarrow> (Event list \<times> OrderBook) option" where
  "Cancel orderId requestingOwner b =
     (case map_of (orders b) orderId of
        None \<Rightarrow> Some ([rejectedCancel orderId requestingOwner ReasonUnknownOrder], b)
      | Some r \<Rightarrow> do {
          x \<leftarrow> orderAt b r;
          if owner x \<noteq> requestingOwner
          then Some ([rejectedCancel orderId requestingOwner ReasonNotOwner], b)
          else do {
            lr \<leftarrow> level x;
            b \<leftarrow> modL lr (\<lambda>l. l\<lparr>totalQty := totalQty l - qty x\<rparr>) b;
            b \<leftarrow> unlink r b;
            l \<leftarrow> levelAt b lr;
            Some ([canceledEvent x, bookUpdateEvent (side x) (lprice l) (totalQty l)], b)
          }
        })"

end
