(* ===== verification/Book_Shape.thy ===== *)
theory Book_Shape
  imports Order_Book
begin

text \<open>
  The pointer structure of the book: doubly linked FIFOs, the representation invariant \<open>shape\<close>,
  and what \<open>levelIndex\<close>, \<open>unlink\<close> and \<open>restOrder\<close> do to it. A ghost layout \<open>L\<close> names, for each side
  (\<open>True\<close> for bids), its levels best first, each with the addresses of its orders oldest first.
\<close>

section \<open>Doubly linked segments\<close>

text \<open>\<open>dseg h p x rs t y\<close>: starting at pointer \<open>x\<close> the orders \<open>rs\<close> follow each other by \<open>nxt\<close> up to
  pointer \<open>y\<close>; the first has \<open>prev = p\<close>, and \<open>t\<close> is the last one (\<open>p\<close> when there is none).\<close>

fun dseg :: "(oref \<rightharpoonup> order) \<Rightarrow> oref option \<Rightarrow> oref option \<Rightarrow> oref list \<Rightarrow> oref option \<Rightarrow> oref option \<Rightarrow> bool" where
  "dseg h p x [] t y \<longleftrightarrow> x = y \<and> t = p"
| "dseg h p x (r # rs) t y \<longleftrightarrow>
     x = Some r \<and> (\<exists>z. h r = Some z \<and> prev z = p \<and> dseg h (Some r) (nxt z) rs t y)"

lemma dseg_append:
  "dseg h p x (as @ bs) t y \<longleftrightarrow> (\<exists>m z. dseg h p x as m z \<and> dseg h m z bs t y)"
  by (induction as arbitrary: p x) auto

lemma dseg_last: "dseg h p x rs t y \<Longrightarrow> t = (if rs = [] then p else Some (last rs))"
  by (induction rs arbitrary: p x) (auto split: if_splits)

lemma dseg_first: "dseg h p x rs t y \<Longrightarrow> x = (if rs = [] then y else Some (hd rs))"
  by (cases rs) auto

lemma dseg_cong:
  assumes "\<And>r. r \<in> set rs \<Longrightarrow> map_option (\<lambda>z. (prev z, nxt z)) (h r) = map_option (\<lambda>z. (prev z, nxt z)) (h' r)"
  shows "dseg h p x rs t y \<longleftrightarrow> dseg h' p x rs t y"
  using assms
proof (induction rs arbitrary: p x)
  case (Cons r rs)
  have "map_option (\<lambda>z. (prev z, nxt z)) (h r) = map_option (\<lambda>z. (prev z, nxt z)) (h' r)"
    using Cons.prems by simp
  then show ?case
    using Cons by (cases "h r"; cases "h' r") auto
qed simp

lemma dseg_upd [simp]: "r \<notin> set rs \<Longrightarrow> dseg (h(r := z)) p x rs t y \<longleftrightarrow> dseg h p x rs t y"
  by (rule dseg_cong) auto

lemma dseg_unique: "dseg h p x as t None \<Longrightarrow> dseg h p' x bs t' None \<Longrightarrow> as = bs"
proof (induction as arbitrary: p p' x bs)
  case Nil
  then show ?case by (cases bs) auto
next
  case (Cons a as)
  then show ?case by (cases bs) auto
qed

lemma dseg_distinct: "dseg h p x rs t None \<Longrightarrow> distinct rs"
proof (induction rs arbitrary: p x)
  case (Cons r rs)
  then obtain z where z: "h r = Some z" "dseg h (Some r) (nxt z) rs t None" by auto
  have "r \<notin> set rs"
  proof
    assume "r \<in> set rs"
    then obtain us vs where rs: "rs = us @ r # vs" by (meson split_list)
    with z obtain m where "dseg h m (Some r) (r # vs) t None"
      by (auto simp: dseg_append)
    with Cons.prems have "r # vs = r # rs"
      by (metis dseg.simps(2) dseg_unique)
    with rs show False by simp
  qed
  with Cons z show ?case by auto
qed simp

lemma dseg_mid:
  assumes "dseg h p x (as @ r # bs) t y" and "h r = Some z"
  shows "prev z = (if as = [] then p else Some (last as))"
    and "nxt z = (if bs = [] then y else Some (hd bs))"
  using assms by (auto simp: dseg_append dest: dseg_last dseg_first)

text \<open>Removing one order from the middle: its neighbours are pointed at each other.\<close>

lemma dseg_set_next:
  assumes "dseg h p x (as @ [r]) t y" and "r \<notin> set as" and "h r = Some z"
  shows "dseg (h(r \<mapsto> z\<lparr>nxt := y'\<rparr>)) p x (as @ [r]) t y'"
  using assms by (auto simp: dseg_append)

lemma dseg_set_prev:
  assumes "dseg h p x (r # bs) t y" and "r \<notin> set bs" and "h r = Some z"
  shows "dseg (h(r \<mapsto> z\<lparr>prev := p'\<rparr>)) p' x (r # bs) t y"
  using assms by auto

lemma dseg_splice:
  assumes seg: "dseg h p x (ps @ [q] @ r # n # ns) t y" and dist: "distinct (ps @ [q] @ r # n # ns)"
  obtains z w where "h q = Some z" "h n = Some w"
    "dseg (h(q \<mapsto> z\<lparr>nxt := Some n\<rparr>, n \<mapsto> w\<lparr>prev := Some q\<rparr>, r := v)) p x (ps @ [q] @ n # ns) t y"
proof -
  from seg obtain z w where z: "h q = Some z" "dseg h p x (ps @ [q]) (Some q) (Some r)"
    and w: "h n = Some w" "dseg h (Some r) (Some n) (n # ns) t y"
    by (auto simp: dseg_append)
  let ?h = "h(q \<mapsto> z\<lparr>nxt := Some n\<rparr>, n \<mapsto> w\<lparr>prev := Some q\<rparr>, r := v)"
  have "dseg (h(q \<mapsto> z\<lparr>nxt := Some n\<rparr>)) p x (ps @ [q]) (Some q) (Some n)"
    using z dist by (intro dseg_set_next [of _ _ _ _ _ _ "Some r"]) auto
  then have "dseg ?h p x (ps @ [q]) (Some q) (Some n)"
    using dist by (simp del: dseg.simps)
  moreover have "dseg (h(n \<mapsto> w\<lparr>prev := Some q\<rparr>)) (Some q) (Some n) (n # ns) t y"
    using w dist by (intro dseg_set_prev [of _ "Some r"]) auto
  then have "dseg ?h (Some q) (Some n) (n # ns) t y"
    using dist by (subst dseg_cong [where h' = "h(n \<mapsto> w\<lparr>prev := Some q\<rparr>)"]) auto
  ultimately have "dseg ?h p x ((ps @ [q]) @ n # ns) t y" unfolding dseg_append [of _ _ _ "ps @ [q]"] by blast
  with z w show thesis by (intro that) simp_all
qed

section \<open>Splicing an order out and appending one\<close>

text \<open>What the rest of the program sees of an order: everything but the three pointers.\<close>

definition val :: "order \<Rightarrow> order" where
  "val x = x\<lparr>level := None, prev := None, nxt := None\<rparr>"

lemma val_sel [simp]:
  "oid (val x) = oid x" "clientOrderId (val x) = clientOrderId x" "owner (val x) = owner x"
  "side (val x) = side x" "price (val x) = price x" "qty (val x) = qty x"
  "level (val x) = None" "prev (val x) = None" "nxt (val x) = None"
  by (simp_all add: val_def)

lemma val_upd [simp]:
  "val (x\<lparr>level := a\<rparr>) = val x" "val (x\<lparr>prev := b\<rparr>) = val x" "val (x\<lparr>nxt := c\<rparr>) = val x"
  "val (x\<lparr>qty := q\<rparr>) = (val x)\<lparr>qty := q\<rparr>"
  by (simp_all add: val_def)

lemma val_eq_iff:
  "val x = val y \<longleftrightarrow> oid x = oid y \<and> clientOrderId x = clientOrderId y \<and> owner x = owner y
     \<and> side x = side y \<and> price x = price y \<and> qty x = qty y"
  by (cases x; cases y) (simp add: val_def)

lemma levelAt_triv:
  "levelAt b lr = Some l \<Longrightarrow> b\<lparr>orderAt := h, levelAt := (levelAt b)(lr \<mapsto> l)\<rparr> = b\<lparr>orderAt := h\<rparr>"
  by (cases b) (simp add: fun_upd_idem)

lemma fifoRemove_spec:
  assumes l: "levelAt b lr = Some l" and x: "orderAt b r = Some x"
    and seg: "dseg (orderAt b) None (head l) (as @ r # bs) (tail l) None"
  shows "\<exists>h' l'. fifoRemove r x lr b = Some (b\<lparr>orderAt := h', levelAt := (levelAt b)(lr \<mapsto> l')\<rparr>)
    \<and> dseg h' None (head l') (as @ bs) (tail l') None
    \<and> (\<forall>r'. r' \<notin> set (as @ r # bs) \<longrightarrow> h' r' = orderAt b r')
    \<and> (\<forall>r'. map_option val (h' r') = map_option val (orderAt b r'))
    \<and> (\<forall>r'. r' \<noteq> r \<longrightarrow> map_option level (h' r') = map_option level (orderAt b r'))
    \<and> lprice l' = lprice l \<and> totalQty l' = totalQty l"
proof -
  let ?h = "orderAt b"
  let ?x = "x\<lparr>prev := None, nxt := None, level := None\<rparr>"
  have dist: "distinct (as @ r # bs)" using seg by (rule dseg_distinct)
  have px: "prev x = (if as = [] then None else Some (last as))"
    and nx: "nxt x = (if bs = [] then None else Some (hd bs))"
    using dseg_mid [OF seg x] by simp_all
  consider (only) "as = []" "bs = []" | (first) n ns where "as = []" "bs = n # ns"
    | (last) ps p where "as = ps @ [p]" "bs = []"
    | (mid) ps p n ns where "as = ps @ [p]" "bs = n # ns"
    by (metis list.exhaust rev_exhaust)
  then show ?thesis
  proof cases
    case only
    then show ?thesis
      using l x px nx
      by (intro exI [of _ "?h(r \<mapsto> ?x)"] exI [of _ "l\<lparr>head := None, tail := None\<rparr>"])
        (auto simp: fifoRemove_def modL_def modO_def)
  next
    case first
    with seg x obtain z where z: "?h n = Some z" "dseg ?h (Some r) (Some n) bs (tail l) None"
      by auto
    have "dseg (?h(n \<mapsto> z\<lparr>prev := None\<rparr>)) None (Some n) (n # ns) (tail l) None"
      using z first dist by (intro dseg_set_prev [of _ "Some r"]) auto
    then show ?thesis
      using l x px nx first z dist
      by (intro exI [of _ "?h(n \<mapsto> z\<lparr>prev := None\<rparr>, r \<mapsto> ?x)"] exI [of _ "l\<lparr>head := Some n\<rparr>"])
        (auto simp: fifoRemove_def modL_def modO_def simp del: dseg.simps)
  next
    case last
    with seg obtain y z where z: "?h p = Some z" "dseg ?h None (head l) (ps @ [p]) (Some p) y"
      by (auto simp: dseg_append)
    have "dseg (?h(p \<mapsto> z\<lparr>nxt := None\<rparr>)) None (head l) (ps @ [p]) (Some p) None"
      using z last dist by (intro dseg_set_next [of _ _ _ _ _ _ y]) auto
    then show ?thesis
      using l x px nx last z dist
      by (intro exI [of _ "?h(p \<mapsto> z\<lparr>nxt := None\<rparr>, r \<mapsto> ?x)"] exI [of _ "l\<lparr>tail := Some p\<rparr>"])
        (auto simp: fifoRemove_def modL_def modO_def simp del: dseg.simps)
  next
    case mid
    obtain z w where z: "?h p = Some z" "?h n = Some w"
      "dseg (?h(p \<mapsto> z\<lparr>nxt := Some n\<rparr>, n \<mapsto> w\<lparr>prev := Some p\<rparr>, r \<mapsto> ?x)) None (head l) (as @ bs) (tail l) None"
      using dseg_splice [of ?h None "head l" ps p r n ns "tail l" None "Some ?x"] seg dist mid
      by (auto simp del: dseg.simps)
    then show ?thesis
      using l x px nx mid dist
      by (intro exI [of _ "?h(p \<mapsto> z\<lparr>nxt := Some n\<rparr>, n \<mapsto> w\<lparr>prev := Some p\<rparr>, r \<mapsto> ?x)"] exI [of _ l])
        (auto simp: fifoRemove_def modL_def modO_def levelAt_triv simp del: dseg.simps)
  qed
qed

lemma fifoAppend_spec:
  assumes l: "levelAt b lr = Some l" and x: "orderAt b r = Some x" "prev x = None" "nxt x = None"
    and seg: "dseg (orderAt b) None (head l) rs (tail l) None" and fresh: "r \<notin> set rs"
  shows "\<exists>h' l'. fifoAppend r lr b = Some (b\<lparr>orderAt := h', levelAt := (levelAt b)(lr \<mapsto> l')\<rparr>)
    \<and> dseg h' None (head l') (rs @ [r]) (tail l') None
    \<and> (\<forall>r'. r' \<notin> set (rs @ [r]) \<longrightarrow> h' r' = orderAt b r')
    \<and> (\<forall>r'. map_option val (h' r') = map_option val (orderAt b r'))
    \<and> (\<forall>r'. r' \<noteq> r \<longrightarrow> map_option level (h' r') = map_option level (orderAt b r'))
    \<and> map_option level (h' r) = Some (Some lr)
    \<and> lprice l' = lprice l \<and> totalQty l' = totalQty l"
proof (cases rs rule: rev_exhaust)
  case Nil
  then show ?thesis
    using l x seg
    by (intro exI [of _ "(orderAt b)(r \<mapsto> x\<lparr>level := Some lr\<rparr>)"]
        exI [of _ "l\<lparr>head := Some r, tail := Some r\<rparr>"])
      (auto simp: fifoAppend_def modO_def modL_def)
next
  case (snoc ps t)
  let ?h = "orderAt b"
  let ?x = "x\<lparr>level := Some lr, prev := Some t\<rparr>"
  have dist: "distinct rs" using seg by (rule dseg_distinct)
  from seg snoc obtain z where z: "?h t = Some z" and tl: "tail l = Some t"
    and seg': "dseg ?h None (head l) (ps @ [t]) (Some t) None"
    by (auto simp: dseg_append)
  let ?h' = "?h(r \<mapsto> ?x, t \<mapsto> z\<lparr>nxt := Some r\<rparr>)"
  have "dseg (?h(t \<mapsto> z\<lparr>nxt := Some r\<rparr>)) None (head l) (ps @ [t]) (Some t) (Some r)"
    using seg' z dist snoc by (intro dseg_set_next [of _ _ _ _ _ _ None]) auto
  then have "dseg ?h' None (head l) (ps @ [t]) (Some t) (Some r)"
    using snoc fresh by (subst dseg_cong [where h' = "?h(t \<mapsto> z\<lparr>nxt := Some r\<rparr>)"]) auto
  moreover have "dseg ?h' (Some t) (Some r) [r] (Some r) None"
    using x fresh snoc by auto
  ultimately have "dseg ?h' None (head l) (rs @ [r]) (Some r) None"
    unfolding dseg_append [of _ _ _ rs] using snoc by blast
  then show ?thesis
    using l x z tl fresh snoc
    by (intro exI [of _ ?h'] exI [of _ "l\<lparr>tail := Some r\<rparr>"])
      (auto simp: fifoAppend_def modO_def modL_def simp del: dseg.simps)
qed

section \<open>Binary search over the levels of a side\<close>

text \<open>\<open>better d p q\<close>: price \<open>p\<close> has strict priority over \<open>q\<close> on the bid (\<open>d\<close>) or ask side.\<close>

definition better :: "bool \<Rightarrow> i64 \<Rightarrow> i64 \<Rightarrow> bool" where
  "better d p q \<longleftrightarrow> (if d then q <s p else p <s q)"

lemma better_irrefl [simp]: "\<not> better d p p"
  by (simp add: better_def signed_ord)

lemma better_trans [trans]: "better d p q \<Longrightarrow> better d q r \<Longrightarrow> better d p r"
  by (auto simp: better_def signed_ord split: if_splits)

lemma better_asym: "better d p q \<Longrightarrow> \<not> better d q p"
  by (auto simp: better_def signed_ord split: if_splits)

lemma better_total: "p \<noteq> q \<Longrightarrow> better d p q \<or> better d q p"
  by (auto simp: better_def signed_ord simp flip: sint_inj)

text \<open>The contract between the search and its two callers: the prices of a side are strictly sorted
  and the search returns the index of the price or the index where it belongs.\<close>

locale price_index =
  fixes ok :: "'b \<Rightarrow> bool \<Rightarrow> bool"
    and prices :: "'b \<Rightarrow> bool \<Rightarrow> i64 list"
    and index :: "'b \<Rightarrow> bool \<Rightarrow> i64 \<Rightarrow> (nat \<times> bool) option"
  assumes sorted: "ok b d \<Longrightarrow> sorted_wrt (better d) (prices b d)"
    and returns: "ok b d \<Longrightarrow> \<exists>i f. index b d p = Some (i, f)"
    and found: "ok b d \<Longrightarrow> index b d p = Some (i, True) \<Longrightarrow>
      i < length (prices b d) \<and> prices b d ! i = p"
    and missing: "ok b d \<Longrightarrow> index b d p = Some (i, False) \<Longrightarrow>
      i \<le> length (prices b d) \<and> (\<forall>q \<in> set (take i (prices b d)). better d q p)
      \<and> (\<forall>q \<in> set (drop i (prices b d)). better d p q)"
begin

lemma index_at:
  assumes ok: "ok b d" and ps: "prices b d = us @ p # vs"
  shows "index b d p = Some (length us, True)"
proof -
  obtain i f where i: "index b d p = Some (i, f)"
    using returns [OF ok] by blast
  have srt: "sorted_wrt (better d) (us @ p # vs)" using sorted [OF ok] ps by simp
  show ?thesis
  proof (cases f)
    case True
    then have "i < length (us @ p # vs)" "(us @ p # vs) ! i = p"
      using found [OF ok] i ps by auto
    moreover have "distinct (us @ p # vs)"
      using srt by (rule sorted_wrt_distinct) simp
    ultimately have "i = length us"
      using nth_eq_iff_index_eq [of "us @ p # vs" i "length us"] by simp
    with i True show ?thesis by simp
  next
    case False
    then have "\<forall>q \<in> set (take i (us @ p # vs)). better d q p"
      and "\<forall>q \<in> set (drop i (us @ p # vs)). better d p q"
      using missing [OF ok] i ps by auto
    moreover have "p \<in> set (take i (us @ p # vs)) \<or> p \<in> set (drop i (us @ p # vs))"
      by (metis append_take_drop_id in_set_conv_decomp Un_iff set_append)
    ultimately have "better d p p" by blast
    then show ?thesis by simp
  qed
qed

lemma index_absent:
  assumes ok: "ok b d" and "p \<notin> set (prices b d)"
  obtains i where "index b d p = Some (i, False)" "i \<le> length (prices b d)"
    "sorted_wrt (better d) (take i (prices b d) @ p # drop i (prices b d))"
proof -
  obtain i f where i: "index b d p = Some (i, f)"
    using returns [OF ok] by blast
  then have i': "index b d p = Some (i, False)"
    using found [OF ok, of p i] assms(2) by (cases f) (auto dest: nth_mem)
  note m = missing [OF ok i']
  have "sorted_wrt (better d) (take i (prices b d) @ drop i (prices b d))"
    using sorted [OF ok] by simp
  then have "sorted_wrt (better d) (take i (prices b d) @ p # drop i (prices b d))"
    using m by (auto simp: sorted_wrt_append simp del: append_take_drop_id)
  with m i' show ?thesis by (intro that [of i]) simp_all
qed

end

text \<open>The binary search keeps the classical loop invariant: everything before \<open>lo\<close> has priority over
  the wanted price, which has priority over everything from \<open>hi\<close> on.\<close>

lemma levelIndex_loop_correct:
  assumes alloc: "\<forall>lr \<in> set levels. h lr \<noteq> None"
    and srt: "sorted_wrt (better d) (map (\<lambda>lr. lprice (the (h lr))) levels)"
    and "hi \<le> length levels"
    and "\<forall>i < lo. better d (lprice (the (h (levels ! i)))) pr"
    and "\<forall>i. hi \<le> i \<and> i < length levels \<longrightarrow> better d pr (lprice (the (h (levels ! i))))"
    and "lo \<le> hi"
  shows "\<exists>i f. levelIndex_loop h levels pr d lo hi = Some (i, f) \<and> i \<le> length levels
    \<and> (f \<longrightarrow> i < length levels \<and> lprice (the (h (levels ! i))) = pr)
    \<and> (\<not> f \<longrightarrow> (\<forall>j < i. better d (lprice (the (h (levels ! j)))) pr)
         \<and> (\<forall>j. i \<le> j \<and> j < length levels \<longrightarrow> better d pr (lprice (the (h (levels ! j))))))"
  using assms
proof (induction h levels pr d lo hi rule: levelIndex_loop.induct)
  case (1 h levels pr d lo hi)
  let ?p = "\<lambda>i. lprice (the (h (levels ! i)))"
  have mono: "better d (?p i) (?p j)" if "i < j" "j < length levels" for i j
    using "1.prems"(2) that by (auto simp: sorted_wrt_iff_nth_less)
  show ?case
  proof (cases "lo < hi")
    case True
    let ?mid = "(lo + hi) div 2"
    have mid: "?mid < length levels" "lo \<le> ?mid" "?mid < hi" using True "1.prems"(3) by auto
    obtain l where l: "h (levels ! ?mid) = Some l" using "1.prems"(1) mid by fastforce
    consider (eq) "lprice l = pr" | (right) "lprice l \<noteq> pr" "d = (pr <s lprice l)"
      | (left) "lprice l \<noteq> pr" "d \<noteq> (pr <s lprice l)" by blast
    then show ?thesis
    proof cases
      case eq
      then have "levelIndex_loop h levels pr d lo hi = Some (?mid, True)"
        using True mid l by (subst levelIndex_loop.simps) (simp add: Let_def)
      with eq mid l show ?thesis by auto
    next
      case right
      then have "better d (?p ?mid) pr"
        using l by (auto simp: better_def signed_ord simp flip: sint_inj)
      then have "\<forall>i < ?mid + 1. better d (?p i) pr"
        by (metis better_trans mono mid(1) less_Suc_eq Suc_eq_plus1)
      note IH = "1.IH"(1) [OF True refl mid(1) l refl right "1.prems"(1-3) this "1.prems"(5)]
      have "levelIndex_loop h levels pr d lo hi = levelIndex_loop h levels pr d (?mid + 1) hi"
        using True mid l right by (subst levelIndex_loop.simps) (simp add: Let_def)
      then show ?thesis using IH mid(3) by simp
    next
      case left
      then have "better d pr (?p ?mid)"
        using l by (auto simp: better_def signed_ord simp flip: sint_inj split: if_splits)
      then have "\<forall>i. ?mid \<le> i \<and> i < length levels \<longrightarrow> better d pr (?p i)"
        by (metis better_trans mono le_neq_implies_less)
      note IH = "1.IH"(2) [OF True refl mid(1) l refl left "1.prems"(1,2) _ "1.prems"(4) this]
      have "levelIndex_loop h levels pr d lo hi = levelIndex_loop h levels pr d lo ?mid"
        using True mid l left by (subst levelIndex_loop.simps) (auto simp: Let_def signed_ord)
      then show ?thesis using IH mid by simp
    qed
  next
    case False
    with "1.prems" show ?thesis by (subst levelIndex_loop.simps) auto
  qed
qed

definition lpriceAt :: "OrderBook \<Rightarrow> lref \<Rightarrow> i64" where
  "lpriceAt b lr = lprice (the (levelAt b lr))"

definition sidePrices :: "OrderBook \<Rightarrow> bool \<Rightarrow> i64 list" where
  "sidePrices b d = map (lpriceAt b) (sideLevels d b)"

definition sideIndex :: "OrderBook \<Rightarrow> bool \<Rightarrow> i64 \<Rightarrow> (nat \<times> bool) option" where
  "sideIndex b d p = levelIndex b (sideLevels d b) p d"

definition sideOk :: "OrderBook \<Rightarrow> bool \<Rightarrow> bool" where
  "sideOk b d \<longleftrightarrow> (\<forall>lr \<in> set (sideLevels d b). levelAt b lr \<noteq> None)
     \<and> sorted_wrt (better d) (sidePrices b d)"

lemma sideIndex_correct:
  assumes "sideOk b d"
  shows "\<exists>i f. sideIndex b d p = Some (i, f) \<and> i \<le> length (sidePrices b d)
    \<and> (f \<longrightarrow> i < length (sidePrices b d) \<and> sidePrices b d ! i = p)
    \<and> (\<not> f \<longrightarrow> (\<forall>j < i. better d (sidePrices b d ! j) p)
         \<and> (\<forall>j. i \<le> j \<and> j < length (sidePrices b d) \<longrightarrow> better d p (sidePrices b d ! j)))"
proof -
  have srt: "sorted_wrt (better d) (map (\<lambda>lr. lprice (the (levelAt b lr))) (sideLevels d b))"
    and alloc: "\<forall>lr \<in> set (sideLevels d b). levelAt b lr \<noteq> None"
    using assms by (simp_all add: sideOk_def sidePrices_def lpriceAt_def [abs_def])
  let ?p = "\<lambda>i. lprice (the (levelAt b (sideLevels d b ! i)))"
  have "\<exists>i f. levelIndex b (sideLevels d b) p d = Some (i, f) \<and> i \<le> length (sideLevels d b)
    \<and> (f \<longrightarrow> i < length (sideLevels d b) \<and> ?p i = p)
    \<and> (\<not> f \<longrightarrow> (\<forall>j < i. better d (?p j) p)
         \<and> (\<forall>j. i \<le> j \<and> j < length (sideLevels d b) \<longrightarrow> better d p (?p j)))"
    unfolding levelIndex_def by (rule levelIndex_loop_correct [OF alloc srt le_refl]) auto
  then show ?thesis
    by (fastforce simp: sideIndex_def sidePrices_def lpriceAt_def)
qed

interpretation li: price_index sideOk sidePrices sideIndex
proof
  fix b d p i
  assume ok: "sideOk b d"
  note c = sideIndex_correct [OF ok, of p]
  show "sorted_wrt (better d) (sidePrices b d)" using ok by (simp add: sideOk_def)
  show "\<exists>i f. sideIndex b d p = Some (i, f)" using c by auto
  show "i < length (sidePrices b d) \<and> sidePrices b d ! i = p" if "sideIndex b d p = Some (i, True)"
    using c that by auto
  show "i \<le> length (sidePrices b d) \<and> (\<forall>q \<in> set (take i (sidePrices b d)). better d q p)
      \<and> (\<forall>q \<in> set (drop i (sidePrices b d)). better d p q)" if "sideIndex b d p = Some (i, False)"
  proof -
    have i: "i \<le> length (sidePrices b d)" "\<forall>j < i. better d (sidePrices b d ! j) p"
      "\<forall>j. i \<le> j \<and> j < length (sidePrices b d) \<longrightarrow> better d p (sidePrices b d ! j)"
      using c that by auto
    then show ?thesis
      by (fastforce simp: in_set_conv_nth)
  qed
qed

section \<open>The representation invariant\<close>

type_synonym layout = "bool \<Rightarrow> (lref \<times> oref list) list"

text \<open>A level in the book: not empty, its list linked from head to tail, and every order on it points
  back at it, has its price and belongs to the side.\<close>

definition lvl_shape :: "OrderBook \<Rightarrow> bool \<Rightarrow> lref \<times> oref list \<Rightarrow> bool" where
  "lvl_shape b d e \<longleftrightarrow> snd e \<noteq> [] \<and> (\<exists>l. levelAt b (fst e) = Some l
     \<and> dseg (orderAt b) None (head l) (snd e) (tail l) None
     \<and> (\<forall>r \<in> set (snd e). \<exists>x. orderAt b r = Some x \<and> level x = Some (fst e)
          \<and> price x = lprice l \<and> (side x = Buy) = d))"

definition refs :: "layout \<Rightarrow> bool \<Rightarrow> oref list" where
  "refs L d = concat (map snd (L d))"

definition shape :: "OrderBook \<Rightarrow> layout \<Rightarrow> bool" where
  "shape b L \<longleftrightarrow>
     (\<forall>d. sideLevels d b = map fst (L d) \<and> sorted_wrt (better d) (sidePrices b d)
        \<and> (\<forall>e \<in> set (L d). lvl_shape b d e))
     \<and> distinct (map fst (orders b))
     \<and> (\<forall>k r. map_of (orders b) k = Some r \<longleftrightarrow>
          (\<exists>d. r \<in> set (refs L d)) \<and> (\<exists>x. orderAt b r = Some x \<and> oid x = k))
     \<and> (\<forall>r \<ge> orderTop b. orderAt b r = None) \<and> (\<forall>lr \<ge> levelTop b. levelAt b lr = None)"

lemma lvl_shape_cong:
  assumes "lvl_shape b d e" and "levelAt b' (fst e) = levelAt b (fst e)"
    and "\<And>r. r \<in> set (snd e) \<Longrightarrow> orderAt b' r = orderAt b r"
  shows "lvl_shape b' d e"
proof -
  from assms(1) obtain l where l: "levelAt b (fst e) = Some l" "snd e \<noteq> []"
    "dseg (orderAt b) None (head l) (snd e) (tail l) None"
    "\<forall>r \<in> set (snd e). \<exists>x. orderAt b r = Some x \<and> level x = Some (fst e)
       \<and> price x = lprice l \<and> (side x = Buy) = d"
    unfolding lvl_shape_def by blast
  have "dseg (orderAt b') None (head l) (snd e) (tail l) None"
    using l(3) assms(3) by (subst dseg_cong [where h' = "orderAt b"]) auto
  with l assms(2,3) show ?thesis unfolding lvl_shape_def by auto
qed

lemma shape_level: "shape b L \<Longrightarrow> e \<in> set (L d) \<Longrightarrow> lvl_shape b d e"
  by (auto simp: shape_def)

lemma shape_sides: "shape b L \<Longrightarrow> sideLevels d b = map fst (L d)"
  by (auto simp: shape_def)

lemma shape_sorted: "shape b L \<Longrightarrow> sorted_wrt (better d) (map (lpriceAt b \<circ> fst) (L d))"
proof -
  assume "shape b L"
  then have "sorted_wrt (better d) (sidePrices b d)" "sideLevels d b = map fst (L d)"
    by (auto simp: shape_def)
  then show ?thesis by (simp add: sidePrices_def)
qed

lemma shape_sideOk: "shape b L \<Longrightarrow> sideOk b d"
  by (auto simp: shape_def sideOk_def lvl_shape_def) force

lemma shape_level_unique:
  assumes "shape b L" and "(lr, rs) \<in> set (L d)" and "(lr, rs') \<in> set (L d')"
  shows "d = d' \<and> rs = rs'"
proof -
  obtain l where l: "levelAt b lr = Some l" "dseg (orderAt b) None (head l) rs (tail l) None" "rs \<noteq> []"
    "\<forall>r \<in> set rs. \<exists>x. orderAt b r = Some x \<and> (side x = Buy) = d"
    using shape_level [OF assms(1,2)] unfolding lvl_shape_def by fastforce
  moreover have "dseg (orderAt b) None (head l) rs' (tail l) None"
    "\<forall>r \<in> set rs'. \<exists>x. orderAt b r = Some x \<and> (side x = Buy) = d'"
    using shape_level [OF assms(1,3)] l(1) unfolding lvl_shape_def by fastforce+
  moreover from calculation have "rs = rs'" by (blast dest: dseg_unique)
  ultimately show ?thesis by (metis list.set_sel(1) option.inject)
qed

lemma shape_order_level:
  assumes "shape b L" and "(lr, rs) \<in> set (L d)" and "r \<in> set rs"
  obtains x where "orderAt b r = Some x" "level x = Some lr" "(side x = Buy) = d"
    "price x = lpriceAt b lr"
  using shape_level [OF assms(1,2)] assms(3) unfolding lvl_shape_def lpriceAt_def by auto

lemma shape_rest:
  assumes "shape b L" and "(lr, rs) \<in> set (L d)" and "(lr', rs') \<in> set (L d')"
    and "r \<in> set rs" and "r \<in> set rs'"
  shows "lr = lr'"
  using assms by (metis shape_order_level option.inject)

lemma shape_distinct_levels: "shape b L \<Longrightarrow> distinct (map fst (L d))"
proof -
  assume sh: "shape b L"
  then have "distinct (sidePrices b d)"
    by (intro sorted_wrt_distinct [of "better d"]) (auto simp: shape_def)
  then show ?thesis using sh
    by (auto simp: sidePrices_def shape_sides distinct_map dest: inj_on_imageI2)
qed

lemma concat_distinct:
  assumes "distinct (map fst es)" and "\<And>e. e \<in> set es \<Longrightarrow> distinct (snd e)"
    and "\<And>e e' r. e \<in> set es \<Longrightarrow> e' \<in> set es \<Longrightarrow> r \<in> set (snd e) \<Longrightarrow> r \<in> set (snd e') \<Longrightarrow> fst e = fst e'"
  shows "distinct (concat (map snd es))"
  using assms
proof (induction es)
  case (Cons e es)
  have "set (snd e) \<inter> set (snd e') = {}" if "e' \<in> set es" for e'
  proof (rule ccontr)
    assume "set (snd e) \<inter> set (snd e') \<noteq> {}"
    with Cons.prems(3) [of e e'] that have "fst e = fst e'" by auto
    with Cons.prems(1) that show False by auto
  qed
  moreover have "distinct (concat (map snd es))"
    by (rule Cons.IH) (use Cons.prems in \<open>auto simp del: distinct_concat_iff\<close>)
  moreover have "distinct (snd e)" by (rule Cons.prems(2)) simp
  ultimately show ?case by auto
qed simp

lemma shape_distinct_refs: "shape b L \<Longrightarrow> distinct (refs L d)"
  unfolding refs_def
proof (rule concat_distinct)
  assume sh: "shape b L"
  show "distinct (map fst (L d))" using sh by (rule shape_distinct_levels)
  show "distinct (snd e)" if "e \<in> set (L d)" for e
    using shape_level [OF sh that] by (auto simp: lvl_shape_def dest: dseg_distinct)
  show "fst e = fst e'" if "e \<in> set (L d)" "e' \<in> set (L d)" "r \<in> set (snd e)" "r \<in> set (snd e')"
    for e e' r
    using shape_rest [OF sh, of "fst e" "snd e" d "fst e'" "snd e'" d r] that by simp
qed

lemma shape_ref:
  assumes "shape b L" and "r \<in> set (refs L d)"
  obtains lr rs x where "(lr, rs) \<in> set (L d)" "r \<in> set rs" "orderAt b r = Some x"
    "level x = Some lr" "(side x = Buy) = d" "price x = lpriceAt b lr"
  using assms by (auto simp: refs_def elim: shape_order_level)

lemma shape_ref_side: "shape b L \<Longrightarrow> r \<in> set (refs L d) \<Longrightarrow> r \<in> set (refs L d') \<Longrightarrow> d = d'"
  by (metis shape_ref option.inject)

section \<open>What the pointer operations keep\<close>

text \<open>Everything but pointers and membership is unchanged, and orders outside the given ones are not
  written at all.\<close>

definition keeps :: "oref set \<Rightarrow> OrderBook \<Rightarrow> OrderBook \<Rightarrow> bool" where
  "keeps R b b' \<longleftrightarrow> nextOrderId b' = nextOrderId b \<and> orderTop b' = orderTop b
     \<and> (\<forall>r. map_option val (orderAt b' r) = map_option val (orderAt b r))
     \<and> (\<forall>r. r \<notin> R \<longrightarrow> orderAt b' r = orderAt b r)"

definition lval :: "priceLevel \<Rightarrow> i64 \<times> i64" where
  "lval l = (lprice l, totalQty l)"

lemma map_option_val_SomeD:
  assumes "map_option val y = map_option val z" and "z = Some x"
  obtains x' where "y = Some x'" "val x' = val x"
  using assms by auto

lemma refs_upd: "refs (L(d := es)) d' = (if d' = d then concat (map snd es) else refs L d')"
  by (simp add: refs_def)

lemma sideLevels_set [simp]:
  "sideLevels d (setSideLevels d' ls b) = (if d' = d then ls else sideLevels d b)"
  by (auto simp: sideLevels_def setSideLevels_def)

lemma setSideLevels_sel [simp]:
  "orderAt (setSideLevels d ls b) = orderAt b" "levelAt (setSideLevels d ls b) = levelAt b"
  "orders (setSideLevels d ls b) = orders b" "nextOrderId (setSideLevels d ls b) = nextOrderId b"
  "orderTop (setSideLevels d ls b) = orderTop b" "levelTop (setSideLevels d ls b) = levelTop b"
  by (simp_all add: setSideLevels_def)

lemma sideLevels_upd [simp]:
  "sideLevels d (b\<lparr>orderAt := h\<rparr>) = sideLevels d b" "sideLevels d (b\<lparr>levelAt := hl\<rparr>) = sideLevels d b"
  "sideLevels d (b\<lparr>orders := m\<rparr>) = sideLevels d b" "sideLevels d (b\<lparr>nextOrderId := n\<rparr>) = sideLevels d b"
  "sideLevels d (b\<lparr>orderTop := t\<rparr>) = sideLevels d b" "sideLevels d (b\<lparr>levelTop := t\<rparr>) = sideLevels d b"
  by (simp_all add: sideLevels_def)

text \<open>The state between the two halves of \<open>unlink\<close>: the order is off its list and out of the map, a
  level left empty is still on its side.\<close>

lemma unlink_fifo:
  assumes sh: "shape b L" and Ld: "L d = X @ (lr, as @ r # bs) # Y" and x: "orderAt b r = Some x"
  obtains h' l' b1 where "fifoRemove r x lr b = Some b1"
    "b1 = b\<lparr>orderAt := h', levelAt := (levelAt b)(lr \<mapsto> l')\<rparr>"
    "level x = Some lr" "(side x = Buy) = d"
    "dseg h' None (head l') (as @ bs) (tail l') None"
    "\<And>r'. r' \<notin> set (as @ r # bs) \<Longrightarrow> h' r' = orderAt b r'"
    "\<And>r'. map_option val (h' r') = map_option val (orderAt b r')"
    "\<And>r'. r' \<noteq> r \<Longrightarrow> map_option level (h' r') = map_option level (orderAt b r')"
    "lpriceAt b lr = lprice l'" "map_option lval (levelAt b lr) = Some (lval l')"
proof -
  have "lvl_shape b d (lr, as @ r # bs)" using shape_level [OF sh] Ld by simp
  then obtain l where l: "levelAt b lr = Some l" "level x = Some lr" "(side x = Buy) = d"
    "dseg (orderAt b) None (head l) (as @ r # bs) (tail l) None"
    using x unfolding lvl_shape_def by fastforce
  from fifoRemove_spec [OF l(1) x l(4)] obtain h' l' where
    "fifoRemove r x lr b = Some (b\<lparr>orderAt := h', levelAt := (levelAt b)(lr \<mapsto> l')\<rparr>)"
    "dseg h' None (head l') (as @ bs) (tail l') None"
    "\<forall>r'. r' \<notin> set (as @ r # bs) \<longrightarrow> h' r' = orderAt b r'"
    "\<forall>r'. map_option val (h' r') = map_option val (orderAt b r')"
    "\<forall>r'. r' \<noteq> r \<longrightarrow> map_option level (h' r') = map_option level (orderAt b r')"
    "lprice l' = lprice l" "totalQty l' = totalQty l" by blast
  then show ?thesis
    using l by (intro that [OF _ refl, where h' = h' and l' = l']) (auto simp: lpriceAt_def lval_def)
qed

lemma lvl_shape_removed:
  assumes "lvl_shape b d (lr, as @ r # bs)" and "as @ bs \<noteq> []" and "levelAt b1 lr = Some l'"
    and "dseg (orderAt b1) None (head l') (as @ bs) (tail l') None"
    and "\<And>r'. map_option val (orderAt b1 r') = map_option val (orderAt b r')"
    and "\<And>r'. r' \<noteq> r \<Longrightarrow> map_option level (orderAt b1 r') = map_option level (orderAt b r')"
    and "lpriceAt b lr = lprice l'" and "r \<notin> set (as @ bs)"
  shows "lvl_shape b1 d (lr, as @ bs)"
proof -
  have "\<exists>x. orderAt b1 r' = Some x \<and> level x = Some lr \<and> price x = lprice l' \<and> (side x = Buy) = d"
    if r': "r' \<in> set (as @ bs)" for r'
  proof -
    obtain y where y: "orderAt b r' = Some y" "level y = Some lr" "price y = lprice l'"
      "(side y = Buy) = d"
      using assms(1,7) r' unfolding lvl_shape_def lpriceAt_def by fastforce
    moreover have "r' \<noteq> r" using r' assms(8) by auto
    ultimately obtain z where "orderAt b1 r' = Some z" "val z = val y" "level z = level y"
      using assms(5) [of r'] assms(6) [of r'] by auto
    then show ?thesis using y by (auto simp: val_eq_iff)
  qed
  then show ?thesis using assms(2-4) by (auto simp: lvl_shape_def)
qed

text \<open>Levels that share neither their address nor an order with what was written keep their shape.\<close>

lemma other_levels:
  assumes sh: "shape b L" and Ld: "L d = X @ (lr, rs) # Y"
    and e: "e \<in> set (L d')" "d' = d \<Longrightarrow> e \<in> set X \<union> set Y"
  shows "fst e \<noteq> lr \<and> set (snd e) \<inter> set rs = {}"
proof -
  have inL: "(lr, rs) \<in> set (L d)" using Ld by simp
  have "fst e \<noteq> lr"
  proof
    assume eq: "fst e = lr"
    with shape_level_unique [OF sh inL, of "snd e" d'] e(1) have "d' = d" by auto
    with e(2) eq shape_distinct_levels [OF sh, of d] Ld show False by auto
  qed
  moreover have "fst e = lr" if "r \<in> set (snd e)" "r \<in> set rs" for r
    using shape_rest [OF sh inL, of "fst e" "snd e" d' r] e(1) that by simp
  ultimately show ?thesis by auto
qed

lemma levels_after:
  assumes sh: "shape b L" and Ld: "L d = X @ E @ Y"
    and other: "\<And>d' e. e \<in> set (L d') \<Longrightarrow> (d' = d \<Longrightarrow> e \<in> set X \<union> set Y) \<Longrightarrow>
      fst e \<noteq> lr \<and> set (snd e) \<inter> R = {}"
    and frame: "\<And>l. l \<noteq> lr \<Longrightarrow> levelAt b' l = levelAt b l" "\<And>r. r \<notin> R \<Longrightarrow> orderAt b' r = orderAt b r"
    and new: "\<And>e. e \<in> set E' \<Longrightarrow> lvl_shape b' d e"
    and e: "e \<in> set ((L(d := X @ E' @ Y)) d')"
  shows "lvl_shape b' d' e"
proof (cases "d' = d \<and> e \<in> set E'")
  case True
  then show ?thesis using new by simp
next
  case False
  then have e': "e \<in> set (L d')" "d' = d \<Longrightarrow> e \<in> set X \<union> set Y"
    using e Ld by (auto split: if_splits)
  note o = other [OF e']
  show ?thesis
    by (rule lvl_shape_cong [OF shape_level [OF sh e'(1)]]) (use o frame in auto)
qed

lemma refs_remove:
  assumes sh: "shape b L" and Ld: "L d = X @ (lr, as @ r # bs) # Y"
  shows "(\<exists>d'. r' \<in> set (refs (L(d := X @ (if as @ bs = [] then [] else [(lr, as @ bs)]) @ Y)) d'))
    \<longleftrightarrow> r' \<noteq> r \<and> (\<exists>d'. r' \<in> set (refs L d'))"
proof -
  have dist: "distinct (refs L d)" using sh by (rule shape_distinct_refs)
  have 1: "r' \<in> set (refs (L(d := X @ (if as @ bs = [] then [] else [(lr, as @ bs)]) @ Y)) d)
    \<longleftrightarrow> r' \<noteq> r \<and> r' \<in> set (refs L d)"
    using dist unfolding refs_upd unfolding refs_def Ld by auto
  have rd: "r \<in> set (refs L d)" by (simp add: refs_def Ld)
  have "r' \<noteq> r" if "r' \<in> set (refs L (\<not> d))"
    using shape_ref_side [OF sh rd, of "\<not> d"] that by auto
  with 1 show ?thesis
    unfolding ex_bool_eq by (cases d) (auto simp: refs_upd)
qed

lemma ids_kept:
  assumes "map_option val (h' r) = map_option val (h r)"
  shows "(\<exists>z. h' r = Some z \<and> oid z = k) \<longleftrightarrow> (\<exists>z. h r = Some z \<and> oid z = k)"
  using assms by (cases "h' r"; cases "h r") (auto simp: val_eq_iff)

lemma map_after_remove:
  assumes sh: "shape b L" and Ld: "L d = X @ (lr, as @ r # bs) # Y" and x: "orderAt b r = Some x"
    and vals: "\<And>r'. map_option val (h' r') = map_option val (orderAt b r')"
  shows "map_of (AList.delete (oid x) (orders b)) k = Some r' \<longleftrightarrow>
    (\<exists>d'. r' \<in> set (refs (L(d := X @ (if as @ bs = [] then [] else [(lr, as @ bs)]) @ Y)) d'))
    \<and> (\<exists>z. h' r' = Some z \<and> oid z = k)"
proof -
  have m: "map_of (orders b) k' = Some r'' \<longleftrightarrow>
      (\<exists>d'. r'' \<in> set (refs L d')) \<and> (\<exists>z. orderAt b r'' = Some z \<and> oid z = k')" for k' r''
    using sh by (simp add: shape_def)
  have "r \<in> set (refs L d)" using Ld by (simp add: refs_def)
  then have "map_of (orders b) (oid x) = Some r" using m x by auto
  with m [of k r'] x show ?thesis
    unfolding refs_remove [OF sh Ld] ids_kept [of h' _ "orderAt b", OF vals] by (auto simp: delete_conv')
qed

text \<open>What the steps of \<open>unlink\<close> leave in the store.\<close>

lemma unlink_store:
  assumes sh: "shape b L" and Ld: "L d = X @ (lr, as @ r # bs) # Y" and x: "orderAt b r = Some x"
  obtains b' l' where "unlink r b = Some b'" "levelAt b' = (levelAt b)(lr \<mapsto> l')" "lpriceAt b' = lpriceAt b"
    "orders b' = AList.delete (oid x) (orders b)" "nextOrderId b' = nextOrderId b"
    "orderTop b' = orderTop b" "levelTop b' = levelTop b"
    "\<And>d'. sideLevels d' b' = map fst ((L(d := X @ (if as @ bs = [] then [] else [(lr, as @ bs)]) @ Y)) d')"
    "dseg (orderAt b') None (head l') (as @ bs) (tail l') None"
    "\<And>r'. r' \<notin> set (as @ r # bs) \<Longrightarrow> orderAt b' r' = orderAt b r'"
    "\<And>r'. map_option val (orderAt b' r') = map_option val (orderAt b r')"
    "\<And>r'. r' \<noteq> r \<Longrightarrow> map_option level (orderAt b' r') = map_option level (orderAt b r')"
    "lpriceAt b lr = lprice l'" "map_option lval (levelAt b lr) = Some (lval l')"
proof -
  obtain h' l' b1 where f: "fifoRemove r x lr b = Some b1"
    and b1: "b1 = b\<lparr>orderAt := h', levelAt := (levelAt b)(lr \<mapsto> l')\<rparr>"
    and lx: "level x = Some lr" "(side x = Buy) = d"
    and h': "dseg h' None (head l') (as @ bs) (tail l') None"
      "\<And>r'. r' \<notin> set (as @ r # bs) \<Longrightarrow> h' r' = orderAt b r'"
      "\<And>r'. map_option val (h' r') = map_option val (orderAt b r')"
      "\<And>r'. r' \<noteq> r \<Longrightarrow> map_option level (h' r') = map_option level (orderAt b r')"
    and pr: "lpriceAt b lr = lprice l'" and lv: "map_option lval (levelAt b lr) = Some (lval l')"
    by (rule unlink_fifo [OF sh Ld x]) (rule that; assumption)
  define b2 where "b2 = b1\<lparr>orders := AList.delete (oid x) (orders b)\<rparr>"
  define b3 where "b3 = (if as @ bs = [] then setSideLevels d (map fst (X @ Y)) b2 else b2)"
  have b2: "levelAt b2 = (levelAt b)(lr \<mapsto> l')" "sideLevels d' b2 = sideLevels d' b"
    "lpriceAt b2 = lpriceAt b" for d'
    using pr by (auto simp: fun_eq_iff b2_def b1 lpriceAt_def)
  have b3: "orderAt b3 = h'" "levelAt b3 = (levelAt b)(lr \<mapsto> l')" "lpriceAt b3 = lpriceAt b"
    "orders b3 = AList.delete (oid x) (orders b)" "nextOrderId b3 = nextOrderId b"
    "orderTop b3 = orderTop b" "levelTop b3 = levelTop b"
    using pr by (simp_all add: b3_def b2_def b1 fun_eq_iff lpriceAt_def)
  have "sideOk b2 d"
    using shape_sideOk [OF sh, of d] by (auto simp: sideOk_def sidePrices_def b2)
  then have "levelIndex b2 (sideLevels d b2) (lprice l') d = Some (length X, True)"
    using li.index_at [of b2 d "map (lpriceAt b \<circ> fst) X" "lprice l'" "map (lpriceAt b \<circ> fst) Y"]
    by (simp add: sideIndex_def sidePrices_def b2 shape_sides [OF sh] Ld pr)
  moreover have "head l' = None \<longleftrightarrow> as @ bs = []"
    using dseg_first [OF h'(1)] by (auto split: if_splits)
  ultimately have un: "unlink r b = Some b3"
    using x lx f by (auto simp: unlink_def b3_def b2_def b1 Let_def shape_sides [OF sh] Ld)
  have sides: "sideLevels d' b3 = map fst ((L(d := X @ (if as @ bs = [] then [] else [(lr, as @ bs)]) @ Y)) d')" for d'
    using shape_sides [OF sh, of d'] Ld by (auto simp: b3_def b2)
  show thesis by (rule that [OF un b3(2-7) sides h' [folded b3(1)] pr lv])
qed

text \<open>\<open>unlink\<close> returns, takes exactly this order off the layout (with its level when it was the last
  one), and changes no quantity, price or total.\<close>

lemma unlink_spec:
  assumes sh: "shape b L" and Ld: "L d = X @ (lr, as @ r # bs) # Y" and x: "orderAt b r = Some x"
  shows "\<exists>b'. unlink r b = Some b'
    \<and> shape b' (L(d := X @ (if as @ bs = [] then [] else [(lr, as @ bs)]) @ Y))
    \<and> keeps (set (refs L d)) b b' \<and> (\<forall>l. map_option lval (levelAt b' l) = map_option lval (levelAt b l))"
proof -
  let ?E = "if as @ bs = [] then [] else [(lr, as @ bs)]"
  let ?L' = "L(d := X @ ?E @ Y)"
  obtain b3 l' where un: "unlink r b = Some b3"
    and b3: "levelAt b3 = (levelAt b)(lr \<mapsto> l')" "lpriceAt b3 = lpriceAt b"
      "orders b3 = AList.delete (oid x) (orders b)" "nextOrderId b3 = nextOrderId b"
      "orderTop b3 = orderTop b" "levelTop b3 = levelTop b"
    and sides: "\<And>d'. sideLevels d' b3 = map fst (?L' d')"
    and seg: "dseg (orderAt b3) None (head l') (as @ bs) (tail l') None"
    and frame: "\<And>r'. r' \<notin> set (as @ r # bs) \<Longrightarrow> orderAt b3 r' = orderAt b r'"
    and vals: "\<And>r'. map_option val (orderAt b3 r') = map_option val (orderAt b r')"
    and lvls: "\<And>r'. r' \<noteq> r \<Longrightarrow> map_option level (orderAt b3 r') = map_option level (orderAt b r')"
    and pr: "lpriceAt b lr = lprice l'" and lv: "map_option lval (levelAt b lr) = Some (lval l')"
    by (rule unlink_store [OF sh Ld x]) (rule that; assumption)
  have sorted: "sorted_wrt (better d') (sidePrices b3 d')" for d'
    using shape_sorted [OF sh, of d'] Ld
      sorted_wrt_replace [of "better d" "lpriceAt b \<circ> fst" X "(lr, as @ r # bs)" Y "(lr, as @ bs)"]
    by (cases "d' = d") (simp_all add: sidePrices_def b3 sides)
  have new: "lvl_shape b3 d e" if "e \<in> set ?E" for e
    using that lvl_shape_removed [OF shape_level [OF sh], of lr as r bs d b3 l']
      seg vals lvls pr Ld shape_distinct_refs [OF sh, of d]
    by (auto simp: b3 refs_def split: if_splits)
  have "lvl_shape b3 d' e" if "e \<in> set (?L' d')" for d' e
    by (rule levels_after [OF sh _ other_levels [OF sh Ld] _ _ new that]) (simp_all add: Ld b3 frame)
  moreover have "distinct (map fst (orders b3))"
    using sh by (simp add: b3 shape_def distinct_delete)
  moreover note map_after_remove [OF sh Ld x vals, folded b3]
  moreover have "\<forall>r' \<ge> orderTop b3. orderAt b3 r' = None"
    using sh vals by (auto simp: b3 shape_def) (metis map_option_is_None)
  moreover have "\<forall>l \<ge> levelTop b3. levelAt b3 l = None"
    using sh lv by (auto simp: b3 shape_def)
  ultimately have "shape b3 ?L'" using sides sorted by (simp add: shape_def del: fun_upd_apply)
  moreover have "keeps (set (refs L d)) b b3"
    using vals frame Ld by (auto simp: keeps_def b3 refs_def)
  moreover have "map_option lval (levelAt b3 l) = map_option lval (levelAt b l)" for l
    using lv by (cases "l = lr") (auto simp: b3)
  ultimately show ?thesis using un by blast
qed

lemma levelFor_new:
  assumes sh: "shape b L" and d: "(side x = Buy) = d" and absent: "price x \<notin> set (sidePrices b d)"
  defines "l \<equiv> \<lparr>lprice = price x, totalQty = 0, head = None, tail = None\<rparr>"
  obtains b1 X Y where "levelFor x b = Some (levelTop b, b1)" "L d = X @ Y"
    "sideLevels d b1 = map fst X @ levelTop b # map fst Y" "sideLevels (\<not> d) b1 = sideLevels (\<not> d) b"
    "sorted_wrt (better d) (map (lpriceAt b1) (sideLevels d b1))"
    "levelAt b1 = (levelAt b)(levelTop b \<mapsto> l)" "orderAt b1 = orderAt b" "orders b1 = orders b"
    "nextOrderId b1 = nextOrderId b" "orderTop b1 = orderTop b" "levelTop b1 = Suc (levelTop b)"
proof -
  from li.index_absent [OF shape_sideOk [OF sh] absent] obtain i where
    i: "levelIndex b (sideLevels d b) (price x) d = Some (i, False)" "i \<le> length (L d)"
    and srt: "sorted_wrt (better d) (take i (sidePrices b d) @ price x # drop i (sidePrices b d))"
    by (auto simp: sideIndex_def sidePrices_def shape_sides [OF sh])
  let ?lr = "levelTop b" and ?X = "take i (L d)" and ?Y = "drop i (L d)"
  define b1 where "b1 = setSideLevels d (map fst ?X @ ?lr # map fst ?Y)
    (b\<lparr>levelAt := (levelAt b)(?lr \<mapsto> l), levelTop := Suc ?lr\<rparr>)"
  have lf: "levelFor x b = Some (?lr, b1)"
    using d i by (simp add: b1_def l_def levelFor_def newL_def Let_def shape_sides [OF sh] take_map drop_map)
  have b1: "sideLevels d b1 = map fst ?X @ ?lr # map fst ?Y" "sideLevels (\<not> d) b1 = sideLevels (\<not> d) b"
    "levelAt b1 = (levelAt b)(?lr \<mapsto> l)" "orderAt b1 = orderAt b" "orders b1 = orders b"
    "nextOrderId b1 = nextOrderId b" "orderTop b1 = orderTop b" "levelTop b1 = Suc ?lr"
    by (simp_all add: b1_def)
  have fresh: "levelAt b ?lr = None" using sh by (simp add: shape_def)
  have "lpriceAt b1 (fst e) = lpriceAt b (fst e)" if "e \<in> set (L d)" for e
    using shape_level [OF sh that] fresh by (auto simp: lvl_shape_def lpriceAt_def b1)
  then have same: "map (lpriceAt b1 \<circ> fst) ?X = map (lpriceAt b \<circ> fst) ?X"
    "map (lpriceAt b1 \<circ> fst) ?Y = map (lpriceAt b \<circ> fst) ?Y"
    by (auto dest: in_set_takeD in_set_dropD)
  have "lpriceAt b1 ?lr = price x" by (simp add: lpriceAt_def b1(3) l_def)
  then have "sorted_wrt (better d) (map (lpriceAt b1) (sideLevels d b1))"
    using srt by (simp add: sidePrices_def shape_sides [OF sh] take_map drop_map b1 same)
  then show thesis using b1 by (intro that [OF lf, of ?X ?Y]) auto
qed

text \<open>\<open>levelFor\<close> returns a level of the order's price at its place on the side: one that is there already
  (\<open>rs\<close> are its orders), or a new empty one.\<close>

lemma levelFor_spec:
  assumes sh: "shape b L" and d: "(side x = Buy) = d"
  shows "\<exists>lr b1 X Y rs l. levelFor x b = Some (lr, b1)
    \<and> L d = X @ (if rs = [] then [] else [(lr, rs)]) @ Y
    \<and> sideLevels d b1 = map fst X @ lr # map fst Y \<and> sideLevels (\<not> d) b1 = sideLevels (\<not> d) b
    \<and> levelAt b1 lr = Some l \<and> lprice l = price x
    \<and> dseg (orderAt b) None (head l) rs (tail l) None
    \<and> sorted_wrt (better d) (map (lpriceAt b1) (sideLevels d b1))
    \<and> levelAt b1 = (levelAt b)(lr \<mapsto> l) \<and> orderAt b1 = orderAt b \<and> orders b1 = orders b
    \<and> nextOrderId b1 = nextOrderId b \<and> orderTop b1 = orderTop b
    \<and> (\<forall>l \<ge> levelTop b1. levelAt b1 l = None)
    \<and> (if rs = [] then levelAt b lr = None \<and> totalQty l = 0 else levelAt b lr = Some l)"
proof (cases "price x \<in> set (sidePrices b d)")
  case True
  then have "price x \<in> set (map (lpriceAt b \<circ> fst) (L d))"
    by (simp add: sidePrices_def shape_sides [OF sh])
  then obtain lr rs X Y where Ld: "L d = X @ (lr, rs) # Y" and p: "lpriceAt b lr = price x"
    by (auto dest: split_list)
  then have "lvl_shape b d (lr, rs)" using shape_level [OF sh, of "(lr, rs)" d] by simp
  then obtain l where l: "levelAt b lr = Some l" "rs \<noteq> []"
    "dseg (orderAt b) None (head l) rs (tail l) None" by (auto simp: lvl_shape_def)
  have "sidePrices b d = map (lpriceAt b \<circ> fst) X @ price x # map (lpriceAt b \<circ> fst) Y"
    using p by (simp add: sidePrices_def shape_sides [OF sh] Ld)
  from li.index_at [OF shape_sideOk [OF sh] this]
  have "levelFor x b = Some (lr, b)"
    using d by (simp add: levelFor_def sideIndex_def shape_sides [OF sh] Ld nth_append)
  then show ?thesis
    using l p Ld shape_sides [OF sh] shape_sorted [OF sh, of d] sh
    by (intro exI [of _ lr] exI [of _ b] exI [of _ X] exI [of _ Y] exI [of _ rs] exI [of _ l])
      (auto simp: lpriceAt_def shape_def fun_upd_idem)
next
  case False
  let ?l = "\<lparr>lprice = price x, totalQty = 0, head = None, tail = None\<rparr>"
  obtain b1 X Y where lf: "levelFor x b = Some (levelTop b, b1)" "L d = X @ Y"
    and b1: "sideLevels d b1 = map fst X @ levelTop b # map fst Y" "sideLevels (\<not> d) b1 = sideLevels (\<not> d) b"
      "sorted_wrt (better d) (map (lpriceAt b1) (sideLevels d b1))"
      "levelAt b1 = (levelAt b)(levelTop b \<mapsto> ?l)" "orderAt b1 = orderAt b" "orders b1 = orders b"
      "nextOrderId b1 = nextOrderId b" "orderTop b1 = orderTop b" "levelTop b1 = Suc (levelTop b)"
    by (rule levelFor_new [OF sh d False])
  show ?thesis
    using lf b1 sh
    by (intro exI [of _ "levelTop b"] exI [of _ b1] exI [of _ X] exI [of _ Y] exI [of _ "[]"] exI [of _ ?l])
      (simp add: shape_def)
qed

lemma lvl_shape_appended:
  assumes old: "rs \<noteq> [] \<Longrightarrow> lvl_shape b d (lr, rs) \<and> lpriceAt b lr = p" and "levelAt b' lr = Some l"
    and "lprice l = p" and "dseg (orderAt b') None (head l) (rs @ [r]) (tail l) None"
    and vals: "\<And>r'. map_option val (orderAt b' r') = map_option val (orderAt b r')"
    and lvls: "\<And>r'. r' \<noteq> r \<Longrightarrow> map_option level (orderAt b' r') = map_option level (orderAt b r')"
    and "map_option level (orderAt b' r) = Some (Some lr)"
    and x: "orderAt b r = Some x" "price x = p" "(side x = Buy) = d" and "r \<notin> set rs"
  shows "lvl_shape b' d (lr, rs @ [r])"
proof -
  have "\<exists>z. orderAt b' r' = Some z \<and> level z = Some lr \<and> price z = p \<and> (side z = Buy) = d"
    if r': "r' \<in> set (rs @ [r])" for r'
  proof (cases "r' = r")
    case True
    then show ?thesis using vals [of r] assms(7) x by (auto simp: val_eq_iff)
  next
    case False
    with r' old obtain y where "orderAt b r' = Some y" "level y = Some lr" "price y = p" "(side y = Buy) = d"
      unfolding lvl_shape_def lpriceAt_def by fastforce
    then show ?thesis using vals [of r'] lvls [OF False] by (auto simp: val_eq_iff)
  qed
  then show ?thesis using assms(2-4) by (auto simp: lvl_shape_def)
qed

lemma refs_append:
  assumes "L d = X @ (if rs = [] then [] else [(lr, rs)]) @ Y"
  shows "(\<exists>d'. r' \<in> set (refs (L(d := X @ [(lr, rs @ [r])] @ Y)) d')) \<longleftrightarrow>
    r' = r \<or> (\<exists>d'. r' \<in> set (refs L d'))"
proof -
  have "r' \<in> set (refs (L(d := X @ [(lr, rs @ [r])] @ Y)) d) \<longleftrightarrow> r' = r \<or> r' \<in> set (refs L d)"
    unfolding refs_upd unfolding refs_def assms by auto
  then show ?thesis
    unfolding ex_bool_eq by (cases d) (auto simp: refs_upd)
qed

lemma map_after_append:
  assumes sh: "shape b L" and Ld: "L d = X @ (if rs = [] then [] else [(lr, rs)]) @ Y"
    and x: "orderAt b r = Some x" "map_of (orders b) (oid x) = None"
    and new: "\<And>d. r \<notin> set (refs L d)"
    and vals: "\<And>r'. map_option val (h' r') = map_option val (orderAt b r')"
  shows "map_of (AList.update (oid x) r (orders b)) k = Some r' \<longleftrightarrow>
    (\<exists>d'. r' \<in> set (refs (L(d := X @ [(lr, rs @ [r])] @ Y)) d')) \<and> (\<exists>z. h' r' = Some z \<and> oid z = k)"
proof -
  have m: "map_of (orders b) k' = Some r'' \<longleftrightarrow>
      (\<exists>d'. r'' \<in> set (refs L d')) \<and> (\<exists>z. orderAt b r'' = Some z \<and> oid z = k')" for k' r''
    using sh by (simp add: shape_def)
  have "\<not> (\<exists>d'. r' \<in> set (refs L d'))" if "orderAt b r' = Some z" "oid z = oid x" for z
    using m [of "oid x" r'] x that by auto
  with m [of k r'] x new show ?thesis
    unfolding refs_append [of L d X rs lr Y, OF Ld] ids_kept [of h' _ "orderAt b", OF vals] update_conv' by auto
qed

text \<open>What the steps of \<open>restOrder\<close> leave in the store: the level found or made for the price, the order
  appended to its FIFO, the total raised and the order entered in the map.\<close>

lemma restOrder_store:
  assumes sh: "shape b L" and x: "orderAt b r = Some x" "prev x = None" "nxt x = None"
    and d: "(side x = Buy) = d" and new: "r \<notin> set (refs L d)"
  shows "\<exists>lr b' X Y rs l'. restOrder r b = Some (lr, b')
    \<and> L d = X @ (if rs = [] then [] else [(lr, rs)]) @ Y
    \<and> sideLevels d b' = map fst X @ lr # map fst Y \<and> sideLevels (\<not> d) b' = sideLevels (\<not> d) b
    \<and> sorted_wrt (better d) (sidePrices b' d)
    \<and> levelAt b' = (levelAt b)(lr \<mapsto> l') \<and> lprice l' = price x
    \<and> totalQty l' = (if rs = [] then 0 else totalQty (the (levelAt b lr))) + qty x
    \<and> dseg (orderAt b') None (head l') (rs @ [r]) (tail l') None
    \<and> (\<forall>r'. r' \<notin> set (rs @ [r]) \<longrightarrow> orderAt b' r' = orderAt b r')
    \<and> (\<forall>r'. map_option val (orderAt b' r') = map_option val (orderAt b r'))
    \<and> (\<forall>r'. r' \<noteq> r \<longrightarrow> map_option level (orderAt b' r') = map_option level (orderAt b r'))
    \<and> map_option level (orderAt b' r) = Some (Some lr)
    \<and> orders b' = AList.update (oid x) r (orders b)
    \<and> nextOrderId b' = nextOrderId b \<and> orderTop b' = orderTop b \<and> (\<forall>l \<ge> levelTop b'. levelAt b' l = None)
    \<and> (if rs = [] then levelAt b lr = None else lpriceAt b lr = price x)"
proof -
  obtain lr b1 X Y rs l where lf: "levelFor x b = Some (lr, b1)"
    and Ld: "L d = X @ (if rs = [] then [] else [(lr, rs)]) @ Y"
    and sd: "sideLevels d b1 = map fst X @ lr # map fst Y" "sideLevels (\<not> d) b1 = sideLevels (\<not> d) b"
    and l: "levelAt b1 lr = Some l" "lprice l = price x" "dseg (orderAt b) None (head l) rs (tail l) None"
    and srt: "sorted_wrt (better d) (map (lpriceAt b1) (sideLevels d b1))"
    and b1: "levelAt b1 = (levelAt b)(lr \<mapsto> l)" "orderAt b1 = orderAt b" "orders b1 = orders b"
      "nextOrderId b1 = nextOrderId b" "orderTop b1 = orderTop b" "\<forall>l \<ge> levelTop b1. levelAt b1 l = None"
    and old: "if rs = [] then levelAt b lr = None \<and> totalQty l = 0 else levelAt b lr = Some l"
    using levelFor_spec [OF sh d] by blast
  have "r \<notin> set rs" using new Ld by (auto simp: refs_def split: if_splits)
  with fifoAppend_spec [of b1 lr l r x rs] l x b1(2) obtain h' l' where
    fa: "fifoAppend r lr b1 = Some (b1\<lparr>orderAt := h', levelAt := (levelAt b1)(lr \<mapsto> l')\<rparr>)"
    and h': "dseg h' None (head l') (rs @ [r]) (tail l') None"
      "\<forall>r'. r' \<notin> set (rs @ [r]) \<longrightarrow> h' r' = orderAt b r'"
      "\<forall>r'. map_option val (h' r') = map_option val (orderAt b r')"
      "\<forall>r'. r' \<noteq> r \<longrightarrow> map_option level (h' r') = map_option level (orderAt b r')"
      "map_option level (h' r) = Some (Some lr)"
    and l': "lprice l' = price x" "totalQty l' = totalQty l" by auto
  define l2 where "l2 = l'\<lparr>totalQty := totalQty l + qty x\<rparr>"
  define b3 where "b3 = b1\<lparr>orderAt := h', levelAt := (levelAt b)(lr \<mapsto> l2),
    orders := AList.update (oid x) r (orders b)\<rparr>"
  have "restOrder r b = Some (lr, b3)"
    using x lf fa l' by (simp add: restOrder_def b3_def l2_def modL_def b1)
  moreover have "lpriceAt b3 = lpriceAt b1" "sideLevels d' b3 = sideLevels d' b1" for d'
    using l(2) l' by (simp_all add: b3_def l2_def b1 fun_eq_iff lpriceAt_def)
  moreover have "\<forall>l \<ge> levelTop b3. levelAt b3 l = None"
    using b1(6) l(1) by (auto simp: b3_def b1(1) split: if_splits)
  ultimately show ?thesis
    using Ld sd srt h' l(2) l' old b1(4,5)
    by (intro exI [of _ lr] exI [of _ b3] exI [of _ X] exI [of _ Y] exI [of _ rs] exI [of _ l2])
      (simp add: sidePrices_def b3_def l2_def lpriceAt_def split: if_splits)
qed

lemma levels_beside:
  assumes sh: "shape b L" and Ld: "L d = X @ (if rs = [] then [] else [(lr, rs)]) @ Y"
    and new: "\<And>d. r \<notin> set (refs L d)" and fresh: "rs = [] \<Longrightarrow> levelAt b lr = None"
    and e: "e \<in> set (L d')" "d' = d \<Longrightarrow> e \<in> set X \<union> set Y"
  shows "fst e \<noteq> lr \<and> set (snd e) \<inter> set (rs @ [r]) = {}"
proof (cases "rs = []")
  case True
  with e new [of d'] shape_level [OF sh e(1)] fresh show ?thesis
    by (auto simp: lvl_shape_def refs_def)
next
  case False
  with other_levels [OF sh, of d X lr rs Y e d'] e Ld
  have "fst e \<noteq> lr \<and> set (snd e) \<inter> set rs = {}" by simp
  with e new [of d'] show ?thesis by (auto simp: refs_def)
qed

text \<open>\<open>restOrder\<close> returns, puts the order last on the level of its price, adds its quantity to that
  level's total and changes nothing else that can be observed.\<close>

lemma restOrder_spec:
  assumes sh: "shape b L" and x: "orderAt b r = Some x" "prev x = None" "nxt x = None"
    and d: "(side x = Buy) = d" and new: "\<And>d. r \<notin> set (refs L d)" "map_of (orders b) (oid x) = None"
  shows "\<exists>lr b' X Y rs. restOrder r b = Some (lr, b')
    \<and> L d = X @ (if rs = [] then [] else [(lr, rs)]) @ Y
    \<and> shape b' (L(d := X @ [(lr, rs @ [r])] @ Y)) \<and> keeps (insert r (set (refs L d))) b b'
    \<and> lpriceAt b' lr = price x
    \<and> map_option lval (levelAt b' lr) =
        Some (price x, (if rs = [] then 0 else totalQty (the (levelAt b lr))) + qty x)
    \<and> (\<forall>l. l \<noteq> lr \<longrightarrow> levelAt b' l = levelAt b l)
    \<and> (rs = [] \<longrightarrow> levelAt b lr = None)"
proof -
  obtain lr b3 X Y rs l' where ro: "restOrder r b = Some (lr, b3)"
    and Ld: "L d = X @ (if rs = [] then [] else [(lr, rs)]) @ Y"
    and sd: "sideLevels d b3 = map fst X @ lr # map fst Y" "sideLevels (\<not> d) b3 = sideLevels (\<not> d) b"
    and srt: "sorted_wrt (better d) (sidePrices b3 d)"
    and b3: "levelAt b3 = (levelAt b)(lr \<mapsto> l')" "orders b3 = AList.update (oid x) r (orders b)"
      "nextOrderId b3 = nextOrderId b" "orderTop b3 = orderTop b" "\<forall>l \<ge> levelTop b3. levelAt b3 l = None"
    and l': "lprice l' = price x" "totalQty l' = (if rs = [] then 0 else totalQty (the (levelAt b lr))) + qty x"
    and seg: "dseg (orderAt b3) None (head l') (rs @ [r]) (tail l') None"
    and frame: "\<And>r'. r' \<notin> set (rs @ [r]) \<Longrightarrow> orderAt b3 r' = orderAt b r'"
    and vals: "\<And>r'. map_option val (orderAt b3 r') = map_option val (orderAt b r')"
    and lvls: "\<And>r'. r' \<noteq> r \<Longrightarrow> map_option level (orderAt b3 r') = map_option level (orderAt b r')"
      "map_option level (orderAt b3 r) = Some (Some lr)"
    and old: "if rs = [] then levelAt b lr = None else lpriceAt b lr = price x"
    using restOrder_store [OF sh x d new(1)] by blast
  let ?L' = "L(d := X @ [(lr, rs @ [r])] @ Y)"
  have beside: "fst e \<noteq> lr \<and> set (snd e) \<inter> set (rs @ [r]) = {}"
    if "e \<in> set (L d')" "d' = d \<Longrightarrow> e \<in> set X \<union> set Y" for d' e
    using that old by (intro levels_beside [OF sh Ld new(1)]) auto
  have other: "?L' d' = L d'" "sideLevels d' b3 = sideLevels d' b" "sidePrices b3 d' = sidePrices b d'"
    if "d' \<noteq> d" for d'
  proof -
    from that have "d' = (\<not> d)" by blast
    then show "?L' d' = L d'" "sideLevels d' b3 = sideLevels d' b" "sidePrices b3 d' = sidePrices b d'"
      using sd beside [of _ d'] shape_sides [OF sh, of d'] by (auto simp: sidePrices_def lpriceAt_def b3)
  qed
  have sides: "sideLevels d' b3 = map fst (?L' d')" for d'
    using sd other [of d'] shape_sides [OF sh, of d'] by (cases "d' = d") auto
  have sorted: "sorted_wrt (better d') (sidePrices b3 d')" for d'
  proof -
    have "sorted_wrt (better d') (sidePrices b d')"
      using shape_sorted [OF sh, of d'] by (simp add: sidePrices_def shape_sides [OF sh])
    then show ?thesis using srt other(3) [of d'] by (cases "d' = d") simp_all
  qed
  have rnot: "r \<notin> set rs" using new(1) [of d] Ld by (auto simp: refs_def split: if_splits)
  have added: "lvl_shape b3 d e" if "e \<in> set [(lr, rs @ [r])]" for e
    using that lvl_shape_appended [of rs b d lr "price x" b3 l' r x] shape_level [OF sh, of "(lr, rs)" d]
      seg vals lvls x d rnot Ld old l' by (auto simp: b3)
  have "lvl_shape b3 d' e" if "e \<in> set (?L' d')" for d' e
    by (rule levels_after [OF sh Ld beside _ _ added that]) (simp_all add: b3 frame)
  moreover have "distinct (map fst (orders b3))"
    using sh by (simp add: b3 shape_def distinct_update)
  moreover note map_after_append [OF sh Ld x(1) new(2,1) vals, folded b3(2)]
  moreover have "\<forall>r' \<ge> orderTop b3. orderAt b3 r' = None"
    using sh vals by (auto simp: b3(4) shape_def) (metis map_option_is_None)
  ultimately have "shape b3 ?L'" using sides sorted b3(5) by (simp add: shape_def del: fun_upd_apply)
  moreover have "keeps (insert r (set (refs L d))) b b3"
    using vals frame Ld by (auto simp: keeps_def b3 refs_def split: if_splits)
  moreover have "map_option lval (levelAt b3 lr) =
      Some (price x, (if rs = [] then 0 else totalQty (the (levelAt b lr))) + qty x)"
    "lpriceAt b3 lr = price x" "rs = [] \<longrightarrow> levelAt b lr = None" "\<forall>l. l \<noteq> lr \<longrightarrow> levelAt b3 l = levelAt b l"
    using l' old by (auto simp: b3 lval_def lpriceAt_def)
  ultimately show ?thesis using ro Ld by blast
qed

end
