(* ===== verification/Price_Time.thy ===== *)
theory Price_Time
  imports Book_Shape
begin

text \<open>
  The abstract specification of the book: each side is one list of resting orders in priority order,
  best price first and oldest first within a price. No pointers, no levels, no map. An order here is
  an \<open>order\<close> record whose pointer fields are nil (\<open>val\<close>).
\<close>

record abook =
  side_of :: "bool \<Rightarrow> order list"
  anext :: i64

text \<open>May the taker trade at price \<open>p\<close>? The two \<open>break\<close> conditions of \<open>match\<close>, negated.\<close>

definition crosses :: "order \<Rightarrow> i64 \<Rightarrow> bool" where
  "crosses t p \<longleftrightarrow> \<not> (side t = Buy \<and> price t <s p) \<and> \<not> (side t = Sell \<and> p <s price t)"

definition fill_events :: "order \<Rightarrow> order \<Rightarrow> i64 \<Rightarrow> Event list" where
  "fill_events m t fill =
     [tradeEvent m t (price m) fill, filledEvent m (price m) fill, filledEvent t (price m) fill]"

text \<open>Match a taker against the opposite side in priority order: the events, the taker left, the side
  left, and the price of every fill.\<close>

fun spec_match :: "order \<Rightarrow> order list \<Rightarrow> Event list \<times> order \<times> order list \<times> i64 list" where
  "spec_match t [] = ([], t, [], [])"
| "spec_match t (m # ms) =
     (if 0 <s qty t \<and> crosses t (price m) then
        (let fill = smin (qty m) (qty t);
             m' = m\<lparr>qty := qty m - fill\<rparr>;
             t' = t\<lparr>qty := qty t - fill\<rparr>
         in if qty m' = 0 then
              (case spec_match t' ms of (es, t'', ms', ps) \<Rightarrow>
                 (fill_events m' t' fill @ es, t'', ms', price m # ps))
            else (fill_events m' t' fill, t', m' # ms, [price m]))
      else ([], t, m # ms, []))"

text \<open>The three outcomes of one step of the matching: it stops, it ends inside the maker, or it consumes the
  maker and goes on.\<close>

lemma spec_match_induct [case_names stop part full]:
  assumes stop: "\<And>t ms. ms = [] \<or> \<not> (0 <s qty t \<and> crosses t (price (hd ms))) \<Longrightarrow> P t ms ([], t, ms, [])"
    and part: "\<And>t m ms. 0 <s qty t \<Longrightarrow> crosses t (price m) \<Longrightarrow> qty t <s qty m \<Longrightarrow>
      P t (m # ms) (fill_events (m\<lparr>qty := qty m - qty t\<rparr>) (t\<lparr>qty := 0\<rparr>) (qty t), t\<lparr>qty := 0\<rparr>,
        m\<lparr>qty := qty m - qty t\<rparr> # ms, [price m])"
    and full: "\<And>t m ms es t' ms' ps. 0 <s qty t \<Longrightarrow> crosses t (price m) \<Longrightarrow> qty m \<le>s qty t \<Longrightarrow>
      P (t\<lparr>qty := qty t - qty m\<rparr>) ms (es, t', ms', ps) \<Longrightarrow>
      P t (m # ms) (fill_events (m\<lparr>qty := 0\<rparr>) (t\<lparr>qty := qty t - qty m\<rparr>) (qty m) @ es, t', ms', price m # ps)"
  shows "P t ms (spec_match t ms)"
proof (induction ms arbitrary: t)
  case Nil
  then show ?case by (simp add: stop)
next
  case (Cons m ms)
  consider "\<not> (0 <s qty t \<and> crosses t (price m))"
    | "0 <s qty t" "crosses t (price m)" "qty t <s qty m"
    | "0 <s qty t" "crosses t (price m)" "qty m \<le>s qty t"
    by (metis not_sless)
  then show ?case
  proof cases
    case 1
    then show ?thesis using stop [of "m # ms" t] by auto
  next
    case 2
    then have "smin (qty m) (qty t) = qty t" "qty m \<noteq> qty t" by (auto simp: smin_def signed_ord)
    then show ?thesis using part [OF 2, of ms] 2 by (simp add: Let_def)
  next
    case 3
    then have "smin (qty m) (qty t) = qty m" by (auto simp: smin_def signed_ord sint_inj)
    moreover obtain es t' ms' ps where "spec_match (t\<lparr>qty := qty t - qty m\<rparr>) ms = (es, t', ms', ps)"
      by (metis prod_cases4)
    ultimately show ?thesis
      using full [OF 3] Cons [of "t\<lparr>qty := qty t - qty m\<rparr>"] 3 by (simp add: Let_def)
  qed
qed

text \<open>Rest an order behind every order of a better or equal price.\<close>

fun spec_rest :: "bool \<Rightarrow> order \<Rightarrow> order list \<Rightarrow> order list" where
  "spec_rest d x [] = [x]"
| "spec_rest d x (m # ms) = (if better d (price x) (price m) then x # m # ms else m # spec_rest d x ms)"

text \<open>The aggregate quantity displayed at a price (64-bit arithmetic, as the engine computes it).\<close>

definition depth :: "order list \<Rightarrow> i64 \<Rightarrow> i64" where
  "depth ms p = sum_list (map qty (filter (\<lambda>m. price m = p) ms))"

definition new_order :: "NewOrderCmd \<Rightarrow> i64 \<Rightarrow> order" where
  "new_order cmd k = \<lparr>oid = k, clientOrderId = cmdClientOrderId cmd, owner = cmdOwner cmd,
     side = cmdSide cmd, price = cmdPrice cmd, qty = cmdQty cmd, level = None, prev = None, nxt = None\<rparr>"

text \<open>A taker trades against the bids exactly when it sells, and rests with the bids exactly when it
  buys.\<close>

definition spec_new :: "NewOrderCmd \<Rightarrow> abook \<Rightarrow> Event list \<times> abook" where
  "spec_new cmd a =
     (if cmdQty cmd \<le>s 0 then ([rejectedOrder cmd ReasonBadQty], a)
      else if cmdPrice cmd \<le>s 0 then ([rejectedOrder cmd ReasonBadPrice], a)
      else
        (let t = new_order cmd (anext a);
             opp = (side t = Sell);
             own = (side t = Buy)
         in case spec_match t (side_of a opp) of (es, t', ms, ps) \<Rightarrow>
           (let sides = (side_of a)(opp := ms);
                ups = map (\<lambda>p. bookUpdateEvent (if opp then Buy else Sell) p (depth ms p)) (remdups_adj ps)
            in if 0 <s qty t' then
                 (let rested = spec_rest own t' (sides own) in
                  (acceptedEvent t # es @ ups @ [bookUpdateEvent (side t) (price t) (depth rested (price t))],
                   \<lparr>side_of = sides(own := rested), anext = anext a + 1\<rparr>))
               else (acceptedEvent t # es @ ups, \<lparr>side_of = sides, anext = anext a + 1\<rparr>))))"

definition find_order :: "i64 \<Rightarrow> abook \<Rightarrow> order option" where
  "find_order k a = find (\<lambda>x. oid x = k) (side_of a True @ side_of a False)"

definition remove_order :: "i64 \<Rightarrow> abook \<Rightarrow> abook" where
  "remove_order k a = a\<lparr>side_of := \<lambda>d. filter (\<lambda>x. oid x \<noteq> k) (side_of a d)\<rparr>"

definition spec_cancel :: "i64 \<Rightarrow> i64 \<Rightarrow> abook \<Rightarrow> Event list \<times> abook" where
  "spec_cancel k who a =
     (case find_order k a of
        None \<Rightarrow> ([rejectedCancel k who ReasonUnknownOrder], a)
      | Some x \<Rightarrow>
          if owner x \<noteq> who then ([rejectedCancel k who ReasonNotOwner], a)
          else (let a' = remove_order k a in
                ([canceledEvent x,
                  bookUpdateEvent (side x) (price x) (depth (side_of a' (side x = Buy)) (price x))], a')))"

end
