(* ===== verification/Book_Refines.thy ===== *)
theory Book_Refines
  imports Price_Time
begin

text \<open>
  The pointer-based order book implements the price-time specification: the abstraction \<open>absb\<close> of a
  book with a layout, the accounting invariant \<open>booked\<close>, and the simulation of \<open>match\<close>,
  \<open>NewLimitOrder\<close> and \<open>Cancel\<close>, with the events they return.
\<close>

definition vals :: "OrderBook \<Rightarrow> oref list \<Rightarrow> order list" where
  "vals b rs = map (\<lambda>r. val (the (orderAt b r))) rs"

text \<open>The total of a level is the quantity displayed at its price (in 64-bit arithmetic).\<close>

definition accounted :: "OrderBook \<Rightarrow> layout \<Rightarrow> bool \<Rightarrow> lref \<Rightarrow> bool" where
  "accounted b L d lr \<longleftrightarrow> (\<exists>p. map_option lval (levelAt b lr) = Some (p, depth (vals b (refs L d)) p))"

definition booked :: "OrderBook \<Rightarrow> layout \<Rightarrow> bool" where
  "booked b L \<longleftrightarrow> (\<forall>d. \<forall>e \<in> set (L d). accounted b L d (fst e))
     \<and> (\<forall>d. \<forall>x \<in> set (vals b (refs L d)). 0 <s qty x)"

definition absb :: "OrderBook \<Rightarrow> layout \<Rightarrow> abook" where
  "absb b L = \<lparr>side_of = (\<lambda>d. vals b (refs L d)), anext = nextOrderId b\<rparr>"

lemma vals_simps [simp]:
  "vals b [] = []" "vals b (r # rs) = val (the (orderAt b r)) # vals b rs"
  "vals b (rs @ rs') = vals b rs @ vals b rs'" "vals b rs = [] \<longleftrightarrow> rs = []"
  "length (vals b rs) = length rs"
  by (simp_all add: vals_def)

lemma vals_cong:
  "(\<And>r. r \<in> set rs \<Longrightarrow> map_option val (orderAt b' r) = map_option val (orderAt b r)) \<Longrightarrow>
   (\<And>r. r \<in> set rs \<Longrightarrow> orderAt b r \<noteq> None) \<Longrightarrow> vals b' rs = vals b rs"
  unfolding vals_def by (force intro: map_cong)

lemma val_val [simp]: "val (val x) = val x"
  by (simp add: val_def)

lemma events_val [simp]:
  "tradeEvent (val m) t = tradeEvent m t" "tradeEvent m (val t) = tradeEvent m t"
  "filledEvent (val m) = filledEvent m" "acceptedEvent (val x) = acceptedEvent x"
  "canceledEvent (val x) = canceledEvent x"
  by (simp_all add: fun_eq_iff tradeEvent_def filledEvent_def acceptedEvent_def canceledEvent_def)

section \<open>Writing a quantity or a total keeps the structure\<close>

lemma qty_upd_eq_iff:
  fixes x y :: order
  shows "x\<lparr>qty := q\<rparr> = y\<lparr>qty := q\<rparr> \<longleftrightarrow> oid x = oid y \<and> clientOrderId x = clientOrderId y \<and> owner x = owner y
     \<and> side x = side y \<and> price x = price y \<and> level x = level y \<and> prev x = prev y \<and> nxt x = nxt y"
  by (cases x; cases y) simp

lemma totalQty_upd_eq_iff:
  fixes l m :: priceLevel
  shows "l\<lparr>totalQty := q\<rparr> = m\<lparr>totalQty := q\<rparr> \<longleftrightarrow> lprice l = lprice m \<and> head l = head m \<and> tail l = tail m"
  by (cases l; cases m) simp

definition same_links :: "OrderBook \<Rightarrow> OrderBook \<Rightarrow> bool" where
  "same_links b b' \<longleftrightarrow> bids b' = bids b \<and> asks b' = asks b \<and> orders b' = orders b
     \<and> orderTop b' = orderTop b \<and> levelTop b' = levelTop b
     \<and> (\<forall>r. map_option (\<lambda>x. x\<lparr>qty := 0\<rparr>) (orderAt b' r) = map_option (\<lambda>x. x\<lparr>qty := 0\<rparr>) (orderAt b r))
     \<and> (\<forall>l. map_option (\<lambda>x. x\<lparr>totalQty := 0\<rparr>) (levelAt b' l) = map_option (\<lambda>x. x\<lparr>totalQty := 0\<rparr>) (levelAt b l))"

lemma same_links_order:
  assumes "same_links b b'" and "orderAt b r = Some x"
  obtains y where "orderAt b' r = Some y" "oid y = oid x" "side y = side x" "price y = price x"
    "level y = level x" "prev y = prev x" "nxt y = nxt x"
proof -
  have "map_option (\<lambda>x. x\<lparr>qty := 0\<rparr>) (orderAt b' r) = map_option (\<lambda>x. x\<lparr>qty := 0\<rparr>) (orderAt b r)"
    using assms(1) unfolding same_links_def by blast
  with assms(2) that show thesis by (cases "orderAt b' r") (auto simp: qty_upd_eq_iff)
qed

lemma same_links_level:
  assumes "same_links b b'" and "levelAt b lr = Some l"
  obtains m where "levelAt b' lr = Some m" "lprice m = lprice l" "head m = head l" "tail m = tail l"
proof -
  have "map_option (\<lambda>x. x\<lparr>totalQty := 0\<rparr>) (levelAt b' lr) = map_option (\<lambda>x. x\<lparr>totalQty := 0\<rparr>) (levelAt b lr)"
    using assms(1) unfolding same_links_def by blast
  with assms(2) that show thesis by (cases "levelAt b' lr") (auto simp: totalQty_upd_eq_iff)
qed

lemma map_option_eq_qty:
  fixes y z :: "order option"
  assumes "map_option (\<lambda>x. x\<lparr>qty := 0\<rparr>) y = map_option (\<lambda>x. x\<lparr>qty := 0\<rparr>) z"
  shows "map_option (\<lambda>z. (prev z, nxt z)) y = map_option (\<lambda>z. (prev z, nxt z)) z"
  using assms by (cases y; cases z) (simp_all add: qty_upd_eq_iff)

lemma same_links_sym: "same_links b b' \<Longrightarrow> same_links b' b"
  by (simp add: same_links_def)

lemma same_links_dseg:
  assumes "same_links b b'"
  shows "dseg (orderAt b') p x rs t y \<longleftrightarrow> dseg (orderAt b) p x rs t y"
proof (rule dseg_cong)
  fix r
  show "map_option (\<lambda>z. (prev z, nxt z)) (orderAt b' r) = map_option (\<lambda>z. (prev z, nxt z)) (orderAt b r)"
    using assms unfolding same_links_def
    by (metis (no_types, lifting) map_option_eq_qty)
qed

lemma same_links_lvl_shape:
  assumes sl: "same_links b b'" and "lvl_shape b d e"
  shows "lvl_shape b' d e"
proof -
  from assms(2) obtain l where l: "levelAt b (fst e) = Some l" "snd e \<noteq> []"
    "dseg (orderAt b) None (head l) (snd e) (tail l) None"
    "\<And>r. r \<in> set (snd e) \<Longrightarrow> \<exists>x. orderAt b r = Some x \<and> level x = Some (fst e)
       \<and> price x = lprice l \<and> (side x = Buy) = d"
    unfolding lvl_shape_def by blast
  obtain m where m: "levelAt b' (fst e) = Some m" "lprice m = lprice l" "head m = head l" "tail m = tail l"
    using same_links_level [OF sl l(1)] .
  have "\<exists>x. orderAt b' r = Some x \<and> level x = Some (fst e) \<and> price x = lprice m \<and> (side x = Buy) = d"
    if "r \<in> set (snd e)" for r
    using l(4) [OF that] m(2) by (auto elim!: same_links_order [OF sl])
  with l m show ?thesis by (simp add: lvl_shape_def same_links_dseg [OF sl])
qed

lemma same_links_lpriceAt: "same_links b b' \<Longrightarrow> levelAt b lr \<noteq> None \<Longrightarrow> lpriceAt b' lr = lpriceAt b lr"
  by (auto simp: lpriceAt_def elim: same_links_level)

lemma same_links_shape:
  assumes sl: "same_links b b'" and sh: "shape b L"
  shows "shape b' L"
proof -
  have lv: "sideLevels d b' = sideLevels d b" for d
    using sl by (simp add: same_links_def sideLevels_def)
  have "levelAt b lr \<noteq> None" if "lr \<in> set (sideLevels d b)" for d lr
    using shape_sideOk [OF sh, of d] that by (simp add: sideOk_def)
  then have "sidePrices b' d = sidePrices b d" for d
    unfolding sidePrices_def lv by (auto intro!: same_links_lpriceAt [OF sl])
  moreover have "(\<exists>x. orderAt b' r = Some x \<and> oid x = k) \<longleftrightarrow> (\<exists>x. orderAt b r = Some x \<and> oid x = k)" for r k
    by (metis same_links_order sl same_links_sym)
  moreover have "orderAt b r = None \<longleftrightarrow> orderAt b' r = None" "levelAt b l = None \<longleftrightarrow> levelAt b' l = None" for r l
    using sl unfolding same_links_def by (metis option.map_disc_iff)+
  moreover have "\<forall>e \<in> set (L d). lvl_shape b' d e" for d
    using shape_level [OF sh] same_links_lvl_shape [OF sl] by blast
  moreover have "orders b' = orders b" "orderTop b' = orderTop b" "levelTop b' = levelTop b"
    using sl by (simp_all add: same_links_def)
  ultimately show ?thesis
    using sh lv unfolding shape_def by simp
qed

section \<open>One iteration of the matching loop\<close>

definition filled :: "oref \<Rightarrow> oref \<Rightarrow> lref \<Rightarrow> i64 \<Rightarrow> OrderBook \<Rightarrow> OrderBook" where
  "filled tk mr lr fill b = b\<lparr>orderAt := (orderAt b)
       (mr \<mapsto> (the (orderAt b mr))\<lparr>qty := qty (the (orderAt b mr)) - fill\<rparr>,
        tk \<mapsto> (the (orderAt b tk))\<lparr>qty := qty (the (orderAt b tk)) - fill\<rparr>),
     levelAt := (levelAt b)(lr \<mapsto> (the (levelAt b lr))\<lparr>totalQty := totalQty (the (levelAt b lr)) - fill\<rparr>)\<rparr>"

definition oppOf :: "order \<Rightarrow> bool" where
  "oppOf t \<longleftrightarrow> side t = Sell"

definition sideOf :: "bool \<Rightarrow> Side" where
  "sideOf d = (if d then Buy else Sell)"

lemma filled_links:
  assumes "orderAt b mr = Some m" "orderAt b tk = Some t" "levelAt b lr = Some l"
  shows "same_links b (filled tk mr lr fill b)"
  using assms by (simp add: same_links_def filled_def)

lemma match_iter:
  assumes t: "orderAt b tk = Some t" "0 <s qty t" and "sideLevels (oppOf t) b = lr # lrs"
    and l: "levelAt b lr = Some l" "head l = Some mr" and m: "orderAt b mr = Some m" "mr \<noteq> tk"
    and x: "crosses t (lprice l)" and p: "price m = lprice l"
  defines "fill \<equiv> smin (qty m) (qty t)"
  shows "match tk es tc b =
    (case (if qty m - fill = 0 then unlink mr (filled tk mr lr fill b) else Some (filled tk mr lr fill b)) of
       None \<Rightarrow> None
     | Some b' \<Rightarrow> match tk (es @ fill_events (m\<lparr>qty := qty m - fill\<rparr>) (t\<lparr>qty := qty t - fill\<rparr>) fill)
         (touch (sideOf (oppOf t)) lr tc) b')"
proof -
  have o: "(if side t = Sell then (bids b, Buy) else (asks b, Sell)) = (lr # lrs, sideOf (oppOf t))"
    using assms(3) by (simp add: sideLevels_def oppOf_def sideOf_def split: if_splits)
  have nb: "side t = Buy \<and> price t <s lprice l \<longleftrightarrow> False" "side t = Sell \<and> lprice l <s price t \<longleftrightarrow> False"
    using x by (auto simp: crosses_def)
  have pos: "qty t \<le>s 0 \<longleftrightarrow> False" using t(2) by (metis not_sle)
  show ?thesis
    apply (subst match.simps)
    using t l m p by (simp add: o pos nb fill_def smin_def modO_def modL_def filled_def fill_events_def
        Let_def split: option.splits)
qed

lemma match_stop:
  assumes t: "orderAt b tk = Some t"
    and stop: "sideLevels (oppOf t) b \<noteq> [] \<Longrightarrow> 0 <s qty t \<Longrightarrow>
      levelAt b (hd (sideLevels (oppOf t) b)) \<noteq> None
      \<and> \<not> crosses t (lpriceAt b (hd (sideLevels (oppOf t) b)))"
  shows "match tk es tc b = Some (es, tc, b)"
proof -
  have o: "(if side t = Sell then (bids b, Buy) else (asks b, Sell))
      = (sideLevels (oppOf t) b, sideOf (oppOf t))"
    by (simp add: sideLevels_def oppOf_def sideOf_def)
  consider "\<not> 0 <s qty t" | "sideLevels (oppOf t) b = []"
    | l where "0 <s qty t" "sideLevels (oppOf t) b \<noteq> []" "levelAt b (hd (sideLevels (oppOf t) b)) = Some l"
      "\<not> crosses t (lprice l)"
    using stop by (metis lpriceAt_def not_None_eq option.sel)
  then show ?thesis
  proof cases
    case 3
    then show ?thesis
      by (subst match.simps) (auto simp: t o crosses_def Let_def)
  qed (subst match.simps, simp add: t o)+
qed

text \<open>The taker while it is being matched: allocated, unlinked, not in the book.\<close>

definition ready :: "OrderBook \<Rightarrow> layout \<Rightarrow> oref \<Rightarrow> order \<Rightarrow> bool" where
  "ready b L tk t \<longleftrightarrow> orderAt b tk = Some t \<and> level t = None \<and> prev t = None \<and> nxt t = None
     \<and> (\<forall>d. tk \<notin> set (refs L d))"

lemma filled_sel [simp]:
  "nextOrderId (filled tk mr lr f b) = nextOrderId b" "orderTop (filled tk mr lr f b) = orderTop b"
  by (simp_all add: filled_def)

lemma vals_filled:
  "mr \<notin> set rs \<Longrightarrow> tk \<notin> set rs \<Longrightarrow> vals (filled tk mr lr f b) rs = vals b rs"
  by (auto simp: vals_def filled_def intro!: map_cong)

lemma vals_keeps:
  assumes "keeps R b b'" and "\<And>r. r \<in> set rs \<Longrightarrow> orderAt b r \<noteq> None"
  shows "vals b' rs = vals b rs"
  using assms by (intro vals_cong) (auto simp: keeps_def)

lemma shape_allocated: "shape b L \<Longrightarrow> r \<in> set (refs L d) \<Longrightarrow> orderAt b r \<noteq> None"
  by (auto elim: shape_ref)

text \<open>After the three quantities have been lowered and before the maker is unlinked.\<close>

lemma filled_state:
  fixes f :: i64
  assumes sh: "shape b L" and rd: "ready b L tk t" and Ld: "L d = (lr, mr # rs) # Y"
    and m: "orderAt b mr = Some m" and l: "levelAt b lr = Some l" "price m = lprice l"
  defines "b' \<equiv> filled tk mr lr f b" and "ms \<equiv> rs @ concat (map snd Y)"
  shows "shape b' L" and "orderAt b' mr = Some (m\<lparr>qty := qty m - f\<rparr>)"
    and "orderAt b' tk = Some (t\<lparr>qty := qty t - f\<rparr>)"
    and "vals b' (refs L (\<not> d)) = vals b (refs L (\<not> d))" and "vals b' ms = vals b ms"
    and "map_option lval (levelAt b' l') = (if l' = lr
      then Some (price m, totalQty (the (levelAt b lr)) - f) else map_option lval (levelAt b l'))"
proof -
  have t: "orderAt b tk = Some t" "\<And>d. tk \<notin> set (refs L d)" using rd by (auto simp: ready_def)
  have ref: "refs L d = mr # ms" using Ld by (simp add: refs_def ms_def)
  then have mt: "mr \<noteq> tk" "tk \<notin> set ms" using t(2) [of d] by auto
  have mo: "mr \<notin> set (refs L (\<not> d))" "mr \<notin> set ms"
    using shape_ref_side [OF sh, of mr d "\<not> d"] shape_distinct_refs [OF sh, of d] ref by auto
  show "shape b' L" unfolding b'_def by (rule same_links_shape [OF filled_links [OF m t(1) l(1)] sh])
  show "orderAt b' mr = Some (m\<lparr>qty := qty m - f\<rparr>)" "orderAt b' tk = Some (t\<lparr>qty := qty t - f\<rparr>)"
    using m t mt by (simp_all add: filled_def b'_def)
  show "vals b' (refs L (\<not> d)) = vals b (refs L (\<not> d))" "vals b' ms = vals b ms"
    unfolding b'_def using mo mt t(2) by (auto intro!: vals_filled)
  show "map_option lval (levelAt b' l') = (if l' = lr
      then Some (price m, totalQty (the (levelAt b lr)) - f) else map_option lval (levelAt b l'))"
    using l by (simp add: filled_def lval_def b'_def)
qed

lemma match_fill:
  assumes sh: "shape b L" and rd: "ready b L tk t" and Ld: "L (oppOf t) = (lr, mr # rs) # Y"
    and m: "orderAt b mr = Some m" and pos: "0 <s qty t" and x: "crosses t (price m)"
  defines "d \<equiv> oppOf t" and "fill \<equiv> smin (qty m) (qty t)"
  shows "\<exists>b' L'. match tk es tc b = match tk (es @ fill_events (m\<lparr>qty := qty m - fill\<rparr>)
        (t\<lparr>qty := qty t - fill\<rparr>) fill) (touch (sideOf d) lr tc) b'
    \<and> shape b' L' \<and> ready b' L' tk (t\<lparr>qty := qty t - fill\<rparr>)
    \<and> L' (\<not> d) = L (\<not> d) \<and> fst ` set (L' d) \<subseteq> fst ` set (L d)
    \<and> vals b' (refs L' d) = (if qty m - fill = 0 then [] else [(val m)\<lparr>qty := qty m - fill\<rparr>])
        @ vals b (rs @ concat (map snd Y))
    \<and> vals b' (refs L' (\<not> d)) = vals b (refs L (\<not> d)) \<and> nextOrderId b' = nextOrderId b
    \<and> (\<forall>l. map_option lval (levelAt b' l) = (if l = lr
         then Some (price m, totalQty (the (levelAt b lr)) - fill) else map_option lval (levelAt b l)))"
proof -
  let ?b = "filled tk mr lr fill b"
  have Ld': "L d = [] @ (lr, [] @ mr # rs) # Y" using Ld by (simp add: d_def)
  obtain l where l: "levelAt b lr = Some l" "head l = Some mr" "price m = lprice l"
    using shape_level [OF sh, of "(lr, mr # rs)" "oppOf t"] Ld m by (auto simp: lvl_shape_def)
  have t: "orderAt b tk = Some t" "\<And>d. tk \<notin> set (refs L d)" "level t = None" "prev t = None" "nxt t = None"
    using rd by (auto simp: ready_def)
  have ref: "refs L d = mr # rs @ concat (map snd Y)" using Ld' by (simp add: refs_def)
  with t(2) [of d] have mt: "mr \<noteq> tk" "tk \<notin> set (rs @ concat (map snd Y))" by auto
  note iter = match_iter [OF t(1) pos _ l(1,2) m mt(1) _ l(3), of "map fst Y" es tc, folded d_def fill_def]
  note st = filled_state [OF sh rd Ld' [unfolded append_Nil] m l(1,3), where f = fill]
  note sb = st(1) and mb = st(2,3) and vb = st(4,5) and lv = st(6)
  have it: "match tk es tc b = (case (if qty m - fill = 0 then unlink mr ?b else Some ?b) of None \<Rightarrow> None
     | Some b' \<Rightarrow> match tk (es @ fill_events (m\<lparr>qty := qty m - fill\<rparr>) (t\<lparr>qty := qty t - fill\<rparr>) fill)
         (touch (sideOf d) lr tc) b')"
    using iter x l(3) shape_sides [OF sh, of d] Ld' by simp
  show ?thesis
  proof (cases "qty m - fill = 0")
    case True
    let ?L' = "L(d := [] @ (if [] @ rs = [] then [] else [(lr, [] @ rs)]) @ Y)"
    obtain b' where b': "unlink mr ?b = Some b'" "shape b' ?L'" "keeps (set (refs L d)) ?b b'"
      "\<forall>l. map_option lval (levelAt b' l) = map_option lval (levelAt ?b l)"
      using unlink_spec [OF sb Ld' mb(1)] by blast
    have al: "orderAt ?b r \<noteq> None" if "r \<in> set (refs L d')" for r d'
      using shape_allocated [OF sb that] .
    have rL': "refs ?L' d = rs @ concat (map snd Y)" "refs ?L' (\<not> d) = refs L (\<not> d)"
      by (simp_all add: refs_def)
    have "vals b' (rs @ concat (map snd Y)) = vals ?b (rs @ concat (map snd Y))"
      using al [of _ d] ref by (intro vals_keeps [OF b'(3)]) simp
    then have "vals b' (refs ?L' d) = vals b (rs @ concat (map snd Y))"
      unfolding rL' vb(2) .
    moreover have "vals b' (refs ?L' (\<not> d)) = vals b (refs L (\<not> d))"
      unfolding rL' vb(1) [symmetric] using al by (intro vals_keeps [OF b'(3)]) simp
    moreover have "ready b' ?L' tk (t\<lparr>qty := qty t - fill\<rparr>)"
      using t b'(3) mb(2) mt by (auto simp: ready_def keeps_def refs_upd)
    moreover have "nextOrderId b' = nextOrderId b" using b'(3) by (simp add: keeps_def)
    moreover have "fst ` set (?L' d) \<subseteq> fst ` set (L d)" using Ld' by auto
    ultimately show ?thesis using it b'(1,2,4) True vb lv
      by (intro exI [of _ b'] exI [of _ ?L']) simp
  next
    case False
    have "ready ?b L tk (t\<lparr>qty := qty t - fill\<rparr>)" using t mb(2) by (simp add: ready_def)
    moreover have "vals ?b (refs L d) = (val m)\<lparr>qty := qty m - fill\<rparr> # vals b (rs @ concat (map snd Y))"
      unfolding ref using mb(1) vb(2) by simp
    ultimately show ?thesis using it sb False vb lv
      by (intro exI [of _ ?b] exI [of _ L]) simp
  qed
qed

section \<open>The accounting across one fill\<close>

definition fill_rel :: "OrderBook \<Rightarrow> layout \<Rightarrow> bool \<Rightarrow> lref \<Rightarrow> i64 \<Rightarrow> i64 \<Rightarrow> OrderBook \<Rightarrow> layout \<Rightarrow> bool" where
  "fill_rel b L d lr p f b' L' \<longleftrightarrow> L' (\<not> d) = L (\<not> d) \<and> fst ` set (L' d) \<subseteq> fst ` set (L d)
     \<and> (\<forall>q. depth (vals b' (refs L' d)) q = depth (vals b (refs L d)) q - (if q = p then f else 0))
     \<and> vals b' (refs L' (\<not> d)) = vals b (refs L (\<not> d)) \<and> levelAt b lr \<noteq> None \<and> lpriceAt b lr = p
     \<and> (\<forall>l. map_option lval (levelAt b' l) = (if l = lr
          then Some (p, totalQty (the (levelAt b lr)) - f) else map_option lval (levelAt b l)))"

lemma lpriceAt_lval: "map_option lval (levelAt b l) = Some (p, q) \<Longrightarrow> lpriceAt b l = p"
  by (auto simp: lval_def lpriceAt_def)

lemma fill_rel_lpriceAt:
  assumes "fill_rel b L d lr p f b' L'" and "levelAt b l \<noteq> None"
  shows "lpriceAt b' l = lpriceAt b l"
proof -
  have "map_option lval (levelAt b' l) = (if l = lr
      then Some (p, totalQty (the (levelAt b lr)) - f) else map_option lval (levelAt b l))"
    "lpriceAt b lr = p"
    using assms(1) unfolding fill_rel_def by blast+
  with assms(2) show ?thesis
    by (auto simp: lval_def lpriceAt_def split: if_splits)
qed

lemma fill_rel_accounted:
  assumes f: "fill_rel b L d lr p f b' L'" and a: "accounted b L d l" and "l = lr \<or> lpriceAt b l \<noteq> p"
  shows "accounted b' L' d l"
proof -
  obtain q where q: "map_option lval (levelAt b l) = Some (q, depth (vals b (refs L d)) q)" "q = lpriceAt b l"
    using a unfolding accounted_def by (metis lpriceAt_lval)
  have lv: "map_option lval (levelAt b' l) = (if l = lr
      then Some (p, totalQty (the (levelAt b lr)) - f) else map_option lval (levelAt b l))"
    and dp: "depth (vals b' (refs L' d)) q = depth (vals b (refs L d)) q - (if q = p then f else 0)"
    and "lpriceAt b lr = p"
    using f unfolding fill_rel_def by blast+
  with q assms(3) show ?thesis unfolding accounted_def
    by (intro exI [of _ q]) (auto simp: lval_def)
qed

lemma booked_accounted: "booked b L \<Longrightarrow> e \<in> set (L d) \<Longrightarrow> accounted b L d (fst e)"
  by (simp add: booked_def)

lemma shape_other_price:
  assumes "shape b L" and "(lr, rs) \<in> set (L d)" and "e \<in> set (L d)" and "fst e \<noteq> lr"
  shows "lpriceAt b (fst e) \<noteq> lpriceAt b lr"
proof -
  have "distinct (sidePrices b d)"
    using assms(1) by (intro sorted_wrt_distinct [of "better d"]) (auto simp: shape_def)
  then have "inj_on (lpriceAt b) (fst ` set (L d))"
    by (simp add: sidePrices_def shape_sides [OF assms(1)] distinct_map comp_inj_on_iff inj_on_imageI)
  then show ?thesis using assms by (force dest: inj_onD)
qed

lemma booked_fill:
  assumes f: "fill_rel b L d lr p f b' L'" and sh: "shape b L" and bk: "booked b L"
    and lr: "(lr, rs) \<in> set (L d)" and pos: "\<forall>x \<in> set (vals b' (refs L' d)). 0 <s qty x"
  shows "booked b' L'"
proof -
  have own: "accounted b' L' d (fst e)" if e': "e \<in> set (L' d)" for e
  proof -
    have "fst ` set (L' d) \<subseteq> fst ` set (L d)" and p: "lpriceAt b lr = p"
      using f by (simp_all add: fill_rel_def)
    with e' obtain e0 where e0: "e0 \<in> set (L d)" "fst e = fst e0" by blast
    then show ?thesis
      using fill_rel_accounted [OF f booked_accounted [OF bk e0(1)]] shape_other_price [OF sh lr e0(1)] p
      by auto
  qed
  have L': "L' (\<not> d) = L (\<not> d)" and vs: "vals b' (refs L' (\<not> d)) = vals b (refs L (\<not> d))"
    and lv: "\<And>l. l \<noteq> lr \<Longrightarrow> map_option lval (levelAt b' l) = map_option lval (levelAt b l)"
    using f by (simp_all add: fill_rel_def)
  have other: "accounted b' L' (\<not> d) (fst e)" if "e \<in> set (L' (\<not> d))" for e
  proof -
    have e: "e \<in> set (L (\<not> d))" using that L' by simp
    then have "fst e \<noteq> lr" using shape_level_unique [OF sh lr, of "snd e" "\<not> d"] by auto
    then show ?thesis using booked_accounted [OF bk e] by (simp add: accounted_def lv vs)
  qed
  have "\<forall>x \<in> set (vals b' (refs L' (\<not> d))). 0 <s qty x"
    using bk unfolding vs by (simp add: booked_def)
  with own other pos show ?thesis unfolding booked_def all_bool_eq by (cases d) simp_all
qed

lemma depth_fill:
  fixes m :: order
  shows "depth ((if qty m - f = 0 then [] else [m\<lparr>qty := qty m - f\<rparr>]) @ ms) q =
    depth (m # ms) q - (if q = price m then f else 0)"
  by (auto simp: depth_def)

section \<open>The levels touched\<close>

text \<open>The levels collected by \<open>touch\<close> while the taker works through one side: each is accounted, in
  priority order, and at most the last of them is still in the book, as its best level.\<close>

definition touched_ok :: "OrderBook \<Rightarrow> layout \<Rightarrow> bool \<Rightarrow> touched \<Rightarrow> bool" where
  "touched_ok b L d tc \<longleftrightarrow> snd tc = replicate (length (fst tc)) (sideOf d)
     \<and> sorted_wrt (better d) (map (lpriceAt b) (fst tc))
     \<and> (\<forall>lr \<in> set (fst tc). accounted b L d lr \<and> lr \<notin> fst ` set (L (\<not> d))
          \<and> (\<forall>e \<in> set (L d). fst e = lr \<or> better d (lpriceAt b lr) (lpriceAt b (fst e))))"

lemma touched_ok_Nil [simp]: "touched_ok b L d ([], [])"
  by (simp add: touched_ok_def)

lemma remdups_adj_push:
  assumes "sorted_wrt (better d) ps" and "\<forall>q \<in> set ps. q = p \<or> better d q p"
  shows "remdups_adj (ps @ p # qs) = remdups_adj ((if p \<in> set ps then ps else ps @ [p]) @ qs)"
proof (cases "p \<in> set ps")
  case True
  then obtain us vs where us: "ps = us @ p # vs" by (meson split_list)
  with assms have "vs = []"
    by (cases vs) (auto simp: sorted_wrt_append dest: better_asym)
  with us show ?thesis
    using remdups_adj_append [of us p "p # qs"] remdups_adj_append [of us p qs] by simp
qed simp

lemma touched_best:
  assumes "touched_ok b L d tc" and "(lr, rs) \<in> set (L d)" and "c \<in> set (fst tc)"
  shows "c = lr \<or> better d (lpriceAt b c) (lpriceAt b lr)"
  using assms unfolding touched_ok_def by (metis fst_conv)

lemma touched_price_mem:
  assumes "touched_ok b L d tc" and "(lr, rs) \<in> set (L d)"
  shows "lpriceAt b lr \<in> set (map (lpriceAt b) (fst tc)) \<longleftrightarrow> lr \<in> set (fst tc)"
  using touched_best [OF assms] by force

lemma touch_prices:
  assumes "touched_ok b L d tc" and "(lr, rs) \<in> set (L d)"
  shows "remdups_adj (map (lpriceAt b) (fst tc) @ lpriceAt b lr # qs)
    = remdups_adj (map (lpriceAt b) (fst (touch s lr tc)) @ qs)"
proof -
  have srt: "sorted_wrt (better d) (map (lpriceAt b) (fst tc))"
    using assms(1) by (simp add: touched_ok_def)
  have best: "\<forall>q \<in> set (map (lpriceAt b) (fst tc)). q = lpriceAt b lr \<or> better d q (lpriceAt b lr)"
    using touched_best [OF assms] by auto
  have "fst (touch s lr tc) = (if lr \<in> set (fst tc) then fst tc else fst tc @ [lr])"
    by (cases tc) (simp add: touch_def)
  then show ?thesis
    unfolding remdups_adj_push [OF srt best] touched_price_mem [OF assms] by simp
qed

lemma touch_ok:
  assumes sh: "shape b L" and bk: "booked b L" and tc: "touched_ok b L d tc" and Ld: "L d = (lr, rs) # Y"
  shows "touched_ok b L d (touch (sideOf d) lr tc)"
proof (cases "lr \<in> set (fst tc)")
  case True
  with tc show ?thesis by (cases tc) (simp add: touch_def)
next
  case False
  have mem: "(lr, rs) \<in> set (L d)" using Ld by simp
  have "accounted b L d lr" using booked_accounted [OF bk mem] by simp
  moreover have "lr \<notin> fst ` set (L (\<not> d))" using shape_level_unique [OF sh mem] by fastforce
  moreover have "fst e = lr \<or> better d (lpriceAt b lr) (lpriceAt b (fst e))" if "e \<in> set (L d)" for e
    using shape_sorted [OF sh, of d] that Ld by auto
  moreover have "better d (lpriceAt b c) (lpriceAt b lr)" if "c \<in> set (fst tc)" for c
    using touched_best [OF tc mem that] that False by blast
  ultimately show ?thesis using tc False
    by (cases tc) (auto simp: touch_def touched_ok_def sorted_wrt_append replicate_append_same)
qed

lemma accounted_alloc: "accounted b L d lr \<Longrightarrow> levelAt b lr \<noteq> None"
  by (auto simp: accounted_def)

lemma touched_fill:
  assumes f: "fill_rel b L d lr p f b' L'" and sh: "shape b L"
    and tc: "touched_ok b L d tc" and Ld: "L d = (lr, rs) # Y"
  shows "touched_ok b' L' d tc" and "map (lpriceAt b') (fst tc) = map (lpriceAt b) (fst tc)"
proof -
  have lp: "lpriceAt b' c = lpriceAt b c" if "c \<in> set (fst tc) \<union> fst ` set (L d)" for c
    using that tc shape_sideOk [OF sh, of d] shape_sides [OF sh, of d] unfolding sideOk_def touched_ok_def
    by (intro fill_rel_lpriceAt [OF f]) (auto dest: accounted_alloc)
  then show mp: "map (lpriceAt b') (fst tc) = map (lpriceAt b) (fst tc)" by simp
  have L': "L' (\<not> d) = L (\<not> d)" "fst ` set (L' d) \<subseteq> fst ` set (L d)" and p: "lpriceAt b lr = p"
    using f by (simp_all add: fill_rel_def)
  have sel: "accounted b L d c" "c \<notin> fst ` set (L (\<not> d))"
    "e \<in> set (L d) \<Longrightarrow> fst e = c \<or> better d (lpriceAt b c) (lpriceAt b (fst e))"
    if "c \<in> set (fst tc)" for c e
    using tc that unfolding touched_ok_def by blast+
  have "accounted b' L' d c" if c: "c \<in> set (fst tc)" for c
    using sel(3) [OF c, of "(lr, rs)"] Ld p by (intro fill_rel_accounted [OF f sel(1) [OF c]]) auto
  moreover have "fst e = c \<or> better d (lpriceAt b' c) (lpriceAt b' (fst e))"
    if c: "c \<in> set (fst tc)" and e: "e \<in> set (L' d)" for c e
  proof -
    obtain e0 where e0: "e0 \<in> set (L d)" "fst e = fst e0" using e L'(2) by blast
    then show ?thesis using sel(3) [OF c e0(1)] lp c by simp
  qed
  moreover have "sorted_wrt (better d) (map (lpriceAt b') (fst tc))" "snd tc = replicate (length (fst tc)) (sideOf d)"
    unfolding mp using tc by (simp_all add: touched_ok_def)
  ultimately show "touched_ok b' L' d tc"
    using sel(2) L'(1) unfolding touched_ok_def by metis
qed

section \<open>The matching loop\<close>

lemma smin_left:
  fixes a c :: i64
  assumes "0 <s a" and "0 <s c" and "a - smin a c \<noteq> 0"
  shows "smin a c = c \<and> 0 <s a - c"
proof -
  have c: "smin a c = c" "sint c \<le> sint a" "a \<noteq> c" using assms(3) by (auto simp: smin_def signed_ord split: if_splits)
  then have "sint (a - c) = sint a - sint c" using assms by (intro sint_diff_pos) (auto simp: signed_ord)
  with c show ?thesis using sint_inj [of a c] by (simp add: signed_ord)
qed

lemma match_fill_books:
  assumes sh: "shape b L" and bk: "booked b L" and rd: "ready b L tk t" and tc: "touched_ok b L (oppOf t) tc"
    and vs: "vals b (refs L (oppOf t)) = m # ms" and pos: "0 <s qty t" and x: "crosses t (price m)"
  defines "d \<equiv> oppOf t" and "fill \<equiv> smin (qty m) (qty t)"
  obtains b' L' tc' where "match tk es tc b = match tk (es @ fill_events (m\<lparr>qty := qty m - fill\<rparr>)
        ((val t)\<lparr>qty := qty t - fill\<rparr>) fill) tc' b'"
    "shape b' L'" "booked b' L'" "ready b' L' tk (t\<lparr>qty := qty t - fill\<rparr>)" "touched_ok b' L' d tc'"
    "\<And>ps. remdups_adj (map (lpriceAt b') (fst tc') @ ps) = remdups_adj (map (lpriceAt b) (fst tc) @ price m # ps)"
    "L' (\<not> d) = L (\<not> d)" "nextOrderId b' = nextOrderId b"
    "vals b' (refs L' d) = (if qty m - fill = 0 then [] else [m\<lparr>qty := qty m - fill\<rparr>]) @ ms"
    "vals b' (refs L' (\<not> d)) = vals b (refs L (\<not> d))"
proof -
  have "L d \<noteq> []" using vs by (auto simp: d_def refs_def)
  then obtain lr rs0 Y where L0: "L d = (lr, rs0) # Y" by (metis list.exhaust surj_pair)
  with shape_level [OF sh, of "(lr, rs0)" d] obtain mr rs where Ld: "L d = (lr, mr # rs) # Y"
    by (cases rs0) (auto simp: lvl_shape_def)
  then have mem: "(lr, mr # rs) \<in> set (L d)" by simp
  obtain m0 where m0: "orderAt b mr = Some m0" "price m0 = lpriceAt b lr"
    using shape_order_level [OF sh mem, of mr] by auto
  have vm: "m = val m0" "ms = vals b (rs @ concat (map snd Y))" using vs Ld m0 by (simp_all add: d_def refs_def)
  then have pm: "price m0 = price m" "qty m0 = qty m" by simp_all
  have fe: "fill_events (m0\<lparr>qty := q\<rparr>) (t\<lparr>qty := q'\<rparr>) f = fill_events (m\<lparr>qty := q\<rparr>) ((val t)\<lparr>qty := q'\<rparr>) f" for q q' f
    unfolding vm(1) val_upd(4) [symmetric] by (simp add: fill_events_def del: val_upd)
  obtain b' L' where it: "match tk es tc b = match tk (es @ fill_events (m\<lparr>qty := qty m - fill\<rparr>)
        ((val t)\<lparr>qty := qty t - fill\<rparr>) fill) (touch (sideOf d) lr tc) b'"
    and b': "shape b' L'" "ready b' L' tk (t\<lparr>qty := qty t - fill\<rparr>)" "L' (\<not> d) = L (\<not> d)"
    "fst ` set (L' d) \<subseteq> fst ` set (L d)" "nextOrderId b' = nextOrderId b"
    and v': "vals b' (refs L' d) = (if qty m - fill = 0 then [] else [m\<lparr>qty := qty m - fill\<rparr>]) @ ms"
      "vals b' (refs L' (\<not> d)) = vals b (refs L (\<not> d))"
    and lv: "\<forall>l. map_option lval (levelAt b' l) = (if l = lr
         then Some (price m, totalQty (the (levelAt b lr)) - fill) else map_option lval (levelAt b l))"
    using match_fill [OF sh rd Ld [unfolded d_def] m0(1) pos, of es tc, folded d_def,
      unfolded pm vm [symmetric] fe, folded fill_def, OF x] by blast
  have al: "levelAt b lr \<noteq> None" using accounted_alloc [OF booked_accounted [OF bk mem]] by simp
  have fr: "fill_rel b L d lr (price m) fill b' L'"
    unfolding fill_rel_def v'(1) depth_fill using b' v'(2) lv al m0(2) pm vs by (simp add: d_def)
  have pos': "0 <s qty y" if "y \<in> set (m # ms)" for y
    using bk that vs by (metis booked_def)
  then have "\<forall>y \<in> set (vals b' (refs L' d)). 0 <s qty y"
    unfolding v'(1) using smin_left [of "qty m" "qty t"] pos by (auto simp: fill_def)
  then have bk': "booked b' L'" by (rule booked_fill [OF fr sh bk mem])
  have tc': "touched_ok b L d (touch (sideOf d) lr tc)"
    using touch_ok [OF sh bk _ Ld] tc by (simp add: d_def)
  show thesis
  proof (rule that [OF it b'(1) bk' b'(2) touched_fill(1) [OF fr sh tc' Ld] _ b'(3,5) v'])
    show "remdups_adj (map (lpriceAt b') (fst (touch (sideOf d) lr tc)) @ ps) =
        remdups_adj (map (lpriceAt b) (fst tc) @ price m # ps)" for ps
      unfolding touched_fill(2) [OF fr sh tc' Ld] using touch_prices [OF tc [folded d_def] mem] m0(2) pm(1) by simp
  qed
qed

lemma spec_match_stop:
  "ms = [] \<or> \<not> (0 <s qty t \<and> crosses t (price (hd ms))) \<Longrightarrow> spec_match t ms = ([], t, ms, [])"
  by (cases ms) auto

lemma crosses_val [simp]: "crosses (val t) p = crosses t p"
  by (simp add: crosses_def)

lemma oppOf_qty [simp]: "oppOf (t\<lparr>qty := q\<rparr>) = oppOf t"
  by (simp add: oppOf_def)

lemma crosses_qty [simp]: "crosses (t\<lparr>qty := q\<rparr>) p = crosses t p"
  by (simp add: crosses_def)

lemma match_stops:
  assumes sh: "shape b L" and t: "orderAt b tk = Some t"
    and stop: "vals b (refs L (oppOf t)) = [] \<or>
      \<not> (0 <s qty t \<and> crosses t (price (hd (vals b (refs L (oppOf t))))))"
  shows "match tk es tc b = Some (es, tc, b)"
proof (rule match_stop [OF t])
  assume ne: "sideLevels (oppOf t) b \<noteq> []" and pos: "0 <s qty t"
  obtain lr rs Y where Ld: "L (oppOf t) = (lr, rs) # Y"
    using ne shape_sides [OF sh, of "oppOf t"] by (cases "L (oppOf t)") auto
  then have "(lr, rs) \<in> set (L (oppOf t))" by simp
  from shape_level [OF sh this] obtain r rs' where rs: "rs = r # rs'" "levelAt b lr \<noteq> None"
    by (cases rs) (auto simp: lvl_shape_def)
  obtain m where "orderAt b r = Some m" "price m = lpriceAt b lr"
    using shape_order_level [OF sh \<open>(lr, rs) \<in> set (L (oppOf t))\<close>, of r] rs by auto
  then show "levelAt b (hd (sideLevels (oppOf t) b)) \<noteq> None
      \<and> \<not> crosses t (lpriceAt b (hd (sideLevels (oppOf t) b)))"
    using stop pos Ld rs shape_sides [OF sh, of "oppOf t"] by (auto simp: refs_def)
qed

text \<open>The loop, started in \<open>b\<close> with the events and touched levels so far, ends as the specification
  says.\<close>

definition match_sim :: "OrderBook \<Rightarrow> layout \<Rightarrow> oref \<Rightarrow> order \<Rightarrow> Event list \<Rightarrow> touched \<Rightarrow>
    Event list \<times> order \<times> order list \<times> i64 list \<Rightarrow> bool" where
  "match_sim b L tk t es tc res \<longleftrightarrow> (case res of (es', ta, ms', ps) \<Rightarrow>
     \<exists>tc' b' L' t'. match tk es tc b = Some (es @ es', tc', b') \<and> shape b' L' \<and> booked b' L'
       \<and> ready b' L' tk t' \<and> val t' = ta \<and> touched_ok b' L' (oppOf t) tc'
       \<and> map (lpriceAt b') (fst tc') = remdups_adj (map (lpriceAt b) (fst tc) @ ps)
       \<and> vals b' (refs L' (oppOf t)) = ms' \<and> L' (\<not> oppOf t) = L (\<not> oppOf t)
       \<and> vals b' (refs L' (\<not> oppOf t)) = vals b (refs L (\<not> oppOf t)) \<and> nextOrderId b' = nextOrderId b)"

lemma match_sim_stop:
  assumes "shape b L" and "booked b L" and "ready b L tk t" and "touched_ok b L (oppOf t) tc"
    and "vals b (refs L (oppOf t)) = [] \<or> \<not> (0 <s qty t \<and> crosses t (price (hd (vals b (refs L (oppOf t))))))"
  shows "match_sim b L tk t es tc (spec_match (val t) (vals b (refs L (oppOf t))))"
proof -
  have "orderAt b tk = Some t" using assms(3) by (simp add: ready_def)
  note m = match_stops [OF assms(1) this assms(5), of es tc]
  have "distinct (map (lpriceAt b) (fst tc))"
    using assms(4) by (intro sorted_wrt_distinct [of "better (oppOf t)"]) (auto simp: touched_ok_def)
  then have "map (lpriceAt b) (fst tc) = remdups_adj (map (lpriceAt b) (fst tc))"
    by (simp add: remdups_adj_distinct)
  moreover have "spec_match (val t) (vals b (refs L (oppOf t))) = ([], val t, vals b (refs L (oppOf t)), [])"
    using assms(5) by (intro spec_match_stop) simp
  ultimately show ?thesis
    using m assms(1-4) unfolding match_sim_def by fastforce
qed

lemma match_refines:
  assumes "shape b L" and "booked b L" and "ready b L tk t" and "touched_ok b L (oppOf t) tc"
  shows "match_sim b L tk t es tc (spec_match (val t) (vals b (refs L (oppOf t))))"
  using assms
proof (induction "vals b (refs L (oppOf t))" arbitrary: b L t tc es)
  case Nil
  show ?case using Nil(1) by (intro match_sim_stop [OF Nil(2-)]) simp
next
  case (Cons m ms)
  show ?case
  proof (cases "0 <s qty t \<and> crosses t (price m)")
    case False
    then show ?thesis using Cons(2) by (intro match_sim_stop [OF Cons(3-)]) (metis list.sel(1))
  next
    case True
    then have go: "0 <s qty t" "crosses t (price m)" by simp_all
    let ?f = "smin (qty m) (qty t)" let ?t = "t\<lparr>qty := qty t - ?f\<rparr>"
    obtain b' L' tc' where it: "match tk es tc b = match tk (es @ fill_events (m\<lparr>qty := qty m - ?f\<rparr>)
          ((val t)\<lparr>qty := qty t - ?f\<rparr>) ?f) tc' b'"
      and b': "shape b' L'" "booked b' L'" "ready b' L' tk ?t" "touched_ok b' L' (oppOf t) tc'"
      and pr: "\<And>ps. remdups_adj (map (lpriceAt b') (fst tc') @ ps) =
          remdups_adj (map (lpriceAt b) (fst tc) @ price m # ps)"
      and eq: "L' (\<not> oppOf t) = L (\<not> oppOf t)" "nextOrderId b' = nextOrderId b"
      and vs: "vals b' (refs L' (oppOf t)) = (if qty m - ?f = 0 then [] else [m\<lparr>qty := qty m - ?f\<rparr>]) @ ms"
        "vals b' (refs L' (\<not> oppOf t)) = vals b (refs L (\<not> oppOf t))"
      by (rule match_fill_books [OF Cons(3-6) Cons(2) [symmetric] go, of es]) (rule that)
    have t: "oppOf ?t = oppOf t" by simp
    let ?fe = "fill_events (m\<lparr>qty := qty m - ?f\<rparr>) ((val t)\<lparr>qty := qty t - ?f\<rparr>) ?f"
    have "match_sim b' L' tk ?t (es @ ?fe) tc' (spec_match (val ?t) (vals b' (refs L' (oppOf ?t))))"
    proof (cases "qty m - ?f = 0")
      case True
      then show ?thesis using vs t by (intro Cons(1) [OF _ b'(1-3)]) (simp_all add: b'(4))
    next
      case False
      then have "qty ?t = 0" by (auto simp: smin_def split: if_splits)
      then show ?thesis using b'(4) t by (intro match_sim_stop [OF b'(1-3)]) (simp_all add: signed_ord)
    qed
    moreover have "spec_match (val t) (vals b (refs L (oppOf t))) =
      (case spec_match (val ?t) (vals b' (refs L' (oppOf ?t))) of (es', ta, ms', ps) \<Rightarrow>
         (?fe @ es', ta, ms', price m # ps))"
      unfolding t vs(1) Cons(2) [symmetric] using go
      by (auto simp: Let_def spec_match_stop smin_def signed_ord split: prod.splits)
    ultimately show ?thesis
      using it pr eq vs(2) by (simp add: match_sim_def split: prod.splits)
  qed
qed

end
