(* ===== verification/Engine_Refines.thy ===== *)
theory Engine_Refines
  imports Book_Refines
begin

text \<open>
  The two commands of the engine implement the specification: resting an order, \<open>NewLimitOrder\<close> with
  the exact list of events it returns, and \<open>Cancel\<close>.
\<close>

section \<open>Resting\<close>

lemma spec_rest_split:
  assumes "\<forall>a \<in> set A. \<not> better d (price x) (price a)" and "\<forall>y \<in> set B. better d (price x) (price y)"
  shows "spec_rest d x (A @ B) = A @ x # B"
  using assms(1)
proof (induction A)
  case Nil
  show ?case using assms(2) by (cases B) auto
qed simp

lemma depth_append [simp]: "depth (xs @ ys) p = depth xs p + depth ys p"
  by (simp add: depth_def)

lemma depth_Cons: "depth (x # xs) p = (if price x = p then qty x else 0) + depth xs p"
  by (simp add: depth_def)

lemma depth_Nil [simp]: "depth [] p = 0"
  by (simp add: depth_def)

lemma depth_absent: "\<forall>x \<in> set xs. price x \<noteq> p \<Longrightarrow> depth xs p = 0"
  by (simp add: depth_def filter_False)

lemma depth_rest: "depth (spec_rest d x xs) p = depth (x # xs) p"
  by (induction xs) (auto simp: depth_Cons)

lemma set_spec_rest [simp]: "set (spec_rest d x xs) = insert x (set xs)"
  by (induction xs) auto

lemma vals_level:
  assumes "shape b L" and "(lr, rs) \<in> set (L d)" and "x \<in> set (vals b rs)"
  shows "price x = lpriceAt b lr"
proof -
  obtain r where r: "r \<in> set rs" "x = val (the (orderAt b r))" using assms(3) by (auto simp: vals_def)
  obtain y where "orderAt b r = Some y" "price y = lpriceAt b lr"
    using shape_order_level [OF assms(1,2) r(1)] .
  with r show ?thesis by simp
qed

lemma vals_levels:
  assumes "shape b L" and "set ls \<subseteq> set (L d)" and "x \<in> set (vals b (concat (map snd ls)))"
  shows "\<exists>e \<in> set ls. price x = lpriceAt b (fst e)"
proof -
  obtain e where e: "e \<in> set ls" "x \<in> set (vals b (snd e))"
    using assms(3) by (auto simp: vals_def)
  then have "(fst e, snd e) \<in> set (L d)" using assms(2) by auto
  from vals_level [OF assms(1) this e(2)] e(1) show ?thesis by blast
qed

text \<open>Around a level: the orders before it have better prices, its own have its price, the orders after it
  worse ones.\<close>

lemma vals_around:
  assumes sh: "shape b L" and Ld: "L d = X @ (lr, rs) # Y"
  shows "x \<in> set (vals b (concat (map snd X))) \<Longrightarrow> better d (price x) (lpriceAt b lr)"
    and "x \<in> set (vals b rs) \<Longrightarrow> price x = lpriceAt b lr"
    and "x \<in> set (vals b (concat (map snd Y))) \<Longrightarrow> better d (lpriceAt b lr) (price x)"
proof -
  have srt: "sorted_wrt (better d) (map (lpriceAt b \<circ> fst) (X @ (lr, rs) # Y))"
    using shape_sorted [OF sh, of d] by (simp add: Ld)
  show "better d (price x) (lpriceAt b lr)" if "x \<in> set (vals b (concat (map snd X)))"
    using vals_levels [OF sh _ that, of d] srt Ld by (force simp: sorted_wrt_append)
  show "better d (lpriceAt b lr) (price x)" if "x \<in> set (vals b (concat (map snd Y)))"
    using vals_levels [OF sh _ that, of d] srt Ld by (force simp: sorted_wrt_append)
  show "price x = lpriceAt b lr" if "x \<in> set (vals b rs)"
    using vals_level [OF sh _ that, of lr d] Ld by simp
qed

lemma bookedI:
  "(\<And>e. e \<in> set (L d) \<Longrightarrow> accounted b L d (fst e)) \<Longrightarrow>
   (\<And>e. e \<in> set (L (\<not> d)) \<Longrightarrow> accounted b L (\<not> d) (fst e)) \<Longrightarrow>
   (\<And>d. \<forall>x \<in> set (vals b (refs L d)). 0 <s qty x) \<Longrightarrow> booked b L"
  unfolding booked_def all_bool_eq by (cases d) simp_all

text \<open>An order added to a level: the level stays accounted, whether it was there or is new, and so does
  every other level of the book.\<close>

lemma accounted_rest:
  assumes sh: "shape b L" and bk: "booked b L" and Ld: "L d = X @ (if rs = [] then [] else [(lr, rs)]) @ Y"
    and sh': "shape b' L'" and L'd: "L' d = X @ (lr, rs @ [tk]) # Y" and lp: "lpriceAt b' lr = p"
    and kv: "\<And>qs. set qs \<subseteq> set (refs L d) \<Longrightarrow> vals b' qs = vals b qs"
    and lv: "map_option lval (levelAt b' lr) = Some (p, (if rs = [] then 0 else totalQty (the (levelAt b lr))) + n)"
    and dp: "depth (vals b' (refs L' d)) p = depth (vals b (refs L d)) p + n"
  shows "accounted b' L' d lr"
proof -
  have rf: "refs L d = concat (map snd X) @ rs @ concat (map snd Y)" using Ld by (simp add: refs_def)
  have kd: "vals b' (concat (map snd X)) = vals b (concat (map snd X))" "vals b' rs = vals b rs"
    "vals b' (concat (map snd Y)) = vals b (concat (map snd Y))"
    by (intro kv; auto simp: rf)+
  note ar = vals_around [OF sh' L'd, unfolded lp vals_simps(3) kd]
  show ?thesis
  proof (cases "rs = []")
    case True
    then have "price y \<noteq> p" if "y \<in> set (vals b (refs L d))" for y
      using that ar(1) [of y] ar(3) [of y] unfolding rf by auto
    then have "depth (vals b (refs L d)) p = 0" by (intro depth_absent) simp
    with True lv dp show ?thesis by (auto simp: accounted_def)
  next
    case False
    then have mem: "(lr, rs) \<in> set (L d)" using Ld by simp
    from booked_accounted [OF bk this] have "totalQty (the (levelAt b lr)) =
        depth (vals b (refs L d)) (lpriceAt b lr)" by (auto simp: accounted_def lval_def lpriceAt_def)
    moreover from False obtain y where "y \<in> set (vals b rs)" by (cases rs) auto
    with ar(2) vals_level [OF sh mem] have "lpriceAt b lr = p" by force
    ultimately show ?thesis using False lv dp by (auto simp: accounted_def)
  qed
qed

lemma booked_rest:
  assumes bk: "booked b L" and sh': "shape b' L'" and L'd: "L' d = X @ (lr, rs') # Y"
    and old: "set X \<union> set Y \<subseteq> set (L d)" and L'o: "L' (\<not> d) = L (\<not> d)"
    and lp: "lpriceAt b' lr = p" and fr: "\<forall>l. l \<noteq> lr \<longrightarrow> levelAt b' l = levelAt b l"
    and dp: "\<And>q. depth (vals b' (refs L' d)) q = depth (vals b (refs L d)) q + (if q = p then n else 0)"
    and vo: "vals b' (refs L' (\<not> d)) = vals b (refs L (\<not> d))" and acc: "accounted b' L' d lr"
    and pos: "\<forall>x \<in> set (vals b' (refs L' d)). 0 <s qty x"
  shows "booked b' L'"
proof (rule bookedI [of L' d])
  have other: "accounted b' L' d (fst e)" if e: "e \<in> set X \<union> set Y" for e
  proof -
    have "fst e \<noteq> lr" "lpriceAt b' (fst e) \<noteq> p"
      using shape_distinct_levels [OF sh', of d] shape_sorted [OF sh', of d] e lp
      by (force simp: L'd sorted_wrt_append dest: better_asym)+
    moreover have "e \<in> set (L d)" using old e by blast
    ultimately show ?thesis using booked_accounted [OF bk, of e d] fr dp
      by (auto simp: accounted_def lpriceAt_def lval_def)
  qed
  show "accounted b' L' d (fst e)" if "e \<in> set (L' d)" for e
    using that acc other [of e] by (auto simp: L'd)
  show "accounted b' L' (\<not> d) (fst e)" if e: "e \<in> set (L' (\<not> d))" for e
  proof -
    have "fst e \<noteq> lr" using shape_level_unique [OF sh', of lr rs' d "snd e" "\<not> d"] e L'd by auto
    then show ?thesis using booked_accounted [OF bk, of e "\<not> d"] e fr vo L'o by (simp add: accounted_def)
  qed
  show "\<forall>x \<in> set (vals b' (refs L' d')). 0 <s qty x" for d'
  proof (cases "d' = d")
    case False
    then have "d' = (\<not> d)" by blast
    then show ?thesis using bk vo by (simp add: booked_def)
  qed (use pos in simp)
qed

lemma rest_refines:
  assumes sh: "shape b L" and bk: "booked b L" and rd: "ready b L tk t" and pos: "0 <s qty t"
    and new: "map_of (orders b) (oid t) = None"
  defines "d \<equiv> side t = Buy"
  shows "\<exists>lr b' L'. restOrder tk b = Some (lr, b') \<and> shape b' L' \<and> booked b' L'
    \<and> vals b' (refs L' d) = spec_rest d (val t) (vals b (refs L d))
    \<and> vals b' (refs L' (\<not> d)) = vals b (refs L (\<not> d)) \<and> nextOrderId b' = nextOrderId b
    \<and> accounted b' L' d lr \<and> lpriceAt b' lr = price t \<and> (\<forall>l. l \<noteq> lr \<longrightarrow> levelAt b' l = levelAt b l)
    \<and> (lr \<in> fst ` set (L d) \<or> levelAt b lr = None)"
proof -
  have t: "orderAt b tk = Some t" "prev t = None" "nxt t = None" "\<And>d. tk \<notin> set (refs L d)"
    using rd by (simp_all add: ready_def)
  obtain lr b' X Y rs where ro: "restOrder tk b = Some (lr, b')"
    and Ld: "L d = X @ (if rs = [] then [] else [(lr, rs)]) @ Y"
    and sh': "shape b' (L(d := X @ [(lr, rs @ [tk])] @ Y))" and kp: "keeps (insert tk (set (refs L d))) b b'"
    and lp: "lpriceAt b' lr = price t"
    and lv: "map_option lval (levelAt b' lr) =
        Some (price t, (if rs = [] then 0 else totalQty (the (levelAt b lr))) + qty t)"
    and fr: "\<forall>l. l \<noteq> lr \<longrightarrow> levelAt b' l = levelAt b l" and nw: "rs = [] \<longrightarrow> levelAt b lr = None"
    using restOrder_spec [OF sh t(1-3) d_def [symmetric, THEN meta_eq_to_obj_eq] t(4) new] by blast
  let ?L' = "L(d := X @ [(lr, rs @ [tk])] @ Y)"
  let ?A = "vals b (concat (map snd X) @ rs)" and ?B = "vals b (concat (map snd Y))"
  have rf: "refs L d = concat (map snd X) @ rs @ concat (map snd Y)" using Ld by (simp add: refs_def)
  then have old: "vals b (refs L d) = ?A @ ?B" by simp
  have kv: "vals b' qs = vals b qs" if "set qs \<subseteq> insert tk (set (refs L d')) " for qs d'
    using that t(1) by (intro vals_keeps [OF kp]) (auto dest: shape_allocated [OF sh])
  have kd: "vals b' (concat (map snd X)) = vals b (concat (map snd X))" "vals b' rs = vals b rs"
    "vals b' (concat (map snd Y)) = ?B" "vals b' [tk] = vals b [tk]"
    by (intro kv [of _ d]; auto simp: rf)+
  have v1: "vals b' (refs ?L' d) = ?A @ val t # ?B"
    using kd t(1) by (simp add: refs_def)
  have "?L' d = X @ (lr, rs @ [tk]) # Y" by simp
  note ar = vals_around [OF sh' this, unfolded lp vals_simps(3) kd]
  have v2: "vals b' (refs ?L' d) = spec_rest d (val t) (vals b (refs L d))"
    unfolding v1 old using ar by (intro spec_rest_split [symmetric]) (auto dest: better_asym)
  have v3: "vals b' (refs ?L' (\<not> d)) = vals b (refs L (\<not> d))"
    by (simp add: refs_upd) (rule kv [of _ "\<not> d"], auto)
  have dp: "depth (vals b' (refs ?L' d)) p = depth (vals b (refs L d)) p + (if p = price t then qty t else 0)" for p
    unfolding v1 old by (simp add: depth_Cons)
  have acc: "accounted b' ?L' d lr"
    using kv [of _ d] dp by (intro accounted_rest [OF sh bk Ld sh' _ lp _ lv]) auto
  have pos': "\<forall>x \<in> set (vals b' (refs ?L' d)). 0 <s qty x"
    using bk pos unfolding v2 by (auto simp: booked_def)
  have "booked b' ?L'"
    by (rule booked_rest [OF bk sh' _ _ _ lp fr dp v3 acc pos']) (auto simp: Ld)
  moreover have "lr \<in> fst ` set (L d) \<or> levelAt b lr = None" using Ld nw by (cases "rs = []") auto
  moreover have "nextOrderId b' = nextOrderId b" using kp by (simp add: keeps_def)
  ultimately show ?thesis using ro sh' v2 v3 acc lp fr by blast
qed

section \<open>A new order\<close>

definition arrived :: "order \<Rightarrow> OrderBook \<Rightarrow> OrderBook" where
  "arrived x b = b\<lparr>orderAt := (orderAt b)(orderTop b \<mapsto> x), orderTop := orderTop b + 1,
     nextOrderId := nextOrderId b + 1\<rparr>"

lemma shape_fresh: "shape b L \<Longrightarrow> orderTop b \<notin> set (refs L d)"
  using shape_allocated [of b L "orderTop b" d] by (auto simp: shape_def)

lemma arrived_shape:
  assumes sh: "shape b L"
  shows "shape (arrived x b) L"
proof -
  let ?b = "arrived x b"
  have old: "orderAt ?b r = orderAt b r" if "r \<in> set (refs L d)" for r d
    using shape_fresh [OF sh, of d] that by (auto simp: arrived_def)
  have "lvl_shape ?b d e" if "e \<in> set (L d)" for d e
  proof (rule lvl_shape_cong [OF shape_level [OF sh that]])
    show "orderAt ?b r = orderAt b r" if "r \<in> set (snd e)" for r
      using \<open>e \<in> set (L d)\<close> that by (intro old [of _ d]) (auto simp: refs_def)
  qed (simp add: arrived_def)
  moreover have "sideLevels d ?b = sideLevels d b" "sidePrices ?b d = sidePrices b d" for d
    by (simp_all add: arrived_def sidePrices_def lpriceAt_def [abs_def])
  moreover have "(\<exists>d. r \<in> set (refs L d)) \<and> (\<exists>y. orderAt ?b r = Some y \<and> oid y = k) \<longleftrightarrow>
      (\<exists>d. r \<in> set (refs L d)) \<and> (\<exists>y. orderAt b r = Some y \<and> oid y = k)" for r k
    using old by auto
  ultimately show ?thesis using sh unfolding shape_def
    by (simp add: arrived_def del: fun_upd_apply) simp
qed

lemma arrived_vals: "shape b L \<Longrightarrow> vals (arrived x b) (refs L d) = vals b (refs L d)"
  using shape_fresh [of b L d] by (auto simp: vals_def arrived_def)

lemma arrived_booked: "shape b L \<Longrightarrow> booked b L \<Longrightarrow> booked (arrived x b) L"
  using arrived_vals [of b L x] by (simp add: booked_def accounted_def arrived_def)

lemma arrived_ready:
  "shape b L \<Longrightarrow> level x = None \<Longrightarrow> prev x = None \<Longrightarrow> nxt x = None \<Longrightarrow> ready (arrived x b) L (orderTop b) x"
  using shape_fresh [of b L] by (simp add: ready_def arrived_def)

text \<open>The book updates emitted for the touched levels.\<close>

lemma bookUpdates_append:
  "length xs = length ss \<Longrightarrow> bookUpdates b (xs @ ys) (ss @ ts) = do {
     us \<leftarrow> bookUpdates b xs ss; vs \<leftarrow> bookUpdates b ys ts; Some (us @ vs) }"
  by (induction xs ss rule: list_induct2) (auto split: option.splits bind_splits simp: Option.bind_assoc)

lemma bookUpdates_replicate:
  assumes "\<forall>l \<in> set ls. map_option lval (levelAt b l) = Some (lpriceAt b' l, f (lpriceAt b' l))"
  shows "bookUpdates b ls (replicate (length ls) s)
    = Some (map (\<lambda>p. bookUpdateEvent s p (f p)) (map (lpriceAt b') ls))"
  using assms by (induction ls) (auto simp: lval_def)

lemma accounted_lpriceAt:
  "accounted b L d l \<Longrightarrow>
   map_option lval (levelAt b l) = Some (lpriceAt b l, depth (vals b (refs L d)) (lpriceAt b l))"
  unfolding accounted_def by (metis lpriceAt_lval)

lemma touched_updates:
  assumes tc: "touched_ok b L d tc" and same: "\<And>l. l \<in> set (fst tc) \<Longrightarrow> levelAt b' l = levelAt b l"
  shows "bookUpdates b' (fst tc) (snd tc) =
    Some (map (\<lambda>p. bookUpdateEvent (sideOf d) p (depth (vals b (refs L d)) p)) (map (lpriceAt b) (fst tc)))"
proof -
  have "snd tc = replicate (length (fst tc)) (sideOf d)" using tc by (simp add: touched_ok_def)
  moreover have "map_option lval (levelAt b' l) = Some (lpriceAt b l, depth (vals b (refs L d)) (lpriceAt b l))"
    if "l \<in> set (fst tc)" for l
    using tc that unfolding same [OF that] touched_ok_def by (metis accounted_lpriceAt)
  ultimately show ?thesis by (simp add: bookUpdates_replicate del: map_map)
qed

text \<open>What the specification's matching keeps.\<close>

lemma spec_match_keeps:
  assumes "spec_match t ms = (es, t', ms', ps)"
  shows "oid ` set ms' \<subseteq> oid ` set ms \<and> t' = t\<lparr>qty := qty t'\<rparr>
    \<and> (0 <s qty t' \<longrightarrow> ms' = [] \<or> \<not> crosses t (price (hd ms')))"
proof -
  have "case spec_match t ms of (es, t', ms', ps) \<Rightarrow> oid ` set ms' \<subseteq> oid ` set ms \<and> t' = t\<lparr>qty := qty t'\<rparr>
    \<and> (0 <s qty t' \<longrightarrow> ms' = [] \<or> \<not> crosses t (price (hd ms')))"
  proof (induction t ms rule: spec_match_induct)
    case (full t m ms es t' ms' ps)
    then show ?case by (auto simp: crosses_def)
  qed (auto simp: signed_ord)
  with assms show ?thesis by simp
qed

lemma vals_ids: "oid ` set (vals b rs) = (\<lambda>r. oid (the (orderAt b r))) ` set rs"
  by (simp add: vals_def image_image)

lemma shape_keys:
  assumes "shape b L"
  shows "map_of (orders b) k = None \<longleftrightarrow> (\<forall>d. k \<notin> oid ` set (vals b (refs L d)))"
proof -
  have m: "map_of (orders b) k = Some r \<longleftrightarrow>
      (\<exists>d. r \<in> set (refs L d)) \<and> (\<exists>x. orderAt b r = Some x \<and> oid x = k)" for r
    using assms by (simp add: shape_def)
  have "k \<in> oid ` set (vals b (refs L d)) \<longleftrightarrow> (\<exists>r \<in> set (refs L d). \<exists>x. orderAt b r = Some x \<and> oid x = k)" for d
    using shape_allocated [OF assms, of _ d] unfolding vals_ids by force
  with m show ?thesis by (metis not_None_eq)
qed

lemma spec_new_unfold:
  assumes "0 <s cmdQty cmd" and "0 <s cmdPrice cmd"
    and "spec_match (new_order cmd (anext a)) (side_of a (cmdSide cmd = Sell)) = (es, t', ms, ps)"
  defines "t \<equiv> new_order cmd (anext a)" and "opp \<equiv> (cmdSide cmd = Sell)" and "own \<equiv> (cmdSide cmd = Buy)"
  shows "spec_new cmd a =
    (let sides = (side_of a)(opp := ms);
         ups = map (\<lambda>p. bookUpdateEvent (sideOf opp) p (depth ms p)) (remdups_adj ps);
         rested = spec_rest own t' (sides own)
     in if 0 <s qty t'
        then (acceptedEvent t # es @ ups @ [bookUpdateEvent (side t) (price t) (depth rested (price t))],
              \<lparr>side_of = sides(own := rested), anext = anext a + 1\<rparr>)
        else (acceptedEvent t # es @ ups, \<lparr>side_of = sides, anext = anext a + 1\<rparr>))"
  using assms(3) by (simp add: spec_new_def t_def opp_def own_def new_order_def Let_def sideOf_def
      sless_sle_False [OF assms(1)] sless_sle_False [OF assms(2)])

lemma arrived_next [simp]: "nextOrderId (arrived x b) = nextOrderId b + 1"
  by (simp add: arrived_def)

text \<open>The first phase of \<open>NewLimitOrder\<close>: the order arrives and is matched.\<close>

lemma NewLimitOrder_match:
  assumes sh: "shape b L" and bk: "booked b L" and nr: "0 <s cmdQty cmd" "0 <s cmdPrice cmd"
    and sm: "spec_match (new_order cmd (nextOrderId b)) (vals b (refs L (cmdSide cmd = Sell))) = (ev, ta, ms, ps)"
  defines "x \<equiv> new_order cmd (nextOrderId b)" and "opp \<equiv> (cmdSide cmd = Sell)" and "tk \<equiv> orderTop b"
  obtains tc b1 L1 t1 where "NewLimitOrder cmd b = do {
        (tc, b2) \<leftarrow> (if 0 <s qty t1 then do {
             (lvl, b2) \<leftarrow> restOrder tk b1; Some (touch (side t1) lvl tc, b2) } else Some (tc, b1));
        updates \<leftarrow> bookUpdates b2 (fst tc) (snd tc);
        Some (acceptedEvent x # ev @ updates, b2) }"
    "shape b1 L1" "booked b1 L1" "ready b1 L1 tk t1" "val t1 = ta" "touched_ok b1 L1 opp tc"
    "map (lpriceAt b1) (fst tc) = remdups_adj ps"
    "\<And>d. vals b1 (refs L1 d) = ((\<lambda>d. vals b (refs L d))(opp := ms)) d" "nextOrderId b1 = nextOrderId b + 1"
proof -
  have xs: "val x = x" "level x = None" "prev x = None" "nxt x = None" and op: "oppOf x = opp"
    by (simp_all add: x_def new_order_def val_def oppOf_def opp_def)
  have "match_sim (arrived x b) L tk x [acceptedEvent x] ([], []) (ev, ta, ms, ps)"
    using match_refines [OF arrived_shape [OF sh] arrived_booked [OF sh bk] arrived_ready [OF sh xs(2-4)]
      touched_ok_Nil] sm [folded x_def opp_def] by (simp add: xs(1) arrived_vals [OF sh] op tk_def)
  then obtain tc b1 L1 t1 where ma: "match tk [acceptedEvent x] ([], []) (arrived x b) = Some (acceptedEvent x # ev, tc, b1)"
    and b1: "shape b1 L1" "booked b1 L1" "ready b1 L1 tk t1" "val t1 = ta" "touched_ok b1 L1 opp tc"
      "map (lpriceAt b1) (fst tc) = remdups_adj ps" and ms: "vals b1 (refs L1 opp) = ms"
    and ot: "vals b1 (refs L1 (\<not> opp)) = vals b (refs L (\<not> opp))"
    and nx: "nextOrderId b1 = nextOrderId b + 1"
    by (auto simp: match_sim_def op arrived_vals [OF sh])
  have "orderAt b1 tk = Some t1" using b1(3) by (simp add: ready_def)
  then have head: "NewLimitOrder cmd b = do {
        (tc, b2) \<leftarrow> (if 0 <s qty t1 then do {
             (lvl, b2) \<leftarrow> restOrder tk b1; Some (touch (side t1) lvl tc, b2) } else Some (tc, b1));
        updates \<leftarrow> bookUpdates b2 (fst tc) (snd tc);
        Some (acceptedEvent x # ev @ updates, b2) }"
    using ma by (simp add: nr [THEN sless_sle_False] NewLimitOrder_def newO_def x_def new_order_def arrived_def Let_def tk_def
        del: not_sless not_sle)
  have "vals b1 (refs L1 d) = ((\<lambda>d. vals b (refs L d))(opp := ms)) d" for d
    using ms ot by (cases "d = opp") auto
  from that [OF head b1 this nx] show thesis .
qed

lemma refs_Nil:
  assumes "shape b L" and "refs L d = []"
  shows "L d = []"
proof (cases "L d")
  case (Cons e es)
  then show ?thesis using shape_level [OF assms(1), of e d] assms(2) by (simp add: refs_def lvl_shape_def)
qed

lemma touched_other:
  assumes tc: "touched_ok b L d tc" and "lr \<in> fst ` set (L own) \<or> levelAt b lr = None"
    and "own = d \<Longrightarrow> L d = []"
  shows "lr \<notin> set (fst tc)"
proof
  assume lr: "lr \<in> set (fst tc)"
  with tc have a: "accounted b L d lr" "lr \<notin> fst ` set (L (\<not> d))" by (auto simp: touched_ok_def)
  show False
    using assms(2,3) accounted_alloc [OF a(1)] a(2) by (cases "own = d") auto
qed

text \<open>The second phase: what is left of the order rests, and its level is the last one reported.\<close>

lemma NewLimitOrder_rest:
  assumes b1: "shape b1 L1" "booked b1 L1" "ready b1 L1 tk t1" and tc: "touched_ok b1 L1 opp tc"
    and new: "map_of (orders b1) (oid t1) = None" and pos: "0 <s qty t1"
    and clear: "(side t1 = Buy) = opp \<Longrightarrow> L1 opp = []"
    and ups: "\<And>b2. (\<And>l. l \<in> set (fst tc) \<Longrightarrow> levelAt b2 l = levelAt b1 l) \<Longrightarrow> bookUpdates b2 (fst tc) (snd tc) = Some ups"
  defines "own \<equiv> side t1 = Buy"
  defines "rested \<equiv> spec_rest own (val t1) (vals b1 (refs L1 own))"
  obtains lr b2 L2 where "restOrder tk b1 = Some (lr, b2)" "shape b2 L2" "booked b2 L2"
    "bookUpdates b2 (fst (touch (side t1) lr tc)) (snd (touch (side t1) lr tc))
      = Some (ups @ [bookUpdateEvent (side t1) (price t1) (depth rested (price t1))])"
    "\<And>d. vals b2 (refs L2 d) = ((\<lambda>d. vals b1 (refs L1 d))(own := rested)) d" "nextOrderId b2 = nextOrderId b1"
proof -
  obtain lr b2 L2 where ro: "restOrder tk b1 = Some (lr, b2)" and b2: "shape b2 L2" "booked b2 L2"
    and v2: "vals b2 (refs L2 own) = rested" "vals b2 (refs L2 (\<not> own)) = vals b1 (refs L1 (\<not> own))"
      "nextOrderId b2 = nextOrderId b1"
    and lr: "accounted b2 L2 own lr" "lpriceAt b2 lr = price t1"
      "\<forall>l. l \<noteq> lr \<longrightarrow> levelAt b2 l = levelAt b1 l" "lr \<in> fst ` set (L1 own) \<or> levelAt b1 lr = None"
    using rest_refines [OF b1 pos new] unfolding rested_def own_def by blast
  have nl: "lr \<notin> set (fst tc)" using touched_other [OF tc lr(4)] clear by (simp add: own_def)
  have tl: "length (fst tc) = length (snd tc)" using tc by (simp add: touched_ok_def)
  have "bookUpdates b2 [lr] [side t1] = Some [bookUpdateEvent (side t1) (price t1) (depth rested (price t1))]"
    using accounted_lpriceAt [OF lr(1)] unfolding lr(2) v2(1) by (auto simp: lval_def)
  moreover have "bookUpdates b2 (fst tc) (snd tc) = Some ups" using nl lr(3) by (intro ups) auto
  moreover have "touch (side t1) lr tc = (fst tc @ [lr], snd tc @ [side t1])"
    using nl by (cases tc) (simp add: touch_def)
  ultimately have up: "bookUpdates b2 (fst (touch (side t1) lr tc)) (snd (touch (side t1) lr tc))
      = Some (ups @ [bookUpdateEvent (side t1) (price t1) (depth rested (price t1))])"
    using tl by (simp add: bookUpdates_append del: bookUpdates.simps)
  have "vals b2 (refs L2 d) = ((\<lambda>d. vals b1 (refs L1 d))(own := rested)) d" for d
    using v2(1,2) by (cases "d = own") auto
  from that [OF ro b2 up this v2(3)] show thesis .
qed

text \<open>The taker's residual keeps its terms, its id is still unused, and on a side where it crosses every
  price nothing is left when it rests.\<close>

lemma residual_terms:
  assumes "spec_match x ms = (ev, val t, ms', ps)"
  shows "side t = side x" and "price t = price x" and "oid t = oid x"
proof -
  have "val t = x\<lparr>qty := qty (val t)\<rparr>" using spec_match_keeps [OF assms] by blast
  then have "side (val t) = side x \<and> price (val t) = price x \<and> oid (val t) = oid x"
    by (metis order.select_convs(1,4,5) order.update_convs(6) order.surjective)
  then show "side t = side x" "price t = price x" "oid t = oid x" by simp_all
qed

lemma residual_fresh:
  assumes sh: "shape b L" and sh1: "shape b1 L1" and fresh: "map_of (orders b) k = None"
    and sm: "spec_match x (vals b (refs L d)) = (ev, ta, ms, ps)"
    and vs: "\<And>d'. vals b1 (refs L1 d') = ((\<lambda>d. vals b (refs L d))(d := ms)) d'"
  shows "map_of (orders b1) k = None"
  using fresh conjunct1 [OF spec_match_keeps [OF sm]] unfolding shape_keys [OF sh1] shape_keys [OF sh] vs
  by (metis fun_upd_apply subset_iff)

lemma residual_clears:
  assumes sh1: "shape b1 L1" and sm: "spec_match x ms = (ev, ta, ms', ps)" and "0 <s qty ta"
    and all: "\<And>p. crosses x p" and vs: "vals b1 (refs L1 d) = ms'"
  shows "L1 d = []"
proof -
  have "ms' = []" using spec_match_keeps [OF sm] assms(3) all by auto
  then show ?thesis using vs refs_Nil [OF sh1, of d] by simp
qed

lemma NewLimitOrder_refines:
  assumes sh: "shape b L" and bk: "booked b L" and fresh: "map_of (orders b) (nextOrderId b) = None"
    and spec: "spec_new cmd (absb b L) = (es, a')"
  shows "\<exists>b' L'. NewLimitOrder cmd b = Some (es, b') \<and> shape b' L' \<and> booked b' L' \<and> absb b' L' = a'"
proof (cases "0 <s cmdQty cmd \<and> 0 <s cmdPrice cmd")
  case False
  then consider "cmdQty cmd \<le>s 0" | "\<not> cmdQty cmd \<le>s 0" "cmdPrice cmd \<le>s 0" by (metis not_sless)
  then show ?thesis using sh bk spec by cases (auto simp: NewLimitOrder_def spec_new_def)
next
  case True
  then have nr: "0 <s cmdQty cmd" "0 <s cmdPrice cmd" by simp_all
  let ?x = "new_order cmd (nextOrderId b)" and ?opp = "cmdSide cmd = Sell" and ?own = "cmdSide cmd = Buy"
  have xs: "oid ?x = nextOrderId b" "side ?x = cmdSide cmd" "price ?x = cmdPrice cmd"
    by (simp_all add: new_order_def)
  obtain ev ta ms ps where sm: "spec_match ?x (vals b (refs L ?opp)) = (ev, ta, ms, ps)"
    by (metis prod_cases4)
  obtain tc b1 L1 t1 where head: "NewLimitOrder cmd b = do {
        (tc, b2) \<leftarrow> (if 0 <s qty t1 then do {
             (lvl, b2) \<leftarrow> restOrder (orderTop b) b1; Some (touch (side t1) lvl tc, b2) } else Some (tc, b1));
        updates \<leftarrow> bookUpdates b2 (fst tc) (snd tc);
        Some (acceptedEvent ?x # ev @ updates, b2) }"
    and b1: "shape b1 L1" "booked b1 L1" "ready b1 L1 (orderTop b) t1" "val t1 = ta" "touched_ok b1 L1 ?opp tc"
    and ps: "map (lpriceAt b1) (fst tc) = remdups_adj ps"
    and vs: "\<And>d. vals b1 (refs L1 d) = ((\<lambda>d. vals b (refs L d))(?opp := ms)) d"
    and nx: "nextOrderId b1 = nextOrderId b + 1"
    by (rule NewLimitOrder_match [OF sh bk nr sm]) (rule that)
  have tq: "qty ta = qty t1" using b1(4) by (metis val_sel(6))
  note t1 = residual_terms [OF sm [folded b1(4)], unfolded xs]
  let ?ups = "map (\<lambda>p. bookUpdateEvent (sideOf ?opp) p (depth ms p)) (remdups_adj ps)"
  have ups: "bookUpdates b2 (fst tc) (snd tc) = Some ?ups" if "\<And>l. l \<in> set (fst tc) \<Longrightarrow> levelAt b2 l = levelAt b1 l" for b2
    using touched_updates [OF b1(5) that] ps vs [of ?opp] by simp
  let ?sides = "(\<lambda>d. vals b (refs L d))(?opp := ms)"
  let ?rested = "spec_rest ?own ta (?sides ?own)"
  have spec': "(es, a') = (if 0 <s qty t1
     then (acceptedEvent ?x # ev @ ?ups @ [bookUpdateEvent (cmdSide cmd) (cmdPrice cmd) (depth ?rested (cmdPrice cmd))],
           \<lparr>side_of = ?sides(?own := ?rested), anext = nextOrderId b + 1\<rparr>)
     else (acceptedEvent ?x # ev @ ?ups, \<lparr>side_of = ?sides, anext = nextOrderId b + 1\<rparr>))"
    using spec spec_new_unfold [OF nr, of "absb b L" ev ta ms ps] sm
    by (simp add: absb_def Let_def xs tq del: not_sless not_sle)
  show ?thesis
  proof (cases "0 <s qty t1")
    case False
    then have "es = acceptedEvent ?x # ev @ ?ups" "a' = absb b1 L1"
      using spec' vs nx by (simp_all add: absb_def fun_eq_iff del: not_sless)
    then show ?thesis using False head ups [of b1] b1(1,2) by (auto simp del: not_sless)
  next
    case True
    have new: "map_of (orders b1) (oid t1) = None"
      unfolding t1 by (rule residual_fresh [OF sh b1(1) fresh sm vs])
    have clear: "L1 ?opp = []" if "?own = ?opp"
      using that True tq vs [of ?opp] by (intro residual_clears [OF b1(1) sm]) (auto simp: crosses_def xs)
    obtain lr b2 L2 where ro: "restOrder (orderTop b) b1 = Some (lr, b2)" and b2: "shape b2 L2" "booked b2 L2"
      and up: "bookUpdates b2 (fst (touch (cmdSide cmd) lr tc)) (snd (touch (cmdSide cmd) lr tc))
        = Some (?ups @ [bookUpdateEvent (cmdSide cmd) (cmdPrice cmd) (depth ?rested (cmdPrice cmd))])"
      and v2: "\<And>d. vals b2 (refs L2 d) = (?sides(?own := ?rested)) d" and n2: "nextOrderId b2 = nextOrderId b + 1"
      by (rule NewLimitOrder_rest [OF b1(1-3,5) new True _ ups, unfolded t1 b1(4) vs nx]) (use clear that in auto)
    have "NewLimitOrder cmd b = Some (es, b2)" using head True ro spec' up t1(1) by simp
    moreover have "absb b2 L2 = a'" using spec' True v2 n2 by (simp add: absb_def fun_eq_iff)
    ultimately show ?thesis using b2 by blast
  qed
qed

section \<open>Cancelling\<close>

lemma shape_map:
  assumes "shape b L"
  shows "map_of (orders b) k = Some r \<longleftrightarrow>
    (\<exists>d. r \<in> set (refs L d)) \<and> (\<exists>x. orderAt b r = Some x \<and> oid x = k)"
  using assms by (simp add: shape_def)

lemma shape_oid_inj:
  assumes "shape b L" and "r \<in> set (refs L d)" "r' \<in> set (refs L d')"
    and "orderAt b r = Some x" "orderAt b r' = Some x'" "oid x = oid x'"
  shows "r = r'"
proof -
  have "map_of (orders b) (oid x) = Some r" "map_of (orders b) (oid x) = Some r'"
    unfolding shape_map [OF assms(1)] using assms by auto
  then show ?thesis by simp
qed

lemma find_order_vals:
  assumes sh: "shape b L"
  shows "find_order k (absb b L) = map_option (\<lambda>r. val (the (orderAt b r))) (map_of (orders b) k)"
proof (cases "map_of (orders b) k")
  case None
  then have "oid y \<noteq> k" if "y \<in> set (vals b (refs L d))" for y d
    using that unfolding shape_keys [OF sh] by blast
  then show ?thesis using None by (auto simp: find_order_def absb_def find_None_iff)
next
  case (Some r)
  then obtain d x where r: "r \<in> set (refs L d)" "orderAt b r = Some x" "oid x = k"
    using shape_map [OF sh] by blast
  have uni: "y = val x" if y: "y \<in> set (vals b (refs L d'))" "oid y = k" for y d'
  proof -
    obtain r' where r': "r' \<in> set (refs L d')" "y = val (the (orderAt b r'))"
      using y(1) by (auto simp: vals_def)
    obtain x' where x': "orderAt b r' = Some x'" using shape_allocated [OF sh r'(1)] by blast
    have "r' = r" using shape_oid_inj [OF sh r'(1) r(1) x' r(2)] r' x' y(2) r(3) by simp
    then show ?thesis using r' r(2) by simp
  qed
  have mem: "val x \<in> set (side_of (absb b L) True @ side_of (absb b L) False)"
    using r by (cases d) (auto simp: absb_def vals_def image_iff intro: bexI [of _ r])
  then obtain y where y: "find_order k (absb b L) = Some y"
    using r(3) unfolding find_order_def
    by (cases "find (\<lambda>x. oid x = k) (side_of (absb b L) True @ side_of (absb b L) False)")
      (auto simp: find_None_iff)
  then have "oid y = k" "y \<in> set (side_of (absb b L) True @ side_of (absb b L) False)"
    unfolding find_order_def by (auto dest: find_SomeD)
  then have "y = val x" using uni by (auto simp: absb_def)
  then show ?thesis using Some r(2) y by simp
qed

definition uncounted :: "lref \<Rightarrow> i64 \<Rightarrow> OrderBook \<Rightarrow> OrderBook" where
  "uncounted lr q b = b\<lparr>levelAt := (levelAt b)(lr \<mapsto> (the (levelAt b lr))\<lparr>totalQty := totalQty (the (levelAt b lr)) - q\<rparr>)\<rparr>"

lemma shape_distinct_ids: "shape b L \<Longrightarrow> distinct (map oid (vals b (refs L d)))"
proof -
  assume sh: "shape b L"
  have "inj_on (\<lambda>r. oid (the (orderAt b r))) (set (refs L d))"
  proof (rule inj_onI)
    fix r r' assume r: "r \<in> set (refs L d)" "r' \<in> set (refs L d)"
      "oid (the (orderAt b r)) = oid (the (orderAt b r'))"
    obtain x x' where x: "orderAt b r = Some x" "orderAt b r' = Some x'"
      using shape_allocated [OF sh r(1)] shape_allocated [OF sh r(2)] by blast
    then have "oid x = oid x'" using r(3) by simp
    with shape_oid_inj [OF sh r(1,2) x] show "r = r'" by blast
  qed
  then show ?thesis using shape_distinct_refs [OF sh]
    by (simp add: vals_def distinct_map comp_def)
qed

text \<open>Dropping an order by its id is dropping it from its place.\<close>

lemma filter_resting:
  assumes sh: "shape b L" and rf: "refs L d = us @ r # vs" and x: "orderAt b r = Some x"
  shows "filter (\<lambda>y. oid y \<noteq> oid x) (vals b (refs L d)) = vals b (us @ vs)"
    and "filter (\<lambda>y. oid y \<noteq> oid x) (vals b (refs L (\<not> d))) = vals b (refs L (\<not> d))"
proof -
  have v: "vals b (refs L d) = vals b us @ val x # vals b vs" unfolding rf using x by simp
  show "filter (\<lambda>y. oid y \<noteq> oid x) (vals b (refs L d)) = vals b (us @ vs)"
    using filter_remove [of oid "vals b us" "val x" "vals b vs"] shape_distinct_ids [OF sh, of d] unfolding v by simp
  have "oid y \<noteq> oid x" if y: "y \<in> set (vals b (refs L (\<not> d)))" for y
  proof
    assume e: "oid y = oid x"
    from y obtain r' where r': "r' \<in> set (refs L (\<not> d))" "y = val (the (orderAt b r'))" by (auto simp: vals_def)
    obtain z where z: "orderAt b r' = Some z" using shape_allocated [OF sh r'(1)] by blast
    have "r' = r" using shape_oid_inj [OF sh r'(1) _ z x, of d] rf r'(2) z e by simp
    then show False using shape_ref_side [OF sh r'(1), of d] rf by simp
  qed
  then show "filter (\<lambda>y. oid y \<noteq> oid x) (vals b (refs L (\<not> d))) = vals b (refs L (\<not> d))" by simp
qed

lemma Cancel_found:
  assumes sh: "shape b L" and bk: "booked b L" and Ld: "L d = X @ (lr, as @ r # bs) # Y"
    and x: "orderAt b r = Some x"
  obtains b' L' l where "unlink r (uncounted lr (qty x) b) = Some b'" "shape b' L'" "booked b' L'"
    "absb b' L' = remove_order (oid x) (absb b L)" "levelAt b' lr = Some l"
    "lprice l = price x" "totalQty l = depth (vals b' (refs L' d)) (price x)"
proof -
  let ?b = "uncounted lr (qty x) b"
  let ?L' = "L(d := X @ (if as @ bs = [] then [] else [(lr, as @ bs)]) @ Y)"
  have mem: "(lr, as @ r # bs) \<in> set (L d)" using Ld by simp
  obtain l0 where l0: "levelAt b lr = Some l0"
    using accounted_alloc [OF booked_accounted [OF bk mem]] by auto
  have px: "price x = lpriceAt b lr" using shape_order_level [OF sh mem, of r] x by auto
  have "same_links b ?b" using l0 by (simp add: same_links_def uncounted_def)
  then have sb: "shape ?b L" using sh by (rule same_links_shape)
  have ob: "orderAt ?b = orderAt b" by (simp add: uncounted_def)
  obtain b' where un: "unlink r ?b = Some b'" and sh': "shape b' ?L'" and kp: "keeps (set (refs L d)) ?b b'"
    and lv: "\<forall>l. map_option lval (levelAt b' l) = map_option lval (levelAt ?b l)"
    using unlink_spec [OF sb Ld] x ob by auto
  have kv: "vals b' qs = vals b qs" if "set qs \<subseteq> set (refs L d')" for qs d'
  proof -
    have "vals b' qs = vals ?b qs"
      using that shape_allocated [OF sb, of _ d'] by (intro vals_keeps [OF kp]) auto
    then show ?thesis by (simp add: vals_def ob)
  qed
  have rf: "refs L d = (concat (map snd X) @ as) @ r # bs @ concat (map snd Y)"
    "refs ?L' d = (concat (map snd X) @ as) @ bs @ concat (map snd Y)"
    using Ld by (simp_all add: refs_def)
  have v1: "vals b' (refs ?L' d) = vals b (concat (map snd X) @ as) @ vals b (bs @ concat (map snd Y))"
    unfolding rf(2) vals_simps(3) [symmetric] by (rule kv [of _ d]) (auto simp: rf(1))
  have v0: "vals b (refs L d) = vals b (concat (map snd X) @ as) @ val x # vals b (bs @ concat (map snd Y))"
    unfolding rf(1) using x by simp
  have v2: "vals b' (refs ?L' (\<not> d)) = vals b (refs L (\<not> d))"
    by (rule kv [of _ "\<not> d", THEN trans]) (simp_all add: refs_upd)
  have f: "fill_rel b L d lr (price x) (qty x) b' ?L'"
    unfolding fill_rel_def v1 v0 using v2 lv l0 px Ld
    by (auto simp: depth_Cons uncounted_def lval_def lpriceAt_def)
  have "booked b' ?L'"
  proof (rule booked_fill [OF f sh bk mem])
    have "\<forall>x \<in> set (vals b (refs L d)). 0 <s qty x" using bk by (simp add: booked_def)
    then show "\<forall>x \<in> set (vals b' (refs ?L' d)). 0 <s qty x" unfolding v1 v0 by auto
  qed
  moreover have "accounted b' ?L' d lr"
    using fill_rel_accounted [OF f] booked_accounted [OF bk mem] by simp
  then obtain l where "levelAt b' lr = Some l" "lval l = (lpriceAt b' lr, depth (vals b' (refs ?L' d)) (lpriceAt b' lr))"
    using accounted_lpriceAt by fastforce
  moreover have "lpriceAt b' lr = price x" using fill_rel_lpriceAt [OF f] l0 px by simp
  moreover have "absb b' ?L' = remove_order (oid x) (absb b L)"
  proof -
    have "vals b' (refs ?L' d') = filter (\<lambda>y. oid y \<noteq> oid x) (vals b (refs L d'))" for d'
      using filter_resting [OF sh rf(1) x] v1 v2 by (cases "d' = d") simp_all
    then show ?thesis using kp by (simp add: absb_def remove_order_def keeps_def uncounted_def)
  qed
  ultimately show thesis using that [OF un sh'] by (simp add: lval_def)
qed

lemma Cancel_refines:
  assumes sh: "shape b L" and bk: "booked b L" and spec: "spec_cancel k who (absb b L) = (es, a')"
  shows "\<exists>b' L'. Cancel k who b = Some (es, b') \<and> shape b' L' \<and> booked b' L' \<and> absb b' L' = a'"
proof (cases "map_of (orders b) k")
  case None
  then show ?thesis using sh bk spec find_order_vals [OF sh, of k]
    by (auto simp: Cancel_def spec_cancel_def)
next
  case (Some r)
  then obtain d x where r: "r \<in> set (refs L d)" and x: "orderAt b r = Some x" "oid x = k"
    using shape_map [OF sh] by blast
  have fo: "find_order k (absb b L) = Some (val x)" using find_order_vals [OF sh, of k] Some x by simp
  show ?thesis
  proof (cases "owner x = who")
    case False
    then show ?thesis using sh bk spec Some x fo by (auto simp: Cancel_def spec_cancel_def)
  next
    case True
    obtain lr rs where lr: "(lr, rs) \<in> set (L d)" "r \<in> set rs" "level x = Some lr" "(side x = Buy) = d"
      using shape_ref [OF sh r] x(1) by (metis option.inject)
    then obtain X Y as bs where Ld: "L d = X @ (lr, as @ r # bs) # Y" by (metis split_list)
    obtain b' L' l where un: "unlink r (uncounted lr (qty x) b) = Some b'"
      and b': "shape b' L'" "booked b' L'" "absb b' L' = remove_order (oid x) (absb b L)"
      and l: "levelAt b' lr = Some l" "lprice l = price x" "totalQty l = depth (vals b' (refs L' d)) (price x)"
      using Cancel_found [OF sh bk Ld x(1)] by blast
    have "levelAt b lr \<noteq> None"
      using accounted_alloc [OF booked_accounted [OF bk lr(1)]] by simp
    then have "Cancel k who b = Some ([canceledEvent x, bookUpdateEvent (side x) (price x) (totalQty l)], b')"
      using Some x True lr(3) un l by (auto simp: Cancel_def modL_def uncounted_def)
    moreover have "side_of (remove_order k (absb b L)) d = vals b' (refs L' d)"
      unfolding x(2) [symmetric] b'(3) [symmetric] by (simp add: absb_def)
    ultimately show ?thesis using b' spec fo True x(2) lr(4) l(3)
      by (auto simp: spec_cancel_def Let_def)
  qed
qed

section \<open>The book invariant\<close>

text \<open>\<open>represents b a\<close>: the store holds a well-formed book and \<open>a\<close> is what it represents.\<close>

definition represents :: "OrderBook \<Rightarrow> abook \<Rightarrow> bool" where
  "represents b a \<longleftrightarrow> (\<exists>L. shape b L \<and> booked b L \<and> absb b L = a)"

text \<open>Ids in the book are below the next id, so the next id is unused.\<close>

definition ids_ok :: "abook \<Rightarrow> bool" where
  "ids_ok a \<longleftrightarrow> 1 \<le> sint (anext a) \<and> (\<forall>d. \<forall>x \<in> set (side_of a d). 1 \<le> sint (oid x) \<and> sint (oid x) < sint (anext a))"

lemma wf_NewLimitOrder:
  assumes "represents b a" and "ids_ok a" and "spec_new cmd a = (es, a')"
  shows "\<exists>b'. NewLimitOrder cmd b = Some (es, b') \<and> represents b' a'"
proof -
  obtain L where L: "shape b L" "booked b L" "absb b L = a" using assms(1) by (auto simp: represents_def)
  then have "map_of (orders b) (nextOrderId b) = None"
    using assms(2) unfolding shape_keys [OF L(1)] by (fastforce simp: ids_ok_def absb_def)
  from NewLimitOrder_refines [OF L(1,2) this, of cmd es a'] assms(3) L(3) show ?thesis
    unfolding represents_def by blast
qed

lemma wf_Cancel:
  assumes "represents b a" and "spec_cancel k who a = (es, a')"
  shows "\<exists>b'. Cancel k who b = Some (es, b') \<and> represents b' a'"
  using assms Cancel_refines unfolding represents_def by metis

lemma wf_NewOrderBook: "represents NewOrderBook \<lparr>side_of = (\<lambda>d. []), anext = 1\<rparr>"
  unfolding represents_def
  by (rule exI [of _ "\<lambda>d. []"]) (simp add: shape_def booked_def absb_def NewOrderBook_def sideLevels_def
    sidePrices_def refs_def)

end
