(* ===== verification/Engine.thy ===== *)
theory Engine
  imports Engine_Refines
begin

text \<open>
  The engine as a sequence of commands: one step of the book, runs of steps, the interface
  \<open>book_simulation\<close> between an implementation and the price-time specification, and its
  interpretation on the pointer-based book.
\<close>

datatype command =
    SubmitCmd NewOrderCmd
  | CancelCmd i64 i64

text \<open>The two calls the service makes on its book.\<close>

fun exec :: "command \<Rightarrow> OrderBook \<Rightarrow> (Event list \<times> OrderBook) option" where
  "exec (SubmitCmd cmd) b = NewLimitOrder cmd b"
| "exec (CancelCmd k who) b = Cancel k who b"

fun spec_exec :: "command \<Rightarrow> abook \<Rightarrow> Event list \<times> abook" where
  "spec_exec (SubmitCmd cmd) a = spec_new cmd a"
| "spec_exec (CancelCmd k who) a = spec_cancel k who a"

text \<open>A run: the events of the commands in order and the last state.\<close>

primrec runs :: "(command \<Rightarrow> 's \<Rightarrow> (Event list \<times> 's) option) \<Rightarrow> command list \<Rightarrow> 's \<Rightarrow> (Event list \<times> 's) option" where
  "runs step [] s = Some ([], s)"
| "runs step (c # cs) s = do {
     (es, s') \<leftarrow> step c s;
     (es', s'') \<leftarrow> runs step cs s';
     Some (es @ es', s'')
   }"

primrec spec_runs :: "command list \<Rightarrow> abook \<Rightarrow> Event list \<times> abook" where
  "spec_runs [] a = ([], a)"
| "spec_runs (c # cs) a = (case spec_exec c a of (es, a') \<Rightarrow>
     (case spec_runs cs a' of (es', a'') \<Rightarrow> (es @ es', a'')))"

section \<open>The next order id\<close>

lemma spec_new_anext:
  "spec_new cmd a = (es, a') \<Longrightarrow>
   anext a' = (if 0 <s cmdQty cmd \<and> 0 <s cmdPrice cmd then anext a + 1 else anext a)"
  unfolding spec_new_def Let_def
  by (auto split: if_splits prod.splits simp: signed_ord)

lemma spec_exec_anext:
  assumes "spec_exec c a = (es, a')" and "sint (anext a) < 2 ^ 63 - 1"
  shows "sint (anext a) \<le> sint (anext a')" and "sint (anext a') \<le> sint (anext a) + 1"
proof -
  have "sint (anext a + 1) = sint (anext a) + 1"
    using assms(2) sint_range64 [of "anext a"] by (subst sint_add_small) simp_all
  then have "sint (anext a') = sint (anext a) \<or> sint (anext a') = sint (anext a) + 1"
    using assms(1) by (cases c) (auto dest: spec_new_anext simp: spec_cancel_def remove_order_def Let_def
      split: if_splits option.splits)
  then show "sint (anext a) \<le> sint (anext a')" "sint (anext a') \<le> sint (anext a) + 1" by auto
qed

lemma spec_new_ids:
  assumes "spec_new cmd a = (es, a')" and "x \<in> set (side_of a' d)"
  shows "(\<exists>d. oid x \<in> oid ` set (side_of a d)) \<or> oid x = anext a \<and> anext a' = anext a + 1"
proof (cases "0 <s cmdQty cmd \<and> 0 <s cmdPrice cmd")
  case False
  then have "a' = a" using assms(1) by (auto simp: spec_new_def split: if_splits)
  then show ?thesis using assms(2) by auto
next
  case True
  obtain ev ta ms ps where sm: "spec_match (new_order cmd (anext a)) (side_of a (cmdSide cmd = Sell)) = (ev, ta, ms, ps)"
    by (metis prod_cases4)
  note keep = spec_match_keeps [OF sm]
  have "ta = (new_order cmd (anext a))\<lparr>qty := qty ta\<rparr>" using keep by blast
  then have "oid ta = anext a" by (metis (no_types) new_order_def order.select_convs(1) order.surjective order.update_convs(6))
  moreover have "x \<in> insert ta (set ms \<union> set (side_of a d))"
    using assms True spec_new_unfold [OF _ _ sm]
    by (auto simp: Let_def split: if_splits)
  moreover have "oid ` set ms \<subseteq> oid ` set (side_of a (cmdSide cmd = Sell))" using keep by blast
  ultimately show ?thesis using spec_new_anext [OF assms(1)] True by fastforce
qed

lemma ids_ok_exec:
  assumes "ids_ok a" and "sint (anext a) < 2 ^ 63 - 1" and e: "spec_exec c a = (es, a')"
  shows "ids_ok a'"
proof -
  have "1 \<le> sint (oid x) \<and> sint (oid x) < sint (anext a')" if x: "x \<in> set (side_of a' d)" for x d
  proof (cases c)
    case (SubmitCmd cmd)
    with e have sn: "spec_new cmd a = (es, a')" by simp
    have "sint (anext a + 1) = sint (anext a) + 1"
      using assms(2) sint_range64 [of "anext a"] by (subst sint_add_small) simp_all
    then show ?thesis
      using spec_new_ids [OF sn x] assms(1) spec_exec_anext [OF e assms(2)]
      by (fastforce simp: ids_ok_def)
  next
    case (CancelCmd k who)
    then show ?thesis using e x assms(1)
      by (auto simp: spec_cancel_def remove_order_def Let_def ids_ok_def split: if_splits option.splits)
  qed
  then show ?thesis using assms(1) spec_exec_anext [OF e assms(2)] by (auto simp: ids_ok_def)
qed

section \<open>The interface of an engine\<close>

text \<open>An implementation of the book: a representation relation, and a step that answers every command
  exactly as the specification does. \<open>room\<close> bounds the ids still to be given out.\<close>

locale book_simulation =
  fixes rep :: "'s \<Rightarrow> abook \<Rightarrow> bool"
    and step :: "command \<Rightarrow> 's \<Rightarrow> (Event list \<times> 's) option"
  assumes sim: "rep s a \<Longrightarrow> sint (anext a) < 2 ^ 63 - 1 \<Longrightarrow> spec_exec c a = (es, a') \<Longrightarrow>
    \<exists>s'. step c s = Some (es, s') \<and> rep s' a'"
begin

lemma runs_sim:
  assumes "rep s a" and "sint (anext a) + int (length cs) < 2 ^ 63" and "spec_runs cs a = (es, a')"
  shows "\<exists>s'. runs step cs s = Some (es, s') \<and> rep s' a'"
  using assms
proof (induction cs arbitrary: s a es a')
  case (Cons c cs)
  obtain e1 a1 where e1: "spec_exec c a = (e1, a1)" by force
  obtain e2 a2 where e2: "spec_runs cs a1 = (e2, a2)" by force
  have room: "sint (anext a) < 2 ^ 63 - 1" using Cons.prems(2) by simp
  obtain s1 where s1: "step c s = Some (e1, s1)" "rep s1 a1" using sim [OF Cons.prems(1) room e1] by blast
  have "sint (anext a1) + int (length cs) < 2 ^ 63"
    using Cons.prems(2) spec_exec_anext(2) [OF e1 room] by simp
  from Cons.IH [OF s1(2) this e2] s1(1) e1 e2 Cons.prems(3) show ?case by auto
qed simp

text \<open>Two states that represent the same book cannot be told apart by any sequence of commands.\<close>

lemma runs_same_events:
  assumes "rep s a" and "rep t a" and "sint (anext a) + int (length cs) < 2 ^ 63"
  shows "map_option fst (runs step cs s) = map_option fst (runs step cs t)"
proof -
  obtain es a' where "spec_runs cs a = (es, a')" by force
  then show ?thesis using runs_sim [OF assms(1,3)] runs_sim [OF assms(2,3)] by fastforce
qed

end

interpretation book: book_simulation "\<lambda>b a. represents b a \<and> ids_ok a" exec
proof
  fix s a c es a'
  assume "represents s a \<and> ids_ok a" "sint (anext a) < 2 ^ 63 - 1" "spec_exec c a = (es, a')"
  then show "\<exists>s'. exec c s = Some (es, s') \<and> represents s' a' \<and> ids_ok a'"
    using ids_ok_exec [of a c es a'] wf_NewLimitOrder [of s a _ es a'] wf_Cancel [of s a _ _ es a']
    by (cases c) auto
qed

end
