(* ===== verification/Wire.thy ===== *)
theory Wire
  imports Prelude
begin

text \<open>
  The marshalling layer, \<open>src/go/protocol/codecs/SbeMarshalling.go\<close>. The writer is the
  \<open>bytes.Buffer\<close> every caller passes: writing appends and cannot fail. The reader is the rest of the
  input; \<open>io.ReadFull\<close> gives \<open>EOF\<close> when nothing is left and \<open>UnexpectedEOF\<close> when less than asked for
  is. The marshaller's scratch slices are left out here; \<open>Marshaller\<close> has them and shows that they carry
  nothing from call to call.
  Right shift of a signed Go integer is arithmetic (\<open>signed_drop_bit\<close>).
\<close>

datatype werror =
    EOF
  | UnexpectedEOF
  | RangeCheckFailed string

definition readFull :: "nat \<Rightarrow> bytes \<Rightarrow> werror + bytes \<times> bytes" where
  "readFull n r = (if n \<le> length r then Inr (take n r, drop n r)
     else if r = [] then Inl EOF else Inl UnexpectedEOF)"

section \<open>Writers\<close>

definition WriteUint8 :: "bytes \<Rightarrow> u8 \<Rightarrow> bytes" where
  "WriteUint8 w v = w @ [v]"

definition WriteUint16 :: "bytes \<Rightarrow> u16 \<Rightarrow> bytes" where
  "WriteUint16 w v = w @ [ucast v, ucast (drop_bit 8 v)]"

definition WriteUint32 :: "bytes \<Rightarrow> u32 \<Rightarrow> bytes" where
  "WriteUint32 w v = w @ [ucast v, ucast (drop_bit 8 v), ucast (drop_bit 16 v), ucast (drop_bit 24 v)]"

definition WriteUint64 :: "bytes \<Rightarrow> u64 \<Rightarrow> bytes" where
  "WriteUint64 w v = w @ [ucast v, ucast (drop_bit 8 v), ucast (drop_bit 16 v), ucast (drop_bit 24 v),
     ucast (drop_bit 32 v), ucast (drop_bit 40 v), ucast (drop_bit 48 v), ucast (drop_bit 56 v)]"

definition WriteInt8 :: "bytes \<Rightarrow> i8 \<Rightarrow> bytes" where
  "WriteInt8 w v = w @ [v]"

definition WriteInt16 :: "bytes \<Rightarrow> i16 \<Rightarrow> bytes" where
  "WriteInt16 w v = w @ [ucast v, ucast (signed_drop_bit 8 v)]"

definition WriteInt32 :: "bytes \<Rightarrow> i32 \<Rightarrow> bytes" where
  "WriteInt32 w v = w @ [ucast v, ucast (signed_drop_bit 8 v), ucast (signed_drop_bit 16 v),
     ucast (signed_drop_bit 24 v)]"

definition WriteInt64 :: "bytes \<Rightarrow> i64 \<Rightarrow> bytes" where
  "WriteInt64 w v = w @ [ucast v, ucast (signed_drop_bit 8 v), ucast (signed_drop_bit 16 v),
     ucast (signed_drop_bit 24 v), ucast (signed_drop_bit 32 v), ucast (signed_drop_bit 40 v),
     ucast (signed_drop_bit 48 v), ucast (signed_drop_bit 56 v)]"

definition WriteBytes :: "bytes \<Rightarrow> bytes \<Rightarrow> bytes" where
  "WriteBytes w v = w @ v"

section \<open>Readers\<close>

definition ReadUint8 :: "bytes \<Rightarrow> werror + u8 \<times> bytes" where
  "ReadUint8 r = bindE (readFull 1 r) (\<lambda>(b1, r). Inr (b1 ! 0, r))"

definition ReadUint16 :: "bytes \<Rightarrow> werror + u16 \<times> bytes" where
  "ReadUint16 r = bindE (readFull 2 r) (\<lambda>(b2, r). Inr (ucast (b2 ! 0) OR push_bit 8 (ucast (b2 ! 1)), r))"

definition ReadUint32 :: "bytes \<Rightarrow> werror + u32 \<times> bytes" where
  "ReadUint32 r = bindE (readFull 4 r) (\<lambda>(b4, r). Inr (ucast (b4 ! 0) OR push_bit 8 (ucast (b4 ! 1))
     OR push_bit 16 (ucast (b4 ! 2)) OR push_bit 24 (ucast (b4 ! 3)), r))"

definition ReadUint64 :: "bytes \<Rightarrow> werror + u64 \<times> bytes" where
  "ReadUint64 r = bindE (readFull 8 r) (\<lambda>(b8, r). Inr (ucast (b8 ! 0) OR push_bit 8 (ucast (b8 ! 1))
     OR push_bit 16 (ucast (b8 ! 2)) OR push_bit 24 (ucast (b8 ! 3))
     OR push_bit 32 (ucast (b8 ! 4)) OR push_bit 40 (ucast (b8 ! 5))
     OR push_bit 48 (ucast (b8 ! 6)) OR push_bit 56 (ucast (b8 ! 7)), r))"

definition ReadInt8 :: "bytes \<Rightarrow> werror + i8 \<times> bytes" where
  "ReadInt8 r = bindE (readFull 1 r) (\<lambda>(b1, r). Inr (b1 ! 0, r))"

definition ReadInt16 :: "bytes \<Rightarrow> werror + i16 \<times> bytes" where
  "ReadInt16 r = bindE (readFull 2 r) (\<lambda>(b2, r). Inr (ucast (b2 ! 0) OR push_bit 8 (ucast (b2 ! 1)), r))"

definition ReadInt32 :: "bytes \<Rightarrow> werror + i32 \<times> bytes" where
  "ReadInt32 r = bindE (readFull 4 r) (\<lambda>(b4, r). Inr (ucast (b4 ! 0) OR push_bit 8 (ucast (b4 ! 1))
     OR push_bit 16 (ucast (b4 ! 2)) OR push_bit 24 (ucast (b4 ! 3)), r))"

definition ReadInt64 :: "bytes \<Rightarrow> werror + i64 \<times> bytes" where
  "ReadInt64 r = bindE (readFull 8 r) (\<lambda>(b8, r). Inr (ucast (b8 ! 0) OR push_bit 8 (ucast (b8 ! 1))
     OR push_bit 16 (ucast (b8 ! 2)) OR push_bit 24 (ucast (b8 ! 3))
     OR push_bit 32 (ucast (b8 ! 4)) OR push_bit 40 (ucast (b8 ! 5))
     OR push_bit 48 (ucast (b8 ! 6)) OR push_bit 56 (ucast (b8 ! 7)), r))"

definition ReadBytes :: "nat \<Rightarrow> bytes \<Rightarrow> werror + bytes \<times> bytes" where
  "ReadBytes n r = readFull n r"

section \<open>The fixed message header\<close>

record SbeGoMessageHeader =
  hdrBlockLength :: u16
  hdrTemplateId :: u16
  hdrSchemaId :: u16
  hdrVersion :: u16

definition SbeGoMessageHeader_Encode :: "SbeGoMessageHeader \<Rightarrow> bytes \<Rightarrow> bytes" where
  "SbeGoMessageHeader_Encode m w = w @
     [ucast (hdrBlockLength m), ucast (drop_bit 8 (hdrBlockLength m)),
      ucast (hdrTemplateId m), ucast (drop_bit 8 (hdrTemplateId m)),
      ucast (hdrSchemaId m), ucast (drop_bit 8 (hdrSchemaId m)),
      ucast (hdrVersion m), ucast (drop_bit 8 (hdrVersion m))]"

definition SbeGoMessageHeader_Decode :: "bytes \<Rightarrow> werror + SbeGoMessageHeader \<times> bytes" where
  "SbeGoMessageHeader_Decode r = bindE (readFull 8 r) (\<lambda>(b8, r). Inr (
     \<lparr>hdrBlockLength = ucast (b8 ! 0) OR push_bit 8 (ucast (b8 ! 1)),
      hdrTemplateId = ucast (b8 ! 2) OR push_bit 8 (ucast (b8 ! 3)),
      hdrSchemaId = ucast (b8 ! 4) OR push_bit 8 (ucast (b8 ! 5)),
      hdrVersion = ucast (b8 ! 6) OR push_bit 8 (ucast (b8 ! 7))\<rparr>, r))"

section \<open>Round trips\<close>

text \<open>Joining one more byte extends the low bits recovered so far.\<close>

lemma low_byte: "ucast (ucast v :: 8 word) = take_bit 8 (v :: 'a::len word)"
  by (rule bit_word_eqI) (auto simp: bit_simps)

lemma join_byte:
  "take_bit n v OR push_bit n (ucast (ucast (drop_bit n v) :: 8 word)) = take_bit (n + 8) (v :: 'a::len word)"
proof (rule bit_word_eqI)
  fix i assume "i < LENGTH('a)"
  then show "bit (take_bit n v OR push_bit n (ucast (ucast (drop_bit n v) :: 8 word))) i \<longleftrightarrow>
      bit (take_bit (n + 8) v) i"
    by (cases "i < n") (auto simp: bit_simps)
qed

lemma bytes16: "ucast (ucast (v :: 16 word) :: 8 word) OR push_bit 8 (ucast (ucast (drop_bit 8 v) :: 8 word)) = v"
  using join_byte [of 8 v] by (simp add: low_byte take_bit_word_eq_self)

lemma bytes32:
  fixes v :: "32 word"
  shows "ucast (ucast v :: 8 word) OR push_bit 8 (ucast (ucast (drop_bit 8 v) :: 8 word))
    OR push_bit 16 (ucast (ucast (drop_bit 16 v) :: 8 word)) OR push_bit 24 (ucast (ucast (drop_bit 24 v) :: 8 word)) = v"
  using join_byte [of 8 v] join_byte [of 16 v] join_byte [of 24 v]
  by (simp add: low_byte take_bit_word_eq_self flip: or.assoc)

lemma bytes64:
  fixes v :: "64 word"
  shows "ucast (ucast v :: 8 word) OR push_bit 8 (ucast (ucast (drop_bit 8 v) :: 8 word))
    OR push_bit 16 (ucast (ucast (drop_bit 16 v) :: 8 word)) OR push_bit 24 (ucast (ucast (drop_bit 24 v) :: 8 word))
    OR push_bit 32 (ucast (ucast (drop_bit 32 v) :: 8 word)) OR push_bit 40 (ucast (ucast (drop_bit 40 v) :: 8 word))
    OR push_bit 48 (ucast (ucast (drop_bit 48 v) :: 8 word)) OR push_bit 56 (ucast (ucast (drop_bit 56 v) :: 8 word)) = v"
  using join_byte [of 8 v] join_byte [of 16 v] join_byte [of 24 v] join_byte [of 32 v] join_byte [of 40 v]
    join_byte [of 48 v] join_byte [of 56 v]
  by (simp add: low_byte take_bit_word_eq_self flip: or.assoc)

lemma byte_signed16: "(ucast (signed_drop_bit 8 (v :: 16 word)) :: 8 word) = ucast (drop_bit 8 v)"
  by (rule bit_word_eqI) (auto simp: bit_simps)

lemma byte_signed32:
  "n \<le> 24 \<Longrightarrow> (ucast (signed_drop_bit n (v :: 32 word)) :: 8 word) = ucast (drop_bit n v)"
  by (rule bit_word_eqI) (auto simp: bit_simps)

lemma byte_signed64:
  "n \<le> 56 \<Longrightarrow> (ucast (signed_drop_bit n (v :: 64 word)) :: 8 word) = ucast (drop_bit n v)"
  by (rule bit_word_eqI) (auto simp: bit_simps)


lemmas byte_signed = byte_signed16 byte_signed32 byte_signed64

lemma readFull_append: "length v = n \<Longrightarrow> readFull n (v @ r) = Inr (v, r)"
  by (simp add: readFull_def)

text \<open>Writing appends: every writer is the writer on the empty buffer put after what is there.\<close>

lemma Write_append:
  "WriteUint8 w v8 = w @ WriteUint8 [] v8" "WriteUint16 w v16 = w @ WriteUint16 [] v16"
  "WriteUint32 w v32 = w @ WriteUint32 [] v32" "WriteUint64 w v64 = w @ WriteUint64 [] v64"
  "WriteInt8 w v8 = w @ WriteInt8 [] v8" "WriteInt16 w v16 = w @ WriteInt16 [] v16"
  "WriteInt32 w v32 = w @ WriteInt32 [] v32" "WriteInt64 w v64 = w @ WriteInt64 [] v64"
  by (simp_all add: WriteUint8_def WriteUint16_def WriteUint32_def WriteUint64_def
      WriteInt8_def WriteInt16_def WriteInt32_def WriteInt64_def)

lemma Write_append_simps [wire_simps]:
  "NO_MATCH [] w \<Longrightarrow> WriteUint8 w v8 = w @ WriteUint8 [] v8"
  "NO_MATCH [] w \<Longrightarrow> WriteUint16 w v16 = w @ WriteUint16 [] v16"
  "NO_MATCH [] w \<Longrightarrow> WriteUint32 w v32 = w @ WriteUint32 [] v32"
  "NO_MATCH [] w \<Longrightarrow> WriteUint64 w v64 = w @ WriteUint64 [] v64"
  "NO_MATCH [] w \<Longrightarrow> WriteInt8 w v8 = w @ WriteInt8 [] v8"
  "NO_MATCH [] w \<Longrightarrow> WriteInt16 w v16 = w @ WriteInt16 [] v16"
  "NO_MATCH [] w \<Longrightarrow> WriteInt32 w v32 = w @ WriteInt32 [] v32"
  "NO_MATCH [] w \<Longrightarrow> WriteInt64 w v64 = w @ WriteInt64 [] v64"
  by (rule Write_append)+

lemma Write_length [simp]:
  "length (WriteUint8 w v8) = length w + 1" "length (WriteUint16 w v16) = length w + 2"
  "length (WriteUint32 w v32) = length w + 4" "length (WriteUint64 w v64) = length w + 8"
  "length (WriteInt8 w v8) = length w + 1" "length (WriteInt16 w v16) = length w + 2"
  "length (WriteInt32 w v32) = length w + 4" "length (WriteInt64 w v64) = length w + 8"
  by (simp_all add: WriteUint8_def WriteUint16_def WriteUint32_def WriteUint64_def
      WriteInt8_def WriteInt16_def WriteInt32_def WriteInt64_def)

lemma Read_Write [simp]:
  "ReadUint8 (WriteUint8 [] v8 @ r) = Inr (v8, r)" "ReadUint16 (WriteUint16 [] v16 @ r) = Inr (v16, r)"
  "ReadUint32 (WriteUint32 [] v32 @ r) = Inr (v32, r)" "ReadUint64 (WriteUint64 [] v64 @ r) = Inr (v64, r)"
  "ReadInt8 (WriteInt8 [] v8 @ r) = Inr (v8, r)" "ReadInt16 (WriteInt16 [] v16 @ r) = Inr (v16, r)"
  "ReadInt32 (WriteInt32 [] v32 @ r) = Inr (v32, r)" "ReadInt64 (WriteInt64 [] v64 @ r) = Inr (v64, r)"
  unfolding ReadUint8_def ReadUint16_def ReadUint32_def ReadUint64_def ReadInt8_def ReadInt16_def ReadInt32_def
    ReadInt64_def WriteUint8_def WriteUint16_def WriteUint32_def WriteUint64_def
    WriteInt8_def WriteInt16_def WriteInt32_def WriteInt64_def
  by (simp_all add: readFull_def bytes16 bytes32 bytes64 byte_signed)

text \<open>And back: the bytes of the value read are the bytes that were there.\<close>

lemma byte_eq: "(\<And>i. i < 8 \<Longrightarrow> bit (a :: 8 word) i = bit b i) \<Longrightarrow> a = b"
  by (rule bit_word_eqI) simp

lemma le64_bytes:
  fixes b0 b1 b2 b3 b4 b5 b6 b7 :: "8 word"
  defines "v \<equiv> (ucast b0 OR push_bit 8 (ucast b1) OR push_bit 16 (ucast b2) OR push_bit 24 (ucast b3)
     OR push_bit 32 (ucast b4) OR push_bit 40 (ucast b5) OR push_bit 48 (ucast b6) OR push_bit 56 (ucast b7) :: 64 word)"
  shows "ucast v = b0" "ucast (drop_bit 8 v) = b1" "ucast (drop_bit 16 v) = b2" "ucast (drop_bit 24 v) = b3"
    "ucast (drop_bit 32 v) = b4" "ucast (drop_bit 40 v) = b5" "ucast (drop_bit 48 v) = b6" "ucast (drop_bit 56 v) = b7"
  unfolding v_def
  by (rule byte_eq, simp add: bit_simps, (auto dest: bit_imp_le_length))+

definition shortRead :: "bytes \<Rightarrow> werror" where
  "shortRead r = (if r = [] then EOF else UnexpectedEOF)"

text \<open>The value an \<open>int64\<close> read returns, as a function of the input.\<close>

definition le64 :: "bytes \<Rightarrow> i64" where
  "le64 r = ucast (r ! 0) OR push_bit 8 (ucast (r ! 1)) OR push_bit 16 (ucast (r ! 2)) OR push_bit 24 (ucast (r ! 3))
     OR push_bit 32 (ucast (r ! 4)) OR push_bit 40 (ucast (r ! 5)) OR push_bit 48 (ucast (r ! 6)) OR push_bit 56 (ucast (r ! 7))"

lemma ReadInt64_eq: "ReadInt64 r = (if 8 \<le> length r then Inr (le64 r, drop 8 r) else Inl (shortRead r))"
  by (simp add: ReadInt64_def readFull_def shortRead_def le64_def)

lemma ReadInt8_eq: "ReadInt8 r = (if 1 \<le> length r then Inr (hd r, drop 1 r) else Inl (shortRead r))"
  by (cases r) (simp_all add: ReadInt8_def readFull_def shortRead_def)

lemma Read_at:
  "8 \<le> length r \<Longrightarrow> ReadInt64 r = Inr (le64 r, drop 8 r)"
  "n + 8 \<le> length r \<Longrightarrow> ReadInt64 (drop n r) = Inr (le64 (drop n r), drop (n + 8) r)"
  "1 \<le> length r \<Longrightarrow> ReadInt8 r = Inr (hd r, drop 1 r)"
  "n + 1 \<le> length r \<Longrightarrow> ReadInt8 (drop n r) = Inr (hd (drop n r), drop (n + 1) r)"
  by (simp_all add: ReadInt64_eq ReadInt8_eq add.commute)

lemma le64_WriteInt64 [simp]: "le64 (WriteInt64 [] v @ r) = v" "le64 (WriteInt64 [] v) = v"
  using Read_Write(8) [of v r] Read_Write(8) [of v "[]"] by (simp_all add: ReadInt64_eq)

lemma hd_WriteInt8 [simp]: "hd (WriteInt8 [] v @ r) = v"
  by (simp add: WriteInt8_def)

lemma WriteInt64_le64:
  assumes "8 \<le> length r"
  shows "WriteInt64 [] (le64 r) = take 8 r"
proof -
  obtain b0 b1 b2 b3 b4 b5 b6 b7 r' where r: "r = b0 # b1 # b2 # b3 # b4 # b5 # b6 # b7 # r'"
    using assms by (auto simp: numeral_eq_Suc Suc_le_length_iff)
  then have "le64 r = ucast b0 OR push_bit 8 (ucast b1) OR push_bit 16 (ucast b2) OR push_bit 24 (ucast b3)
     OR push_bit 32 (ucast b4) OR push_bit 40 (ucast b5) OR push_bit 48 (ucast b6) OR push_bit 56 (ucast b7)"
    by (simp add: le64_def)
  note le = le64_bytes [of b0 b1 b2 b3 b4 b5 b6 b7, folded this]
  show ?thesis by (simp add: WriteInt64_def byte_signed le r [symmetric]) (simp add: r)
qed

lemma WriteInt8_hd: "1 \<le> length r \<Longrightarrow> WriteInt8 [] (hd r) = take 1 r"
  by (cases r) (simp_all add: WriteInt8_def)

end
