(* ===== verification/Codec_Types.thy ===== *)
theory Codec_Types
  imports Wire
begin

text \<open>
  The enumerations of the wire schema (\<open>Side.go\<close>, \<open>OrderStatus.go\<close>, \<open>RejectReason.go\<close>), the message
  header (\<open>MessageHeader.go\<close>) and the descriptors the generated accessors return: a field's id, first
  version, deprecation, meta attribute and value range, and a message's block length, template and
  schema. Each accessor group of the sources is one constant record.
\<close>

definition minInt64 :: i64 where
  "minInt64 = - (2 ^ 63)"

definition maxInt64 :: i64 where
  "maxInt64 = 2 ^ 63 - 1"

definition maxUint16 :: u16 where
  "maxUint16 = - 1"

record valueMeta =
  valueSince :: u16
  valueDeprecated :: u16

record fieldMeta =
  fieldId :: u16
  sinceVersion :: u16
  deprecated :: u16
  metaAttribute :: "int \<Rightarrow> string"

record i64Field = fieldMeta +
  minValue :: i64
  maxValue :: i64
  nullValue :: i64

record u16Field =
  u16Min :: u16
  u16Max :: u16
  u16Null :: u16
  u16Since :: u16
  u16Deprecated :: u16

record sbeMeta =
  SbeBlockLength :: u16
  SbeTemplateId :: u16
  SbeSchemaId :: u16
  SbeSchemaVersion :: u16
  SbeSemanticType :: string
  SbeSemanticVersion :: string

text \<open>\<open>MetaAttribute(meta)\<close> of a required field.\<close>

definition requiredAttribute :: "int \<Rightarrow> string" where
  "requiredAttribute meta = (if meta = 1 then '''' else if meta = 2 then '''' else if meta = 3 then ''''
     else if meta = 4 then ''required'' else '''')"

definition inActingVersion :: "'a fieldMeta_scheme \<Rightarrow> u16 \<Rightarrow> bool" where
  "inActingVersion f actingVersion \<longleftrightarrow> sinceVersion f \<le> actingVersion"

text \<open>The range check of one \<open>int64\<close> field.\<close>

definition checkInt64 :: "i64Field \<Rightarrow> u16 \<Rightarrow> i64 \<Rightarrow> string \<Rightarrow> werror + unit" where
  "checkInt64 f actingVersion x name =
     (if inActingVersion f actingVersion \<and> (x <s minValue f \<or> maxValue f <s x)
      then Inl (RangeCheckFailed name) else Inr ())"

section \<open>\<open>SideEnum\<close>\<close>

type_synonym SideEnum = i8

record SideValues =
  Side_BUY :: SideEnum
  Side_SELL :: SideEnum
  Side_NullValue :: SideEnum

definition Side_values :: SideValues where
  "Side_values = \<lparr>Side_BUY = 0, Side_SELL = 1, Side_NullValue = -128\<rparr>"

definition SideEnum_Encode :: "SideEnum \<Rightarrow> bytes \<Rightarrow> bytes" where
  "SideEnum_Encode s w = WriteInt8 w s"

definition SideEnum_Decode :: "bytes \<Rightarrow> werror + SideEnum \<times> bytes" where
  "SideEnum_Decode r = ReadInt8 r"

definition SideEnum_RangeCheck :: "SideEnum \<Rightarrow> u16 \<Rightarrow> u16 \<Rightarrow> werror + unit" where
  "SideEnum_RangeCheck s actingVersion schemaVersion =
     (if schemaVersion < actingVersion then Inr ()
      else if s \<in> set [Side_BUY Side_values, Side_SELL Side_values, Side_NullValue Side_values]
      then Inr () else Inl (RangeCheckFailed ''Side''))"

definition SideEnum_EncodedLength :: i64 where
  "SideEnum_EncodedLength = 1"

definition SideEnum_BUY_meta :: valueMeta where
  "SideEnum_BUY_meta = \<lparr>valueSince = 0, valueDeprecated = 0\<rparr>"

definition SideEnum_SELL_meta :: valueMeta where
  "SideEnum_SELL_meta = \<lparr>valueSince = 0, valueDeprecated = 0\<rparr>"

section \<open>\<open>OrderStatusEnum\<close>\<close>

type_synonym OrderStatusEnum = i8

record OrderStatusValues =
  OrderStatus_ACCEPTED :: OrderStatusEnum
  OrderStatus_REJECTED :: OrderStatusEnum
  OrderStatus_PARTIALLY_FILLED :: OrderStatusEnum
  OrderStatus_FILLED :: OrderStatusEnum
  OrderStatus_CANCELED :: OrderStatusEnum
  OrderStatus_NullValue :: OrderStatusEnum

definition OrderStatus_values :: OrderStatusValues where
  "OrderStatus_values = \<lparr>OrderStatus_ACCEPTED = 0, OrderStatus_REJECTED = 1, OrderStatus_PARTIALLY_FILLED = 2, OrderStatus_FILLED = 3, OrderStatus_CANCELED = 4, OrderStatus_NullValue = -128\<rparr>"

definition OrderStatusEnum_Encode :: "OrderStatusEnum \<Rightarrow> bytes \<Rightarrow> bytes" where
  "OrderStatusEnum_Encode st w = WriteInt8 w st"

definition OrderStatusEnum_Decode :: "bytes \<Rightarrow> werror + OrderStatusEnum \<times> bytes" where
  "OrderStatusEnum_Decode r = ReadInt8 r"

definition OrderStatusEnum_RangeCheck :: "OrderStatusEnum \<Rightarrow> u16 \<Rightarrow> u16 \<Rightarrow> werror + unit" where
  "OrderStatusEnum_RangeCheck st actingVersion schemaVersion =
     (if schemaVersion < actingVersion then Inr ()
      else if st \<in> set [OrderStatus_ACCEPTED OrderStatus_values, OrderStatus_REJECTED OrderStatus_values, OrderStatus_PARTIALLY_FILLED OrderStatus_values, OrderStatus_FILLED OrderStatus_values, OrderStatus_CANCELED OrderStatus_values, OrderStatus_NullValue OrderStatus_values]
      then Inr () else Inl (RangeCheckFailed ''OrderStatus''))"

definition OrderStatusEnum_EncodedLength :: i64 where
  "OrderStatusEnum_EncodedLength = 1"

definition OrderStatusEnum_ACCEPTED_meta :: valueMeta where
  "OrderStatusEnum_ACCEPTED_meta = \<lparr>valueSince = 0, valueDeprecated = 0\<rparr>"

definition OrderStatusEnum_REJECTED_meta :: valueMeta where
  "OrderStatusEnum_REJECTED_meta = \<lparr>valueSince = 0, valueDeprecated = 0\<rparr>"

definition OrderStatusEnum_PARTIALLY_FILLED_meta :: valueMeta where
  "OrderStatusEnum_PARTIALLY_FILLED_meta = \<lparr>valueSince = 0, valueDeprecated = 0\<rparr>"

definition OrderStatusEnum_FILLED_meta :: valueMeta where
  "OrderStatusEnum_FILLED_meta = \<lparr>valueSince = 0, valueDeprecated = 0\<rparr>"

definition OrderStatusEnum_CANCELED_meta :: valueMeta where
  "OrderStatusEnum_CANCELED_meta = \<lparr>valueSince = 0, valueDeprecated = 0\<rparr>"

section \<open>\<open>RejectReasonEnum\<close>\<close>

type_synonym RejectReasonEnum = i8

record RejectReasonValues =
  RejectReason_NONE :: RejectReasonEnum
  RejectReason_BAD_QTY :: RejectReasonEnum
  RejectReason_BAD_PRICE :: RejectReasonEnum
  RejectReason_UNKNOWN_ORDER :: RejectReasonEnum
  RejectReason_NOT_OWNER :: RejectReasonEnum
  RejectReason_NullValue :: RejectReasonEnum

definition RejectReason_values :: RejectReasonValues where
  "RejectReason_values = \<lparr>RejectReason_NONE = 0, RejectReason_BAD_QTY = 1, RejectReason_BAD_PRICE = 2, RejectReason_UNKNOWN_ORDER = 3, RejectReason_NOT_OWNER = 4, RejectReason_NullValue = -128\<rparr>"

definition RejectReasonEnum_Encode :: "RejectReasonEnum \<Rightarrow> bytes \<Rightarrow> bytes" where
  "RejectReasonEnum_Encode r w = WriteInt8 w r"

definition RejectReasonEnum_Decode :: "bytes \<Rightarrow> werror + RejectReasonEnum \<times> bytes" where
  "RejectReasonEnum_Decode r = ReadInt8 r"

definition RejectReasonEnum_RangeCheck :: "RejectReasonEnum \<Rightarrow> u16 \<Rightarrow> u16 \<Rightarrow> werror + unit" where
  "RejectReasonEnum_RangeCheck r actingVersion schemaVersion =
     (if schemaVersion < actingVersion then Inr ()
      else if r \<in> set [RejectReason_NONE RejectReason_values, RejectReason_BAD_QTY RejectReason_values, RejectReason_BAD_PRICE RejectReason_values, RejectReason_UNKNOWN_ORDER RejectReason_values, RejectReason_NOT_OWNER RejectReason_values, RejectReason_NullValue RejectReason_values]
      then Inr () else Inl (RangeCheckFailed ''RejectReason''))"

definition RejectReasonEnum_EncodedLength :: i64 where
  "RejectReasonEnum_EncodedLength = 1"

definition RejectReasonEnum_NONE_meta :: valueMeta where
  "RejectReasonEnum_NONE_meta = \<lparr>valueSince = 0, valueDeprecated = 0\<rparr>"

definition RejectReasonEnum_BAD_QTY_meta :: valueMeta where
  "RejectReasonEnum_BAD_QTY_meta = \<lparr>valueSince = 0, valueDeprecated = 0\<rparr>"

definition RejectReasonEnum_BAD_PRICE_meta :: valueMeta where
  "RejectReasonEnum_BAD_PRICE_meta = \<lparr>valueSince = 0, valueDeprecated = 0\<rparr>"

definition RejectReasonEnum_UNKNOWN_ORDER_meta :: valueMeta where
  "RejectReasonEnum_UNKNOWN_ORDER_meta = \<lparr>valueSince = 0, valueDeprecated = 0\<rparr>"

definition RejectReasonEnum_NOT_OWNER_meta :: valueMeta where
  "RejectReasonEnum_NOT_OWNER_meta = \<lparr>valueSince = 0, valueDeprecated = 0\<rparr>"

section \<open>\<open>MessageHeader\<close>\<close>

definition MessageHeader_BlockLength :: u16Field where
  "MessageHeader_BlockLength = \<lparr>u16Min = 0, u16Max = maxUint16 - 1, u16Null = maxUint16, u16Since = 0, u16Deprecated = 0\<rparr>"

definition MessageHeader_TemplateId :: u16Field where
  "MessageHeader_TemplateId = \<lparr>u16Min = 0, u16Max = maxUint16 - 1, u16Null = maxUint16, u16Since = 0, u16Deprecated = 0\<rparr>"

definition MessageHeader_SchemaId :: u16Field where
  "MessageHeader_SchemaId = \<lparr>u16Min = 0, u16Max = maxUint16 - 1, u16Null = maxUint16, u16Since = 0, u16Deprecated = 0\<rparr>"

definition MessageHeader_Version :: u16Field where
  "MessageHeader_Version = \<lparr>u16Min = 0, u16Max = maxUint16 - 1, u16Null = maxUint16, u16Since = 0, u16Deprecated = 0\<rparr>"

definition u16InActingVersion :: "u16Field \<Rightarrow> u16 \<Rightarrow> bool" where
  "u16InActingVersion f actingVersion \<longleftrightarrow> u16Since f \<le> actingVersion"

record MessageHeader =
  mh_BlockLength :: u16
  mh_TemplateId :: u16
  mh_SchemaId :: u16
  mh_Version :: u16

definition MessageHeader_Encode :: "MessageHeader \<Rightarrow> bytes \<Rightarrow> bytes" where
  "MessageHeader_Encode m w =
     (let w = WriteUint16 w (mh_BlockLength m) in
      let w = WriteUint16 w (mh_TemplateId m) in
      let w = WriteUint16 w (mh_SchemaId m) in
      let w = WriteUint16 w (mh_Version m) in w)"

definition MessageHeader_Decode :: "u16 \<Rightarrow> bytes \<Rightarrow> werror + MessageHeader \<times> bytes" where
  "MessageHeader_Decode actingVersion r =
     bindE (if \<not> u16InActingVersion MessageHeader_BlockLength actingVersion
            then Inr (u16Null MessageHeader_BlockLength, r) else ReadUint16 r) (\<lambda>(xBlockLength, r).
     bindE (if \<not> u16InActingVersion MessageHeader_TemplateId actingVersion
            then Inr (u16Null MessageHeader_TemplateId, r) else ReadUint16 r) (\<lambda>(xTemplateId, r).
     bindE (if \<not> u16InActingVersion MessageHeader_SchemaId actingVersion
            then Inr (u16Null MessageHeader_SchemaId, r) else ReadUint16 r) (\<lambda>(xSchemaId, r).
     bindE (if \<not> u16InActingVersion MessageHeader_Version actingVersion
            then Inr (u16Null MessageHeader_Version, r) else ReadUint16 r) (\<lambda>(xVersion, r).
     Inr (\<lparr>mh_BlockLength = xBlockLength, mh_TemplateId = xTemplateId, mh_SchemaId = xSchemaId,
           mh_Version = xVersion\<rparr>, r)))))"

definition checkUint16 :: "u16Field \<Rightarrow> u16 \<Rightarrow> u16 \<Rightarrow> string \<Rightarrow> werror + unit" where
  "checkUint16 f actingVersion x name =
     (if u16InActingVersion f actingVersion \<and> (x < u16Min f \<or> u16Max f < x)
      then Inl (RangeCheckFailed name) else Inr ())"

definition MessageHeader_RangeCheck :: "MessageHeader \<Rightarrow> u16 \<Rightarrow> u16 \<Rightarrow> werror + unit" where
  "MessageHeader_RangeCheck m actingVersion schemaVersion =
     bindE (checkUint16 MessageHeader_BlockLength actingVersion (mh_BlockLength m) ''m.BlockLength'') (\<lambda>_.
     bindE (checkUint16 MessageHeader_TemplateId actingVersion (mh_TemplateId m) ''m.TemplateId'') (\<lambda>_.
     bindE (checkUint16 MessageHeader_SchemaId actingVersion (mh_SchemaId m) ''m.SchemaId'') (\<lambda>_.
     checkUint16 MessageHeader_Version actingVersion (mh_Version m) ''m.Version'')))"

section \<open>Facts\<close>

lemma sint_minInt64 [simp]: "sint minInt64 = - (2 ^ 63)"
  by (simp add: minInt64_def)

lemma sint_maxInt64 [simp]: "sint maxInt64 = 2 ^ 63 - 1"
  by (simp add: maxInt64_def)

text \<open>\<open>MessageHeaderInit\<close> has nothing to initialise.\<close>

definition MessageHeaderInit :: "MessageHeader \<Rightarrow> MessageHeader" where
  "MessageHeaderInit m = m"

definition MessageHeader_EncodedLength :: i64 where
  "MessageHeader_EncodedLength = 8"

lemma MessageHeader_in_version [simp]:
  "u16InActingVersion MessageHeader_BlockLength v" "u16InActingVersion MessageHeader_TemplateId v"
  "u16InActingVersion MessageHeader_SchemaId v" "u16InActingVersion MessageHeader_Version v"
  by (simp_all add: u16InActingVersion_def MessageHeader_BlockLength_def MessageHeader_TemplateId_def
      MessageHeader_SchemaId_def MessageHeader_Version_def)

lemma MessageHeader_roundtrip:
  "MessageHeader_Decode v (MessageHeader_Encode m [] @ r) = Inr (m, r)"
  by (cases m) (simp add: MessageHeader_Decode_def MessageHeader_Encode_def Let_def wire_simps)

lemma MessageHeader_Encode_append: "MessageHeader_Encode m w = w @ MessageHeader_Encode m []"
  by (simp add: MessageHeader_Encode_def Let_def WriteUint16_def)

lemma MessageHeader_length [simp]: "length (MessageHeader_Encode m w) = length w + 8"
  by (simp add: MessageHeader_Encode_def Let_def)

text \<open>The declared lengths are the lengths of the encodings.\<close>

lemma EncodedLength_ok:
  "length (SideEnum_Encode s w) = length w + unat SideEnum_EncodedLength"
  "length (OrderStatusEnum_Encode st w) = length w + unat OrderStatusEnum_EncodedLength"
  "length (RejectReasonEnum_Encode rr w) = length w + unat RejectReasonEnum_EncodedLength"
  "length (MessageHeader_Encode m w) = length w + unat MessageHeader_EncodedLength"
  by (simp_all add: SideEnum_Encode_def OrderStatusEnum_Encode_def RejectReasonEnum_Encode_def
      SideEnum_EncodedLength_def OrderStatusEnum_EncodedLength_def RejectReasonEnum_EncodedLength_def
      MessageHeader_EncodedLength_def)

end
