(* ===== verification/Codecs.thy ===== *)
theory Codecs
  imports Codec_Types
begin

text \<open>
  The five messages of the protocol (\<open>NewOrder.go\<close>, \<open>CancelOrder.go\<close>, \<open>ExecutionReport.go\<close>,
  \<open>TradeEvent.go\<close>, \<open>BookUpdate.go\<close>): their descriptors, structs, range checks, encoders and decoders,
  and the contract \<open>sbe_message\<close> all of them meet.

  \<open>Decode\<close> takes the message it fills in, which matters only for an enumeration field that is not in
  the acting version and keeps its value; \<open>io.CopyN\<close> to \<open>ioutil.Discard\<close> drops what is there and its
  error is ignored.
\<close>

section \<open>Descriptors\<close>

definition NewOrder_meta :: sbeMeta where
  "NewOrder_meta = \<lparr>SbeBlockLength = 25, SbeTemplateId = 1, SbeSchemaId = 901, SbeSchemaVersion = 1,
     SbeSemanticType = '''', SbeSemanticVersion = ''1.0''\<rparr>"

definition NewOrder_ClientOrderId :: i64Field where
  "NewOrder_ClientOrderId = \<lparr>fieldId = 1, sinceVersion = 0, deprecated = 0, metaAttribute = requiredAttribute,
     minValue = minInt64 + 1, maxValue = maxInt64, nullValue = minInt64\<rparr>"

definition NewOrder_Side :: fieldMeta where
  "NewOrder_Side = \<lparr>fieldId = 2, sinceVersion = 0, deprecated = 0, metaAttribute = requiredAttribute\<rparr>"

definition NewOrder_Price :: i64Field where
  "NewOrder_Price = \<lparr>fieldId = 3, sinceVersion = 0, deprecated = 0, metaAttribute = requiredAttribute,
     minValue = minInt64 + 1, maxValue = maxInt64, nullValue = minInt64\<rparr>"

definition NewOrder_Qty :: i64Field where
  "NewOrder_Qty = \<lparr>fieldId = 4, sinceVersion = 0, deprecated = 0, metaAttribute = requiredAttribute,
     minValue = minInt64 + 1, maxValue = maxInt64, nullValue = minInt64\<rparr>"

definition CancelOrder_meta :: sbeMeta where
  "CancelOrder_meta = \<lparr>SbeBlockLength = 8, SbeTemplateId = 2, SbeSchemaId = 901, SbeSchemaVersion = 1,
     SbeSemanticType = '''', SbeSemanticVersion = ''1.0''\<rparr>"

definition CancelOrder_OrderId :: i64Field where
  "CancelOrder_OrderId = \<lparr>fieldId = 1, sinceVersion = 0, deprecated = 0, metaAttribute = requiredAttribute,
     minValue = minInt64 + 1, maxValue = maxInt64, nullValue = minInt64\<rparr>"

definition ExecutionReport_meta :: sbeMeta where
  "ExecutionReport_meta = \<lparr>SbeBlockLength = 51, SbeTemplateId = 10, SbeSchemaId = 901, SbeSchemaVersion = 1,
     SbeSemanticType = '''', SbeSemanticVersion = ''1.0''\<rparr>"

definition ExecutionReport_OrderId :: i64Field where
  "ExecutionReport_OrderId = \<lparr>fieldId = 1, sinceVersion = 0, deprecated = 0, metaAttribute = requiredAttribute,
     minValue = minInt64 + 1, maxValue = maxInt64, nullValue = minInt64\<rparr>"

definition ExecutionReport_ClientOrderId :: i64Field where
  "ExecutionReport_ClientOrderId = \<lparr>fieldId = 2, sinceVersion = 0, deprecated = 0, metaAttribute = requiredAttribute,
     minValue = minInt64 + 1, maxValue = maxInt64, nullValue = minInt64\<rparr>"

definition ExecutionReport_Status :: fieldMeta where
  "ExecutionReport_Status = \<lparr>fieldId = 3, sinceVersion = 0, deprecated = 0, metaAttribute = requiredAttribute\<rparr>"

definition ExecutionReport_Reason :: fieldMeta where
  "ExecutionReport_Reason = \<lparr>fieldId = 4, sinceVersion = 0, deprecated = 0, metaAttribute = requiredAttribute\<rparr>"

definition ExecutionReport_Side :: fieldMeta where
  "ExecutionReport_Side = \<lparr>fieldId = 5, sinceVersion = 0, deprecated = 0, metaAttribute = requiredAttribute\<rparr>"

definition ExecutionReport_Price :: i64Field where
  "ExecutionReport_Price = \<lparr>fieldId = 6, sinceVersion = 0, deprecated = 0, metaAttribute = requiredAttribute,
     minValue = minInt64 + 1, maxValue = maxInt64, nullValue = minInt64\<rparr>"

definition ExecutionReport_Qty :: i64Field where
  "ExecutionReport_Qty = \<lparr>fieldId = 7, sinceVersion = 0, deprecated = 0, metaAttribute = requiredAttribute,
     minValue = minInt64 + 1, maxValue = maxInt64, nullValue = minInt64\<rparr>"

definition ExecutionReport_RemainingQty :: i64Field where
  "ExecutionReport_RemainingQty = \<lparr>fieldId = 8, sinceVersion = 0, deprecated = 0, metaAttribute = requiredAttribute,
     minValue = minInt64 + 1, maxValue = maxInt64, nullValue = minInt64\<rparr>"

definition ExecutionReport_Timestamp :: i64Field where
  "ExecutionReport_Timestamp = \<lparr>fieldId = 9, sinceVersion = 0, deprecated = 0, metaAttribute = requiredAttribute,
     minValue = minInt64 + 1, maxValue = maxInt64, nullValue = minInt64\<rparr>"

definition TradeEvent_meta :: sbeMeta where
  "TradeEvent_meta = \<lparr>SbeBlockLength = 40, SbeTemplateId = 11, SbeSchemaId = 901, SbeSchemaVersion = 1,
     SbeSemanticType = '''', SbeSemanticVersion = ''1.0''\<rparr>"

definition TradeEvent_Price :: i64Field where
  "TradeEvent_Price = \<lparr>fieldId = 1, sinceVersion = 0, deprecated = 0, metaAttribute = requiredAttribute,
     minValue = minInt64 + 1, maxValue = maxInt64, nullValue = minInt64\<rparr>"

definition TradeEvent_Qty :: i64Field where
  "TradeEvent_Qty = \<lparr>fieldId = 2, sinceVersion = 0, deprecated = 0, metaAttribute = requiredAttribute,
     minValue = minInt64 + 1, maxValue = maxInt64, nullValue = minInt64\<rparr>"

definition TradeEvent_MakerOrderId :: i64Field where
  "TradeEvent_MakerOrderId = \<lparr>fieldId = 3, sinceVersion = 0, deprecated = 0, metaAttribute = requiredAttribute,
     minValue = minInt64 + 1, maxValue = maxInt64, nullValue = minInt64\<rparr>"

definition TradeEvent_TakerOrderId :: i64Field where
  "TradeEvent_TakerOrderId = \<lparr>fieldId = 4, sinceVersion = 0, deprecated = 0, metaAttribute = requiredAttribute,
     minValue = minInt64 + 1, maxValue = maxInt64, nullValue = minInt64\<rparr>"

definition TradeEvent_Timestamp :: i64Field where
  "TradeEvent_Timestamp = \<lparr>fieldId = 5, sinceVersion = 0, deprecated = 0, metaAttribute = requiredAttribute,
     minValue = minInt64 + 1, maxValue = maxInt64, nullValue = minInt64\<rparr>"

definition BookUpdate_meta :: sbeMeta where
  "BookUpdate_meta = \<lparr>SbeBlockLength = 25, SbeTemplateId = 12, SbeSchemaId = 901, SbeSchemaVersion = 1,
     SbeSemanticType = '''', SbeSemanticVersion = ''1.0''\<rparr>"

definition BookUpdate_Side :: fieldMeta where
  "BookUpdate_Side = \<lparr>fieldId = 1, sinceVersion = 0, deprecated = 0, metaAttribute = requiredAttribute\<rparr>"

definition BookUpdate_Price :: i64Field where
  "BookUpdate_Price = \<lparr>fieldId = 2, sinceVersion = 0, deprecated = 0, metaAttribute = requiredAttribute,
     minValue = minInt64 + 1, maxValue = maxInt64, nullValue = minInt64\<rparr>"

definition BookUpdate_AggregateQty :: i64Field where
  "BookUpdate_AggregateQty = \<lparr>fieldId = 3, sinceVersion = 0, deprecated = 0, metaAttribute = requiredAttribute,
     minValue = minInt64 + 1, maxValue = maxInt64, nullValue = minInt64\<rparr>"

definition BookUpdate_Timestamp :: i64Field where
  "BookUpdate_Timestamp = \<lparr>fieldId = 4, sinceVersion = 0, deprecated = 0, metaAttribute = requiredAttribute,
     minValue = minInt64 + 1, maxValue = maxInt64, nullValue = minInt64\<rparr>"

section \<open>\<open>NewOrder\<close>\<close>

record NewOrder =
  no_ClientOrderId :: i64
  no_Side :: SideEnum
  no_Price :: i64
  no_Qty :: i64

definition NewOrder_RangeCheck :: "NewOrder \<Rightarrow> u16 \<Rightarrow> u16 \<Rightarrow> werror + unit" where
  "NewOrder_RangeCheck n actingVersion schemaVersion =
     bindE (checkInt64 NewOrder_ClientOrderId actingVersion (no_ClientOrderId n) ''n.ClientOrderId'') (\<lambda>_.
     bindE (SideEnum_RangeCheck (no_Side n) actingVersion schemaVersion) (\<lambda>_.
     bindE (checkInt64 NewOrder_Price actingVersion (no_Price n) ''n.Price'') (\<lambda>_.
     checkInt64 NewOrder_Qty actingVersion (no_Qty n) ''n.Qty'')))"

definition NewOrderInit :: "NewOrder \<Rightarrow> NewOrder" where
  "NewOrderInit n = n"

definition NewOrder_Encode :: "NewOrder \<Rightarrow> bool \<Rightarrow> bytes \<Rightarrow> werror + bytes" where
  "NewOrder_Encode n doRangeCheck w = bindE
     (if doRangeCheck then NewOrder_RangeCheck n (SbeSchemaVersion NewOrder_meta) (SbeSchemaVersion NewOrder_meta) else Inr ())
     (\<lambda>_.
       let w = WriteInt64 w (no_ClientOrderId n) in
       let w = SideEnum_Encode (no_Side n) w in
       let w = WriteInt64 w (no_Price n) in
       let w = WriteInt64 w (no_Qty n) in
       Inr w)"

definition NewOrder_Decode :: "NewOrder \<Rightarrow> u16 \<Rightarrow> u16 \<Rightarrow> bool \<Rightarrow> bytes \<Rightarrow> werror + NewOrder \<times> bytes" where
  "NewOrder_Decode n actingVersion blockLength doRangeCheck r =
     bindE (if \<not> inActingVersion NewOrder_ClientOrderId actingVersion then Inr (nullValue NewOrder_ClientOrderId, r) else ReadInt64 r)
       (\<lambda>(xClientOrderId, r).
     bindE (if inActingVersion NewOrder_Side actingVersion then SideEnum_Decode r else Inr (no_Side n, r))
       (\<lambda>(xSide, r).
     bindE (if \<not> inActingVersion NewOrder_Price actingVersion then Inr (nullValue NewOrder_Price, r) else ReadInt64 r)
       (\<lambda>(xPrice, r).
     bindE (if \<not> inActingVersion NewOrder_Qty actingVersion then Inr (nullValue NewOrder_Qty, r) else ReadInt64 r)
       (\<lambda>(xQty, r).
     let n = \<lparr>no_ClientOrderId = xClientOrderId, no_Side = xSide, no_Price = xPrice, no_Qty = xQty\<rparr>;
       r = (if SbeSchemaVersion NewOrder_meta < actingVersion \<and> SbeBlockLength NewOrder_meta < blockLength
              then drop (unat (blockLength - SbeBlockLength NewOrder_meta)) r else r)
     in bindE (if doRangeCheck then NewOrder_RangeCheck n actingVersion (SbeSchemaVersion NewOrder_meta) else Inr ())
       (\<lambda>_. Inr (n, r))))))"

section \<open>\<open>CancelOrder\<close>\<close>

record CancelOrder =
  co_OrderId :: i64

definition CancelOrder_RangeCheck :: "CancelOrder \<Rightarrow> u16 \<Rightarrow> u16 \<Rightarrow> werror + unit" where
  "CancelOrder_RangeCheck c actingVersion schemaVersion =
     checkInt64 CancelOrder_OrderId actingVersion (co_OrderId c) ''c.OrderId''"

definition CancelOrderInit :: "CancelOrder \<Rightarrow> CancelOrder" where
  "CancelOrderInit c = c"

definition CancelOrder_Encode :: "CancelOrder \<Rightarrow> bool \<Rightarrow> bytes \<Rightarrow> werror + bytes" where
  "CancelOrder_Encode c doRangeCheck w = bindE
     (if doRangeCheck then CancelOrder_RangeCheck c (SbeSchemaVersion CancelOrder_meta) (SbeSchemaVersion CancelOrder_meta) else Inr ())
     (\<lambda>_.
       let w = WriteInt64 w (co_OrderId c) in
       Inr w)"

definition CancelOrder_Decode :: "CancelOrder \<Rightarrow> u16 \<Rightarrow> u16 \<Rightarrow> bool \<Rightarrow> bytes \<Rightarrow> werror + CancelOrder \<times> bytes" where
  "CancelOrder_Decode c actingVersion blockLength doRangeCheck r =
     bindE (if \<not> inActingVersion CancelOrder_OrderId actingVersion then Inr (nullValue CancelOrder_OrderId, r) else ReadInt64 r)
       (\<lambda>(xOrderId, r).
     let c = \<lparr>co_OrderId = xOrderId\<rparr>;
       r = (if SbeSchemaVersion CancelOrder_meta < actingVersion \<and> SbeBlockLength CancelOrder_meta < blockLength
              then drop (unat (blockLength - SbeBlockLength CancelOrder_meta)) r else r)
     in bindE (if doRangeCheck then CancelOrder_RangeCheck c actingVersion (SbeSchemaVersion CancelOrder_meta) else Inr ())
       (\<lambda>_. Inr (c, r)))"

section \<open>\<open>ExecutionReport\<close>\<close>

record ExecutionReport =
  er_OrderId :: i64
  er_ClientOrderId :: i64
  er_Status :: OrderStatusEnum
  er_Reason :: RejectReasonEnum
  er_Side :: SideEnum
  er_Price :: i64
  er_Qty :: i64
  er_RemainingQty :: i64
  er_Timestamp :: i64

definition ExecutionReport_RangeCheck :: "ExecutionReport \<Rightarrow> u16 \<Rightarrow> u16 \<Rightarrow> werror + unit" where
  "ExecutionReport_RangeCheck e actingVersion schemaVersion =
     bindE (checkInt64 ExecutionReport_OrderId actingVersion (er_OrderId e) ''e.OrderId'') (\<lambda>_.
     bindE (checkInt64 ExecutionReport_ClientOrderId actingVersion (er_ClientOrderId e) ''e.ClientOrderId'') (\<lambda>_.
     bindE (OrderStatusEnum_RangeCheck (er_Status e) actingVersion schemaVersion) (\<lambda>_.
     bindE (RejectReasonEnum_RangeCheck (er_Reason e) actingVersion schemaVersion) (\<lambda>_.
     bindE (SideEnum_RangeCheck (er_Side e) actingVersion schemaVersion) (\<lambda>_.
     bindE (checkInt64 ExecutionReport_Price actingVersion (er_Price e) ''e.Price'') (\<lambda>_.
     bindE (checkInt64 ExecutionReport_Qty actingVersion (er_Qty e) ''e.Qty'') (\<lambda>_.
     bindE (checkInt64 ExecutionReport_RemainingQty actingVersion (er_RemainingQty e) ''e.RemainingQty'') (\<lambda>_.
     checkInt64 ExecutionReport_Timestamp actingVersion (er_Timestamp e) ''e.Timestamp''))))))))"

definition ExecutionReportInit :: "ExecutionReport \<Rightarrow> ExecutionReport" where
  "ExecutionReportInit e = e"

definition ExecutionReport_Encode :: "ExecutionReport \<Rightarrow> bool \<Rightarrow> bytes \<Rightarrow> werror + bytes" where
  "ExecutionReport_Encode e doRangeCheck w = bindE
     (if doRangeCheck then ExecutionReport_RangeCheck e (SbeSchemaVersion ExecutionReport_meta) (SbeSchemaVersion ExecutionReport_meta) else Inr ())
     (\<lambda>_.
       let w = WriteInt64 w (er_OrderId e) in
       let w = WriteInt64 w (er_ClientOrderId e) in
       let w = OrderStatusEnum_Encode (er_Status e) w in
       let w = RejectReasonEnum_Encode (er_Reason e) w in
       let w = SideEnum_Encode (er_Side e) w in
       let w = WriteInt64 w (er_Price e) in
       let w = WriteInt64 w (er_Qty e) in
       let w = WriteInt64 w (er_RemainingQty e) in
       let w = WriteInt64 w (er_Timestamp e) in
       Inr w)"

definition ExecutionReport_Decode :: "ExecutionReport \<Rightarrow> u16 \<Rightarrow> u16 \<Rightarrow> bool \<Rightarrow> bytes \<Rightarrow> werror + ExecutionReport \<times> bytes" where
  "ExecutionReport_Decode e actingVersion blockLength doRangeCheck r =
     bindE (if \<not> inActingVersion ExecutionReport_OrderId actingVersion then Inr (nullValue ExecutionReport_OrderId, r) else ReadInt64 r)
       (\<lambda>(xOrderId, r).
     bindE (if \<not> inActingVersion ExecutionReport_ClientOrderId actingVersion then Inr (nullValue ExecutionReport_ClientOrderId, r) else ReadInt64 r)
       (\<lambda>(xClientOrderId, r).
     bindE (if inActingVersion ExecutionReport_Status actingVersion then OrderStatusEnum_Decode r else Inr (er_Status e, r))
       (\<lambda>(xStatus, r).
     bindE (if inActingVersion ExecutionReport_Reason actingVersion then RejectReasonEnum_Decode r else Inr (er_Reason e, r))
       (\<lambda>(xReason, r).
     bindE (if inActingVersion ExecutionReport_Side actingVersion then SideEnum_Decode r else Inr (er_Side e, r))
       (\<lambda>(xSide, r).
     bindE (if \<not> inActingVersion ExecutionReport_Price actingVersion then Inr (nullValue ExecutionReport_Price, r) else ReadInt64 r)
       (\<lambda>(xPrice, r).
     bindE (if \<not> inActingVersion ExecutionReport_Qty actingVersion then Inr (nullValue ExecutionReport_Qty, r) else ReadInt64 r)
       (\<lambda>(xQty, r).
     bindE (if \<not> inActingVersion ExecutionReport_RemainingQty actingVersion then Inr (nullValue ExecutionReport_RemainingQty, r) else ReadInt64 r)
       (\<lambda>(xRemainingQty, r).
     bindE (if \<not> inActingVersion ExecutionReport_Timestamp actingVersion then Inr (nullValue ExecutionReport_Timestamp, r) else ReadInt64 r)
       (\<lambda>(xTimestamp, r).
     let e = \<lparr>er_OrderId = xOrderId, er_ClientOrderId = xClientOrderId, er_Status = xStatus, er_Reason = xReason, er_Side = xSide, er_Price = xPrice, er_Qty = xQty, er_RemainingQty = xRemainingQty, er_Timestamp = xTimestamp\<rparr>;
       r = (if SbeSchemaVersion ExecutionReport_meta < actingVersion \<and> SbeBlockLength ExecutionReport_meta < blockLength
              then drop (unat (blockLength - SbeBlockLength ExecutionReport_meta)) r else r)
     in bindE (if doRangeCheck then ExecutionReport_RangeCheck e actingVersion (SbeSchemaVersion ExecutionReport_meta) else Inr ())
       (\<lambda>_. Inr (e, r)))))))))))"

section \<open>\<open>TradeEvent\<close>\<close>

record TradeEvent =
  te_Price :: i64
  te_Qty :: i64
  te_MakerOrderId :: i64
  te_TakerOrderId :: i64
  te_Timestamp :: i64

definition TradeEvent_RangeCheck :: "TradeEvent \<Rightarrow> u16 \<Rightarrow> u16 \<Rightarrow> werror + unit" where
  "TradeEvent_RangeCheck t actingVersion schemaVersion =
     bindE (checkInt64 TradeEvent_Price actingVersion (te_Price t) ''t.Price'') (\<lambda>_.
     bindE (checkInt64 TradeEvent_Qty actingVersion (te_Qty t) ''t.Qty'') (\<lambda>_.
     bindE (checkInt64 TradeEvent_MakerOrderId actingVersion (te_MakerOrderId t) ''t.MakerOrderId'') (\<lambda>_.
     bindE (checkInt64 TradeEvent_TakerOrderId actingVersion (te_TakerOrderId t) ''t.TakerOrderId'') (\<lambda>_.
     checkInt64 TradeEvent_Timestamp actingVersion (te_Timestamp t) ''t.Timestamp''))))"

definition TradeEventInit :: "TradeEvent \<Rightarrow> TradeEvent" where
  "TradeEventInit t = t"

definition TradeEvent_Encode :: "TradeEvent \<Rightarrow> bool \<Rightarrow> bytes \<Rightarrow> werror + bytes" where
  "TradeEvent_Encode t doRangeCheck w = bindE
     (if doRangeCheck then TradeEvent_RangeCheck t (SbeSchemaVersion TradeEvent_meta) (SbeSchemaVersion TradeEvent_meta) else Inr ())
     (\<lambda>_.
       let w = WriteInt64 w (te_Price t) in
       let w = WriteInt64 w (te_Qty t) in
       let w = WriteInt64 w (te_MakerOrderId t) in
       let w = WriteInt64 w (te_TakerOrderId t) in
       let w = WriteInt64 w (te_Timestamp t) in
       Inr w)"

definition TradeEvent_Decode :: "TradeEvent \<Rightarrow> u16 \<Rightarrow> u16 \<Rightarrow> bool \<Rightarrow> bytes \<Rightarrow> werror + TradeEvent \<times> bytes" where
  "TradeEvent_Decode t actingVersion blockLength doRangeCheck r =
     bindE (if \<not> inActingVersion TradeEvent_Price actingVersion then Inr (nullValue TradeEvent_Price, r) else ReadInt64 r)
       (\<lambda>(xPrice, r).
     bindE (if \<not> inActingVersion TradeEvent_Qty actingVersion then Inr (nullValue TradeEvent_Qty, r) else ReadInt64 r)
       (\<lambda>(xQty, r).
     bindE (if \<not> inActingVersion TradeEvent_MakerOrderId actingVersion then Inr (nullValue TradeEvent_MakerOrderId, r) else ReadInt64 r)
       (\<lambda>(xMakerOrderId, r).
     bindE (if \<not> inActingVersion TradeEvent_TakerOrderId actingVersion then Inr (nullValue TradeEvent_TakerOrderId, r) else ReadInt64 r)
       (\<lambda>(xTakerOrderId, r).
     bindE (if \<not> inActingVersion TradeEvent_Timestamp actingVersion then Inr (nullValue TradeEvent_Timestamp, r) else ReadInt64 r)
       (\<lambda>(xTimestamp, r).
     let t = \<lparr>te_Price = xPrice, te_Qty = xQty, te_MakerOrderId = xMakerOrderId, te_TakerOrderId = xTakerOrderId, te_Timestamp = xTimestamp\<rparr>;
       r = (if SbeSchemaVersion TradeEvent_meta < actingVersion \<and> SbeBlockLength TradeEvent_meta < blockLength
              then drop (unat (blockLength - SbeBlockLength TradeEvent_meta)) r else r)
     in bindE (if doRangeCheck then TradeEvent_RangeCheck t actingVersion (SbeSchemaVersion TradeEvent_meta) else Inr ())
       (\<lambda>_. Inr (t, r)))))))"

section \<open>\<open>BookUpdate\<close>\<close>

record BookUpdate =
  bu_Side :: SideEnum
  bu_Price :: i64
  bu_AggregateQty :: i64
  bu_Timestamp :: i64

definition BookUpdate_RangeCheck :: "BookUpdate \<Rightarrow> u16 \<Rightarrow> u16 \<Rightarrow> werror + unit" where
  "BookUpdate_RangeCheck b actingVersion schemaVersion =
     bindE (SideEnum_RangeCheck (bu_Side b) actingVersion schemaVersion) (\<lambda>_.
     bindE (checkInt64 BookUpdate_Price actingVersion (bu_Price b) ''b.Price'') (\<lambda>_.
     bindE (checkInt64 BookUpdate_AggregateQty actingVersion (bu_AggregateQty b) ''b.AggregateQty'') (\<lambda>_.
     checkInt64 BookUpdate_Timestamp actingVersion (bu_Timestamp b) ''b.Timestamp'')))"

definition BookUpdateInit :: "BookUpdate \<Rightarrow> BookUpdate" where
  "BookUpdateInit b = b"

definition BookUpdate_Encode :: "BookUpdate \<Rightarrow> bool \<Rightarrow> bytes \<Rightarrow> werror + bytes" where
  "BookUpdate_Encode b doRangeCheck w = bindE
     (if doRangeCheck then BookUpdate_RangeCheck b (SbeSchemaVersion BookUpdate_meta) (SbeSchemaVersion BookUpdate_meta) else Inr ())
     (\<lambda>_.
       let w = SideEnum_Encode (bu_Side b) w in
       let w = WriteInt64 w (bu_Price b) in
       let w = WriteInt64 w (bu_AggregateQty b) in
       let w = WriteInt64 w (bu_Timestamp b) in
       Inr w)"

definition BookUpdate_Decode :: "BookUpdate \<Rightarrow> u16 \<Rightarrow> u16 \<Rightarrow> bool \<Rightarrow> bytes \<Rightarrow> werror + BookUpdate \<times> bytes" where
  "BookUpdate_Decode b actingVersion blockLength doRangeCheck r =
     bindE (if inActingVersion BookUpdate_Side actingVersion then SideEnum_Decode r else Inr (bu_Side b, r))
       (\<lambda>(xSide, r).
     bindE (if \<not> inActingVersion BookUpdate_Price actingVersion then Inr (nullValue BookUpdate_Price, r) else ReadInt64 r)
       (\<lambda>(xPrice, r).
     bindE (if \<not> inActingVersion BookUpdate_AggregateQty actingVersion then Inr (nullValue BookUpdate_AggregateQty, r) else ReadInt64 r)
       (\<lambda>(xAggregateQty, r).
     bindE (if \<not> inActingVersion BookUpdate_Timestamp actingVersion then Inr (nullValue BookUpdate_Timestamp, r) else ReadInt64 r)
       (\<lambda>(xTimestamp, r).
     let b = \<lparr>bu_Side = xSide, bu_Price = xPrice, bu_AggregateQty = xAggregateQty, bu_Timestamp = xTimestamp\<rparr>;
       r = (if SbeSchemaVersion BookUpdate_meta < actingVersion \<and> SbeBlockLength BookUpdate_meta < blockLength
              then drop (unat (blockLength - SbeBlockLength BookUpdate_meta)) r else r)
     in bindE (if doRangeCheck then BookUpdate_RangeCheck b actingVersion (SbeSchemaVersion BookUpdate_meta) else Inr ())
       (\<lambda>_. Inr (b, r))))))"

section \<open>The contract of a message codec\<close>

lemmas enum_codecs = SideEnum_Encode_def SideEnum_Decode_def OrderStatusEnum_Encode_def
  OrderStatusEnum_Decode_def RejectReasonEnum_Encode_def RejectReasonEnum_Decode_def

text \<open>Every field is present since version 0.\<close>

lemma in_version [simp]:
  "inActingVersion NewOrder_ClientOrderId v"
  "inActingVersion NewOrder_Side v"
  "inActingVersion NewOrder_Price v"
  "inActingVersion NewOrder_Qty v"
  "inActingVersion CancelOrder_OrderId v"
  "inActingVersion ExecutionReport_OrderId v"
  "inActingVersion ExecutionReport_ClientOrderId v"
  "inActingVersion ExecutionReport_Status v"
  "inActingVersion ExecutionReport_Reason v"
  "inActingVersion ExecutionReport_Side v"
  "inActingVersion ExecutionReport_Price v"
  "inActingVersion ExecutionReport_Qty v"
  "inActingVersion ExecutionReport_RemainingQty v"
  "inActingVersion ExecutionReport_Timestamp v"
  "inActingVersion TradeEvent_Price v"
  "inActingVersion TradeEvent_Qty v"
  "inActingVersion TradeEvent_MakerOrderId v"
  "inActingVersion TradeEvent_TakerOrderId v"
  "inActingVersion TradeEvent_Timestamp v"
  "inActingVersion BookUpdate_Side v"
  "inActingVersion BookUpdate_Price v"
  "inActingVersion BookUpdate_AggregateQty v"
  "inActingVersion BookUpdate_Timestamp v"
  by (simp_all add: inActingVersion_def NewOrder_ClientOrderId_def NewOrder_Side_def NewOrder_Price_def NewOrder_Qty_def CancelOrder_OrderId_def ExecutionReport_OrderId_def ExecutionReport_ClientOrderId_def ExecutionReport_Status_def ExecutionReport_Reason_def ExecutionReport_Side_def ExecutionReport_Price_def ExecutionReport_Qty_def ExecutionReport_RemainingQty_def ExecutionReport_Timestamp_def TradeEvent_Price_def TradeEvent_Qty_def TradeEvent_MakerOrderId_def TradeEvent_TakerOrderId_def TradeEvent_Timestamp_def BookUpdate_Side_def BookUpdate_Price_def BookUpdate_AggregateQty_def BookUpdate_Timestamp_def)

text \<open>The range of an \<open>int64\<close> field excludes only its null value.\<close>

lemma int64_range_check: "(x <s minInt64 + 1 \<or> maxInt64 <s x) \<longleftrightarrow> x = minInt64"
proof -
  have "sint (minInt64 + 1) = - (2 ^ 63) + 1" by (simp add: minInt64_def)
  then show ?thesis using sint_range64 [of x] sint_inj [of x minInt64] by (auto simp: signed_ord)
qed

lemma checkInt64_range:
  assumes "sinceVersion f = 0" "minValue f = minInt64 + 1" "maxValue f = maxInt64"
  shows "checkInt64 f v x s = (if x = minInt64 then Inl (RangeCheckFailed s) else Inr ())"
  using assms int64_range_check [of x] by (simp add: checkInt64_def inActingVersion_def)

lemma checkInt64_eq [simp]:
  "checkInt64 NewOrder_ClientOrderId v x s = (if x = minInt64 then Inl (RangeCheckFailed s) else Inr ())"
  "checkInt64 NewOrder_Price v x s = (if x = minInt64 then Inl (RangeCheckFailed s) else Inr ())"
  "checkInt64 NewOrder_Qty v x s = (if x = minInt64 then Inl (RangeCheckFailed s) else Inr ())"
  "checkInt64 CancelOrder_OrderId v x s = (if x = minInt64 then Inl (RangeCheckFailed s) else Inr ())"
  "checkInt64 ExecutionReport_OrderId v x s = (if x = minInt64 then Inl (RangeCheckFailed s) else Inr ())"
  "checkInt64 ExecutionReport_ClientOrderId v x s = (if x = minInt64 then Inl (RangeCheckFailed s) else Inr ())"
  "checkInt64 ExecutionReport_Price v x s = (if x = minInt64 then Inl (RangeCheckFailed s) else Inr ())"
  "checkInt64 ExecutionReport_Qty v x s = (if x = minInt64 then Inl (RangeCheckFailed s) else Inr ())"
  "checkInt64 ExecutionReport_RemainingQty v x s = (if x = minInt64 then Inl (RangeCheckFailed s) else Inr ())"
  "checkInt64 ExecutionReport_Timestamp v x s = (if x = minInt64 then Inl (RangeCheckFailed s) else Inr ())"
  "checkInt64 TradeEvent_Price v x s = (if x = minInt64 then Inl (RangeCheckFailed s) else Inr ())"
  "checkInt64 TradeEvent_Qty v x s = (if x = minInt64 then Inl (RangeCheckFailed s) else Inr ())"
  "checkInt64 TradeEvent_MakerOrderId v x s = (if x = minInt64 then Inl (RangeCheckFailed s) else Inr ())"
  "checkInt64 TradeEvent_TakerOrderId v x s = (if x = minInt64 then Inl (RangeCheckFailed s) else Inr ())"
  "checkInt64 TradeEvent_Timestamp v x s = (if x = minInt64 then Inl (RangeCheckFailed s) else Inr ())"
  "checkInt64 BookUpdate_Price v x s = (if x = minInt64 then Inl (RangeCheckFailed s) else Inr ())"
  "checkInt64 BookUpdate_AggregateQty v x s = (if x = minInt64 then Inl (RangeCheckFailed s) else Inr ())"
  "checkInt64 BookUpdate_Timestamp v x s = (if x = minInt64 then Inl (RangeCheckFailed s) else Inr ())"
  by (rule checkInt64_range; simp add: NewOrder_ClientOrderId_def NewOrder_Price_def NewOrder_Qty_def CancelOrder_OrderId_def ExecutionReport_OrderId_def ExecutionReport_ClientOrderId_def ExecutionReport_Price_def ExecutionReport_Qty_def ExecutionReport_RemainingQty_def ExecutionReport_Timestamp_def TradeEvent_Price_def TradeEvent_Qty_def TradeEvent_MakerOrderId_def TradeEvent_TakerOrderId_def TradeEvent_Timestamp_def BookUpdate_Price_def BookUpdate_AggregateQty_def BookUpdate_Timestamp_def)+

text \<open>Decoding \<open>body m\<close> gives \<open>m\<close> back, at any version, subject to the range check; a newer message's
  extra bytes are skipped; a short one is refused.\<close>

locale sbe_message =
  fixes Encode :: "'m \<Rightarrow> bool \<Rightarrow> bytes \<Rightarrow> werror + bytes"
    and Decode :: "'m \<Rightarrow> u16 \<Rightarrow> u16 \<Rightarrow> bool \<Rightarrow> bytes \<Rightarrow> werror + 'm \<times> bytes"
    and RangeCheck :: "'m \<Rightarrow> u16 \<Rightarrow> u16 \<Rightarrow> werror + unit"
    and meta :: sbeMeta
    and body :: "'m \<Rightarrow> bytes"
    and parse :: "bytes \<Rightarrow> 'm"
  assumes encode: "Encode m c w =
      bindE (if c then RangeCheck m (SbeSchemaVersion meta) (SbeSchemaVersion meta) else Inr ()) (\<lambda>_. Inr (w @ body m))"
    and body_length: "length (body m) = unat (SbeBlockLength meta)"
    and parse_body: "parse (body m @ r) = m"
    and body_parse: "unat (SbeBlockLength meta) \<le> length r \<Longrightarrow> body (parse r) = take (unat (SbeBlockLength meta)) r"
    and decode: "unat (SbeBlockLength meta) \<le> length r \<Longrightarrow> Decode z v bl c r =
      bindE (if c then RangeCheck (parse r) v (SbeSchemaVersion meta) else Inr ()) (\<lambda>_. Inr (parse r,
        drop ((if SbeSchemaVersion meta < v \<and> SbeBlockLength meta < bl
          then unat (bl - SbeBlockLength meta) else 0) + unat (SbeBlockLength meta)) r))"
    and short: "length r < unat (SbeBlockLength meta) \<Longrightarrow> \<not> isOk (Decode z v bl c r)"
begin

lemma body_inj: "body m = body m' \<Longrightarrow> m = m'"
  by (metis append_Nil2 parse_body)

text \<open>What the encoder wrote is read back, and nothing after it is touched.\<close>

lemma roundtrip:
  assumes "Encode m c w = Inr (w @ bs)"
  shows "bs = body m" "Decode z (SbeSchemaVersion meta) bl c (bs @ r) = Inr (m, r)"
proof -
  show bs: "bs = body m" using assms by (auto simp: encode bindE_Inr_iff)
  have "c \<Longrightarrow> RangeCheck m (SbeSchemaVersion meta) (SbeSchemaVersion meta) = Inr ()"
    using assms by (auto simp: encode bindE_Inr_iff)
  then show "Decode z (SbeSchemaVersion meta) bl c (bs @ r) = Inr (m, r)"
    using decode [of "body m @ r" z "SbeSchemaVersion meta" bl c] body_length [of m]
    by (cases c) (simp_all add: bs parse_body)
qed

text \<open>Encoding fails exactly when the range check does.\<close>

lemma encode_ok: "isOk (Encode m True w) \<longleftrightarrow> isOk (RangeCheck m (SbeSchemaVersion meta) (SbeSchemaVersion meta))"
  by (cases "RangeCheck m (SbeSchemaVersion meta) (SbeSchemaVersion meta)") (simp_all add: encode)

text \<open>A decoded message determines the bytes it came from.\<close>

lemma decode_canonical:
  assumes "Decode z v bl c r = Inr (m, r')"
  shows "take (unat (SbeBlockLength meta)) r = body m" "unat (SbeBlockLength meta) \<le> length r"
proof -
  show len: "unat (SbeBlockLength meta) \<le> length r"
    using assms short [of r z v bl c] by (force simp: not_le)
  show "take (unat (SbeBlockLength meta)) r = body m"
    using assms decode [OF len, of z v bl c] body_parse [OF len] by (auto simp: bindE_Inr_iff)
qed

text \<open>Forward compatibility: a longer block of a newer version decodes to the same message with the
  extension skipped.\<close>

lemma decode_newer:
  assumes "SbeSchemaVersion meta < v" and "unat bl = unat (SbeBlockLength meta) + length ext"
    and "isOk (RangeCheck m v (SbeSchemaVersion meta))"
  shows "Decode z v bl c (body m @ ext @ r) = Inr (m, r)"
proof -
  have rc: "c \<Longrightarrow> RangeCheck m v (SbeSchemaVersion meta) = Inr ()"
    using assms(3) by (auto simp: isOk_iff)
  have "(if SbeBlockLength meta < bl then unat (bl - SbeBlockLength meta) else 0) + unat (SbeBlockLength meta) = unat bl"
    using assms(2) by (auto simp: word_less_nat_alt unat_sub word_le_nat_alt)
  then show ?thesis
    using decode [of "body m @ ext @ r" z v bl c] assms body_length [of m] rc by (cases c) (simp_all add: parse_body)
qed

end

definition NewOrder_body :: "NewOrder \<Rightarrow> bytes" where
  "NewOrder_body n = WriteInt64 [] (no_ClientOrderId n) @ WriteInt8 [] (no_Side n) @ WriteInt64 [] (no_Price n) @ WriteInt64 [] (no_Qty n)"

definition NewOrder_parse :: "bytes \<Rightarrow> NewOrder" where
  "NewOrder_parse r = \<lparr>no_ClientOrderId = le64 r, no_Side = hd (drop 8 r), no_Price = le64 (drop 9 r), no_Qty = le64 (drop 17 r)\<rparr>"

interpretation no_codec: sbe_message NewOrder_Encode NewOrder_Decode NewOrder_RangeCheck NewOrder_meta NewOrder_body NewOrder_parse
proof
  fix n n' z :: NewOrder and c :: bool and w r :: bytes and vv bl :: u16
  show "NewOrder_Encode n c w = bindE (if c then NewOrder_RangeCheck n (SbeSchemaVersion NewOrder_meta) (SbeSchemaVersion NewOrder_meta) else Inr ())
      (\<lambda>_. Inr (w @ NewOrder_body n))"
    by (simp add: NewOrder_Encode_def NewOrder_body_def enum_codecs Let_def Write_append [of w] wire_simps)
  show "length (NewOrder_body n) = unat (SbeBlockLength NewOrder_meta)"
    by (simp add: NewOrder_body_def NewOrder_meta_def)
  show "NewOrder_parse (NewOrder_body n @ r) = n"
    by (cases n) (simp add: NewOrder_parse_def NewOrder_body_def)
  show "NewOrder_body (NewOrder_parse r) = take (unat (SbeBlockLength NewOrder_meta)) r" if "unat (SbeBlockLength NewOrder_meta) \<le> length r"
    using that by (simp add: NewOrder_body_def NewOrder_parse_def NewOrder_meta_def WriteInt64_le64 WriteInt8_hd take_join)
  show "NewOrder_Decode z vv bl c r = bindE (if c then NewOrder_RangeCheck (NewOrder_parse r) vv (SbeSchemaVersion NewOrder_meta) else Inr ())
      (\<lambda>_. Inr (NewOrder_parse r, drop ((if SbeSchemaVersion NewOrder_meta < vv \<and> SbeBlockLength NewOrder_meta < bl
          then unat (bl - SbeBlockLength NewOrder_meta) else 0) + unat (SbeBlockLength NewOrder_meta)) r))" if "unat (SbeBlockLength NewOrder_meta) \<le> length r"
    using that by (simp add: NewOrder_Decode_def NewOrder_parse_def NewOrder_meta_def enum_codecs Read_at Let_def)
  show "\<not> isOk (NewOrder_Decode z vv bl c r)" if "length r < unat (SbeBlockLength NewOrder_meta)"
    using that by (auto simp: NewOrder_Decode_def NewOrder_meta_def enum_codecs ReadInt64_eq ReadInt8_eq)
qed

definition CancelOrder_body :: "CancelOrder \<Rightarrow> bytes" where
  "CancelOrder_body c = WriteInt64 [] (co_OrderId c)"

definition CancelOrder_parse :: "bytes \<Rightarrow> CancelOrder" where
  "CancelOrder_parse r = \<lparr>co_OrderId = le64 r\<rparr>"

interpretation co_codec: sbe_message CancelOrder_Encode CancelOrder_Decode CancelOrder_RangeCheck CancelOrder_meta CancelOrder_body CancelOrder_parse
proof
  fix n n' z :: CancelOrder and c :: bool and w r :: bytes and vv bl :: u16
  show "CancelOrder_Encode n c w = bindE (if c then CancelOrder_RangeCheck n (SbeSchemaVersion CancelOrder_meta) (SbeSchemaVersion CancelOrder_meta) else Inr ())
      (\<lambda>_. Inr (w @ CancelOrder_body n))"
    by (simp add: CancelOrder_Encode_def CancelOrder_body_def enum_codecs Let_def Write_append [of w] wire_simps)
  show "length (CancelOrder_body n) = unat (SbeBlockLength CancelOrder_meta)"
    by (simp add: CancelOrder_body_def CancelOrder_meta_def)
  show "CancelOrder_parse (CancelOrder_body n @ r) = n"
    by (cases n) (simp add: CancelOrder_parse_def CancelOrder_body_def)
  show "CancelOrder_body (CancelOrder_parse r) = take (unat (SbeBlockLength CancelOrder_meta)) r" if "unat (SbeBlockLength CancelOrder_meta) \<le> length r"
    using that by (simp add: CancelOrder_body_def CancelOrder_parse_def CancelOrder_meta_def WriteInt64_le64 WriteInt8_hd take_join)
  show "CancelOrder_Decode z vv bl c r = bindE (if c then CancelOrder_RangeCheck (CancelOrder_parse r) vv (SbeSchemaVersion CancelOrder_meta) else Inr ())
      (\<lambda>_. Inr (CancelOrder_parse r, drop ((if SbeSchemaVersion CancelOrder_meta < vv \<and> SbeBlockLength CancelOrder_meta < bl
          then unat (bl - SbeBlockLength CancelOrder_meta) else 0) + unat (SbeBlockLength CancelOrder_meta)) r))" if "unat (SbeBlockLength CancelOrder_meta) \<le> length r"
    using that by (simp add: CancelOrder_Decode_def CancelOrder_parse_def CancelOrder_meta_def enum_codecs Read_at Let_def)
  show "\<not> isOk (CancelOrder_Decode z vv bl c r)" if "length r < unat (SbeBlockLength CancelOrder_meta)"
    using that by (auto simp: CancelOrder_Decode_def CancelOrder_meta_def enum_codecs ReadInt64_eq ReadInt8_eq)
qed

definition ExecutionReport_body :: "ExecutionReport \<Rightarrow> bytes" where
  "ExecutionReport_body e = WriteInt64 [] (er_OrderId e) @ WriteInt64 [] (er_ClientOrderId e) @ WriteInt8 [] (er_Status e) @ WriteInt8 [] (er_Reason e) @ WriteInt8 [] (er_Side e) @ WriteInt64 [] (er_Price e) @ WriteInt64 [] (er_Qty e) @ WriteInt64 [] (er_RemainingQty e) @ WriteInt64 [] (er_Timestamp e)"

definition ExecutionReport_parse :: "bytes \<Rightarrow> ExecutionReport" where
  "ExecutionReport_parse r = \<lparr>er_OrderId = le64 r, er_ClientOrderId = le64 (drop 8 r), er_Status = hd (drop 16 r), er_Reason = hd (drop 17 r), er_Side = hd (drop 18 r), er_Price = le64 (drop 19 r), er_Qty = le64 (drop 27 r), er_RemainingQty = le64 (drop 35 r), er_Timestamp = le64 (drop 43 r)\<rparr>"

interpretation er_codec: sbe_message ExecutionReport_Encode ExecutionReport_Decode ExecutionReport_RangeCheck ExecutionReport_meta ExecutionReport_body ExecutionReport_parse
proof
  fix n n' z :: ExecutionReport and c :: bool and w r :: bytes and vv bl :: u16
  show "ExecutionReport_Encode n c w = bindE (if c then ExecutionReport_RangeCheck n (SbeSchemaVersion ExecutionReport_meta) (SbeSchemaVersion ExecutionReport_meta) else Inr ())
      (\<lambda>_. Inr (w @ ExecutionReport_body n))"
    by (simp add: ExecutionReport_Encode_def ExecutionReport_body_def enum_codecs Let_def Write_append [of w] wire_simps)
  show "length (ExecutionReport_body n) = unat (SbeBlockLength ExecutionReport_meta)"
    by (simp add: ExecutionReport_body_def ExecutionReport_meta_def)
  show "ExecutionReport_parse (ExecutionReport_body n @ r) = n"
    by (cases n) (simp add: ExecutionReport_parse_def ExecutionReport_body_def)
  show "ExecutionReport_body (ExecutionReport_parse r) = take (unat (SbeBlockLength ExecutionReport_meta)) r" if "unat (SbeBlockLength ExecutionReport_meta) \<le> length r"
    using that by (simp add: ExecutionReport_body_def ExecutionReport_parse_def ExecutionReport_meta_def WriteInt64_le64 WriteInt8_hd take_join)
  show "ExecutionReport_Decode z vv bl c r = bindE (if c then ExecutionReport_RangeCheck (ExecutionReport_parse r) vv (SbeSchemaVersion ExecutionReport_meta) else Inr ())
      (\<lambda>_. Inr (ExecutionReport_parse r, drop ((if SbeSchemaVersion ExecutionReport_meta < vv \<and> SbeBlockLength ExecutionReport_meta < bl
          then unat (bl - SbeBlockLength ExecutionReport_meta) else 0) + unat (SbeBlockLength ExecutionReport_meta)) r))" if "unat (SbeBlockLength ExecutionReport_meta) \<le> length r"
    using that by (simp add: ExecutionReport_Decode_def ExecutionReport_parse_def ExecutionReport_meta_def enum_codecs Read_at Let_def)
  show "\<not> isOk (ExecutionReport_Decode z vv bl c r)" if "length r < unat (SbeBlockLength ExecutionReport_meta)"
    using that by (auto simp: ExecutionReport_Decode_def ExecutionReport_meta_def enum_codecs ReadInt64_eq ReadInt8_eq)
qed

definition TradeEvent_body :: "TradeEvent \<Rightarrow> bytes" where
  "TradeEvent_body t = WriteInt64 [] (te_Price t) @ WriteInt64 [] (te_Qty t) @ WriteInt64 [] (te_MakerOrderId t) @ WriteInt64 [] (te_TakerOrderId t) @ WriteInt64 [] (te_Timestamp t)"

definition TradeEvent_parse :: "bytes \<Rightarrow> TradeEvent" where
  "TradeEvent_parse r = \<lparr>te_Price = le64 r, te_Qty = le64 (drop 8 r), te_MakerOrderId = le64 (drop 16 r), te_TakerOrderId = le64 (drop 24 r), te_Timestamp = le64 (drop 32 r)\<rparr>"

interpretation te_codec: sbe_message TradeEvent_Encode TradeEvent_Decode TradeEvent_RangeCheck TradeEvent_meta TradeEvent_body TradeEvent_parse
proof
  fix n n' z :: TradeEvent and c :: bool and w r :: bytes and vv bl :: u16
  show "TradeEvent_Encode n c w = bindE (if c then TradeEvent_RangeCheck n (SbeSchemaVersion TradeEvent_meta) (SbeSchemaVersion TradeEvent_meta) else Inr ())
      (\<lambda>_. Inr (w @ TradeEvent_body n))"
    by (simp add: TradeEvent_Encode_def TradeEvent_body_def enum_codecs Let_def Write_append [of w] wire_simps)
  show "length (TradeEvent_body n) = unat (SbeBlockLength TradeEvent_meta)"
    by (simp add: TradeEvent_body_def TradeEvent_meta_def)
  show "TradeEvent_parse (TradeEvent_body n @ r) = n"
    by (cases n) (simp add: TradeEvent_parse_def TradeEvent_body_def)
  show "TradeEvent_body (TradeEvent_parse r) = take (unat (SbeBlockLength TradeEvent_meta)) r" if "unat (SbeBlockLength TradeEvent_meta) \<le> length r"
    using that by (simp add: TradeEvent_body_def TradeEvent_parse_def TradeEvent_meta_def WriteInt64_le64 WriteInt8_hd take_join)
  show "TradeEvent_Decode z vv bl c r = bindE (if c then TradeEvent_RangeCheck (TradeEvent_parse r) vv (SbeSchemaVersion TradeEvent_meta) else Inr ())
      (\<lambda>_. Inr (TradeEvent_parse r, drop ((if SbeSchemaVersion TradeEvent_meta < vv \<and> SbeBlockLength TradeEvent_meta < bl
          then unat (bl - SbeBlockLength TradeEvent_meta) else 0) + unat (SbeBlockLength TradeEvent_meta)) r))" if "unat (SbeBlockLength TradeEvent_meta) \<le> length r"
    using that by (simp add: TradeEvent_Decode_def TradeEvent_parse_def TradeEvent_meta_def enum_codecs Read_at Let_def)
  show "\<not> isOk (TradeEvent_Decode z vv bl c r)" if "length r < unat (SbeBlockLength TradeEvent_meta)"
    using that by (auto simp: TradeEvent_Decode_def TradeEvent_meta_def enum_codecs ReadInt64_eq ReadInt8_eq)
qed

definition BookUpdate_body :: "BookUpdate \<Rightarrow> bytes" where
  "BookUpdate_body b = WriteInt8 [] (bu_Side b) @ WriteInt64 [] (bu_Price b) @ WriteInt64 [] (bu_AggregateQty b) @ WriteInt64 [] (bu_Timestamp b)"

definition BookUpdate_parse :: "bytes \<Rightarrow> BookUpdate" where
  "BookUpdate_parse r = \<lparr>bu_Side = hd r, bu_Price = le64 (drop 1 r), bu_AggregateQty = le64 (drop 9 r), bu_Timestamp = le64 (drop 17 r)\<rparr>"

interpretation bu_codec: sbe_message BookUpdate_Encode BookUpdate_Decode BookUpdate_RangeCheck BookUpdate_meta BookUpdate_body BookUpdate_parse
proof
  fix n n' z :: BookUpdate and c :: bool and w r :: bytes and vv bl :: u16
  show "BookUpdate_Encode n c w = bindE (if c then BookUpdate_RangeCheck n (SbeSchemaVersion BookUpdate_meta) (SbeSchemaVersion BookUpdate_meta) else Inr ())
      (\<lambda>_. Inr (w @ BookUpdate_body n))"
    by (simp add: BookUpdate_Encode_def BookUpdate_body_def enum_codecs Let_def Write_append [of w] wire_simps)
  show "length (BookUpdate_body n) = unat (SbeBlockLength BookUpdate_meta)"
    by (simp add: BookUpdate_body_def BookUpdate_meta_def)
  show "BookUpdate_parse (BookUpdate_body n @ r) = n"
    by (cases n) (simp add: BookUpdate_parse_def BookUpdate_body_def)
  show "BookUpdate_body (BookUpdate_parse r) = take (unat (SbeBlockLength BookUpdate_meta)) r" if "unat (SbeBlockLength BookUpdate_meta) \<le> length r"
    using that by (simp add: BookUpdate_body_def BookUpdate_parse_def BookUpdate_meta_def WriteInt64_le64 WriteInt8_hd take_join)
  show "BookUpdate_Decode z vv bl c r = bindE (if c then BookUpdate_RangeCheck (BookUpdate_parse r) vv (SbeSchemaVersion BookUpdate_meta) else Inr ())
      (\<lambda>_. Inr (BookUpdate_parse r, drop ((if SbeSchemaVersion BookUpdate_meta < vv \<and> SbeBlockLength BookUpdate_meta < bl
          then unat (bl - SbeBlockLength BookUpdate_meta) else 0) + unat (SbeBlockLength BookUpdate_meta)) r))" if "unat (SbeBlockLength BookUpdate_meta) \<le> length r"
    using that by (simp add: BookUpdate_Decode_def BookUpdate_parse_def BookUpdate_meta_def enum_codecs Read_at Let_def)
  show "\<not> isOk (BookUpdate_Decode z vv bl c r)" if "length r < unat (SbeBlockLength BookUpdate_meta)"
    using that by (auto simp: BookUpdate_Decode_def BookUpdate_meta_def enum_codecs ReadInt64_eq ReadInt8_eq)
qed

end
