(* ===== verification/Encoding.thy ===== *)
theory Encoding
  imports Engine Codecs
begin

text \<open>
  Framing, \<open>src/go/service/encoding.go\<close>: the message interface, \<open>encodeFrame\<close>, and the translation of
  engine events into execution reports, trades and book updates.
\<close>

text \<open>The interface \<open>sbeMessage\<close>: the message's own \<open>Encode\<close> and its \<open>Sbe..\<close> accessors.\<close>

record sbeMessage =
  msgEncode :: "bool \<Rightarrow> bytes \<Rightarrow> werror + bytes"
  msgMeta :: sbeMeta

definition NewOrder_msg :: "NewOrder \<Rightarrow> sbeMessage" where
  "NewOrder_msg n = \<lparr>msgEncode = NewOrder_Encode n, msgMeta = NewOrder_meta\<rparr>"

definition CancelOrder_msg :: "CancelOrder \<Rightarrow> sbeMessage" where
  "CancelOrder_msg c = \<lparr>msgEncode = CancelOrder_Encode c, msgMeta = CancelOrder_meta\<rparr>"

definition ExecutionReport_msg :: "ExecutionReport \<Rightarrow> sbeMessage" where
  "ExecutionReport_msg e = \<lparr>msgEncode = ExecutionReport_Encode e, msgMeta = ExecutionReport_meta\<rparr>"

definition TradeEvent_msg :: "TradeEvent \<Rightarrow> sbeMessage" where
  "TradeEvent_msg t = \<lparr>msgEncode = TradeEvent_Encode t, msgMeta = TradeEvent_meta\<rparr>"

definition BookUpdate_msg :: "BookUpdate \<Rightarrow> sbeMessage" where
  "BookUpdate_msg b = \<lparr>msgEncode = BookUpdate_Encode b, msgMeta = BookUpdate_meta\<rparr>"

definition frameHeader :: "sbeMeta \<Rightarrow> MessageHeader" where
  "frameHeader meta = \<lparr>mh_BlockLength = SbeBlockLength meta, mh_TemplateId = SbeTemplateId meta,
     mh_SchemaId = SbeSchemaId meta, mh_Version = SbeSchemaVersion meta\<rparr>"

definition encodeFrame :: "sbeMessage \<Rightarrow> werror + bytes" where
  "encodeFrame msg =
     (let buf = MessageHeader_Encode (frameHeader (msgMeta msg)) []
      in bindE (msgEncode msg True buf) (\<lambda>buf. Inr buf))"

section \<open>Events to messages\<close>

fun statusOf :: "Event \<Rightarrow> OrderStatusEnum" where
  "statusOf ev = (case Type ev of
     EvAccepted \<Rightarrow> OrderStatus_ACCEPTED OrderStatus_values
   | EvRejected \<Rightarrow> OrderStatus_REJECTED OrderStatus_values
   | EvCanceled \<Rightarrow> OrderStatus_CANCELED OrderStatus_values
   | EvFilled \<Rightarrow> if RemainingQty ev = 0 then OrderStatus_FILLED OrderStatus_values
       else OrderStatus_PARTIALLY_FILLED OrderStatus_values
   | _ \<Rightarrow> OrderStatus_REJECTED OrderStatus_values)"

text \<open>\<open>codecs.RejectReasonEnum(ev.Reason)\<close>: the constants of the engine are numbered from 0.\<close>

fun reasonCode :: "RejectReason \<Rightarrow> RejectReasonEnum" where
  "reasonCode ReasonNone = 0"
| "reasonCode ReasonBadQty = 1"
| "reasonCode ReasonBadPrice = 2"
| "reasonCode ReasonUnknownOrder = 3"
| "reasonCode ReasonNotOwner = 4"

definition reportOf :: "Event \<Rightarrow> i64 \<Rightarrow> ExecutionReport" where
  "reportOf ev timestamp = \<lparr>er_OrderId = OrderId ev, er_ClientOrderId = ClientOrderId ev,
     er_Status = statusOf ev, er_Reason = reasonCode (Reason ev), er_Side = EvSide ev,
     er_Price = Price ev, er_Qty = Qty ev, er_RemainingQty = RemainingQty ev, er_Timestamp = timestamp\<rparr>"

definition encodeExecutionReport :: "Event \<Rightarrow> i64 \<Rightarrow> werror + bytes" where
  "encodeExecutionReport ev timestamp = encodeFrame (ExecutionReport_msg (reportOf ev timestamp))"

definition tradeOf :: "Event \<Rightarrow> i64 \<Rightarrow> TradeEvent" where
  "tradeOf ev timestamp = \<lparr>te_Price = Price ev, te_Qty = Qty ev, te_MakerOrderId = MakerOrderId ev,
     te_TakerOrderId = TakerOrderId ev, te_Timestamp = timestamp\<rparr>"

definition encodeTrade :: "Event \<Rightarrow> i64 \<Rightarrow> werror + bytes" where
  "encodeTrade ev timestamp = encodeFrame (TradeEvent_msg (tradeOf ev timestamp))"

definition updateOf :: "Event \<Rightarrow> i64 \<Rightarrow> BookUpdate" where
  "updateOf ev timestamp = \<lparr>bu_Side = EvSide ev, bu_Price = Price ev, bu_AggregateQty = AggregateQty ev,
     bu_Timestamp = timestamp\<rparr>"

definition encodeBookUpdate :: "Event \<Rightarrow> i64 \<Rightarrow> werror + bytes" where
  "encodeBookUpdate ev timestamp = encodeFrame (BookUpdate_msg (updateOf ev timestamp))"

section \<open>Frames\<close>

text \<open>The little-endian 16-bit value at a position of a frame.\<close>

definition u16At :: "bytes \<Rightarrow> nat \<Rightarrow> u16" where
  "u16At f i = ucast (f ! i) OR push_bit 8 (ucast (f ! (i + 1)))"

text \<open>A frame is the header of the message's descriptor and then its block.\<close>

definition frameBytes :: "sbeMeta \<Rightarrow> bytes \<Rightarrow> bytes" where
  "frameBytes meta body = MessageHeader_Encode (frameHeader meta) [] @ body"

lemma frameBytes_length [simp]: "length (frameBytes meta body) = 8 + length body"
  by (simp add: frameBytes_def)

lemma frameBytes_header:
  "u16At (frameBytes meta body) 0 = SbeBlockLength meta" "u16At (frameBytes meta body) 2 = SbeTemplateId meta"
  "u16At (frameBytes meta body) 4 = SbeSchemaId meta" "u16At (frameBytes meta body) 6 = SbeSchemaVersion meta"
  "drop 8 (frameBytes meta body) = body"
  by (simp_all add: frameBytes_def frameHeader_def MessageHeader_Encode_def Let_def WriteUint16_def u16At_def bytes16)

context sbe_message
begin

lemma frame_eq:
  "encodeFrame \<lparr>msgEncode = Encode m, msgMeta = meta\<rparr> =
   bindE (RangeCheck m (SbeSchemaVersion meta) (SbeSchemaVersion meta)) (\<lambda>_. Inr (frameBytes meta (body m)))"
  by (simp add: encodeFrame_def encode frameBytes_def bindE_assoc Let_def)

lemma frame_ok:
  "isOk (encodeFrame \<lparr>msgEncode = Encode m, msgMeta = meta\<rparr>) \<longleftrightarrow>
   isOk (RangeCheck m (SbeSchemaVersion meta) (SbeSchemaVersion meta))"
  unfolding frame_eq by (cases "RangeCheck m (SbeSchemaVersion meta) (SbeSchemaVersion meta)") simp_all

text \<open>What passes \<open>Decode\<close> has passed the range check.\<close>

lemma decode_checked:
  assumes "Decode z v bl True r = Inr (m, r')"
  shows "isOk (RangeCheck m v (SbeSchemaVersion meta))"
  using assms decode [OF decode_canonical(2) [OF assms], of z v bl True] by (auto simp: bindE_Inr_iff)

text \<open>A frame decodes to the message that was framed.\<close>

lemma frame_decode:
  assumes "encodeFrame \<lparr>msgEncode = Encode m, msgMeta = meta\<rparr> = Inr f"
  shows "f = frameBytes meta (body m)" "Decode z (SbeSchemaVersion meta) (SbeBlockLength meta) True (body m) = Inr (m, [])"
proof -
  have rc: "RangeCheck m (SbeSchemaVersion meta) (SbeSchemaVersion meta) = Inr ()" "f = frameBytes meta (body m)"
    using assms by (auto simp: frame_eq bindE_Inr_iff)
  then show "f = frameBytes meta (body m)" by simp
  have "Encode m True [] = Inr ([] @ body m)" using rc by (simp add: encode)
  from roundtrip(2) [OF this, of z "SbeBlockLength meta" "[]"]
  show "Decode z (SbeSchemaVersion meta) (SbeBlockLength meta) True (body m) = Inr (m, [])" by simp
qed

end

lemmas msg_defs = NewOrder_msg_def CancelOrder_msg_def ExecutionReport_msg_def TradeEvent_msg_def BookUpdate_msg_def

section \<open>When an event can be sent\<close>

definition sideKnown :: "i8 \<Rightarrow> bool" where
  "sideKnown s \<longleftrightarrow> s = 0 \<or> s = 1 \<or> s = -128"

lemma SideEnum_RangeCheck_iff: "isOk (SideEnum_RangeCheck s v sv) \<longleftrightarrow> sv < v \<or> sideKnown s"
  by (auto simp: SideEnum_RangeCheck_def Side_values_def sideKnown_def)

lemma isOk_bindE: "isOk (bindE m (\<lambda>_ :: unit. k)) \<longleftrightarrow> isOk m \<and> isOk k"
  by (cases m) simp_all

lemma isOk_if: "isOk (if c then Inl e else Inr x) \<longleftrightarrow> \<not> c"
  by simp

lemma status_reason_known [simp]:
  "isOk (OrderStatusEnum_RangeCheck (statusOf ev) v v)" "isOk (RejectReasonEnum_RangeCheck (reasonCode r) v v)"
  by (auto simp: OrderStatusEnum_RangeCheck_def split: EventType.splits)
    (cases r; simp add: RejectReasonEnum_RangeCheck_def RejectReason_values_def)

lemma encodeNewOrder_ok:
  "isOk (encodeFrame (NewOrder_msg m)) \<longleftrightarrow> no_ClientOrderId m \<noteq> minInt64 \<and> sideKnown (no_Side m)
     \<and> no_Price m \<noteq> minInt64 \<and> no_Qty m \<noteq> minInt64"
  unfolding NewOrder_msg_def no_codec.frame_ok
  by (simp add: NewOrder_RangeCheck_def isOk_bindE isOk_if SideEnum_RangeCheck_iff)

lemma encodeCancelOrder_ok: "isOk (encodeFrame (CancelOrder_msg m)) \<longleftrightarrow> co_OrderId m \<noteq> minInt64"
  unfolding CancelOrder_msg_def co_codec.frame_ok by (simp add: CancelOrder_RangeCheck_def isOk_if)

lemma encodeExecutionReport_ok:
  "isOk (encodeExecutionReport ev ts) \<longleftrightarrow> OrderId ev \<noteq> minInt64 \<and> ClientOrderId ev \<noteq> minInt64 \<and> sideKnown (EvSide ev)
     \<and> Price ev \<noteq> minInt64 \<and> Qty ev \<noteq> minInt64 \<and> RemainingQty ev \<noteq> minInt64 \<and> ts \<noteq> minInt64"
  unfolding encodeExecutionReport_def ExecutionReport_msg_def er_codec.frame_ok
  by (simp add: ExecutionReport_RangeCheck_def isOk_bindE reportOf_def isOk_if SideEnum_RangeCheck_iff
      del: statusOf.simps reasonCode.simps)

lemma encodeTrade_ok:
  "isOk (encodeTrade ev ts) \<longleftrightarrow> Price ev \<noteq> minInt64 \<and> Qty ev \<noteq> minInt64 \<and> MakerOrderId ev \<noteq> minInt64
     \<and> TakerOrderId ev \<noteq> minInt64 \<and> ts \<noteq> minInt64"
  unfolding encodeTrade_def TradeEvent_msg_def te_codec.frame_ok
  by (simp add: TradeEvent_RangeCheck_def isOk_bindE tradeOf_def isOk_if)

lemma encodeBookUpdate_ok:
  "isOk (encodeBookUpdate ev ts) \<longleftrightarrow> sideKnown (EvSide ev) \<and> Price ev \<noteq> minInt64 \<and> AggregateQty ev \<noteq> minInt64
     \<and> ts \<noteq> minInt64"
  unfolding encodeBookUpdate_def BookUpdate_msg_def bu_codec.frame_ok
  by (simp add: BookUpdate_RangeCheck_def isOk_bindE updateOf_def isOk_if SideEnum_RangeCheck_iff)

end
