(* ===== verification/Market.thy ===== *)
theory Market
  imports Engine
begin

text \<open>
  What price-time matching guarantees to the participants, proved on the specification and carried to
  the engine by the simulation: conservation of quantity, prices of trades, priority, an uncrossed
  book, market data that rebuilds the displayed depth, and cancellation.
\<close>

section \<open>Conservation\<close>

definition trades :: "Event list \<Rightarrow> Event list" where
  "trades es = filter (\<lambda>e. Type e = EvTrade) es"

definition traded :: "Event list \<Rightarrow> int" where
  "traded es = (\<Sum>e \<leftarrow> trades es. sint (Qty e))"

definition open_qty :: "order list \<Rightarrow> int" where
  "open_qty ms = (\<Sum>m \<leftarrow> ms. sint (qty m))"

lemma trades_simps [simp]:
  "trades [] = []" "trades (es @ fs) = trades es @ trades fs"
  "trades (fill_events m t f) = [tradeEvent m t (price m) f]"
  "trades (e # es) = (if Type e = EvTrade then e # trades es else trades es)"
  by (simp_all add: trades_def fill_events_def tradeEvent_def filledEvent_def zeroEvent_def)

lemma event_types [simp]:
  "Type (acceptedEvent x) = EvAccepted" "Type (bookUpdateEvent s p q) = EvBookUpdate"
  "Type (rejectedOrder c w) = EvRejected" "Type (rejectedCancel k o' w) = EvRejected"
  "Type (canceledEvent x) = EvCanceled" "Type (tradeEvent m t p f) = EvTrade" "Type (filledEvent x p f) = EvFilled"
  by (simp_all add: acceptedEvent_def bookUpdateEvent_def rejectedOrder_def rejectedCancel_def
      canceledEvent_def tradeEvent_def filledEvent_def)

lemma trade_fields [simp]:
  "Qty (tradeEvent m t p f) = f" "Price (tradeEvent m t p f) = p" "MakerOrderId (tradeEvent m t p f) = oid m"
  "TakerOrderId (tradeEvent m t p f) = oid t" "MakerOwner (tradeEvent m t p f) = owner m"
  "TakerOwner (tradeEvent m t p f) = owner t"
  by (simp_all add: tradeEvent_def)

lemma traded_simps [simp]:
  "traded [] = 0" "traded (es @ fs) = traded es + traded fs" "traded (fill_events m t f) = sint f"
  "traded (e # es) = (if Type e = EvTrade then sint (Qty e) else 0) + traded es"
  by (simp_all add: traded_def)

lemma trades_updates [simp]: "trades (map (\<lambda>p. bookUpdateEvent s p (f p)) ps) = []"
  by (induction ps) simp_all

lemma open_qty_simps [simp]:
  "open_qty [] = 0" "open_qty (m # ms) = sint (qty m) + open_qty ms"
  by (simp_all add: open_qty_def)

lemma spec_match_conserves:
  assumes "spec_match t ms = (es, t', ms', ps)" and "0 \<le> sint (qty t)" and "\<forall>m \<in> set ms. 0 <s qty m"
  shows "sint (qty t) = sint (qty t') + traded es" and "open_qty ms = open_qty ms' + traded es"
    and "0 \<le> sint (qty t')"
proof -
  have "0 \<le> sint (qty t) \<longrightarrow> (\<forall>m \<in> set ms. 0 <s qty m) \<longrightarrow>
    (case spec_match t ms of (es, t', ms', ps) \<Rightarrow> sint (qty t) = sint (qty t') + traded es
      \<and> open_qty ms = open_qty ms' + traded es \<and> 0 \<le> sint (qty t'))"
  proof (induction t ms rule: spec_match_induct)
    case (part t m ms)
    then have "sint (qty m - qty t) = sint (qty m) - sint (qty t)"
      by (intro sint_diff_pos) (auto simp: signed_ord)
    then show ?case by simp
  next
    case (full t m ms es t' ms' ps)
    then have "0 <s qty m \<longrightarrow> sint (qty t - qty m) = sint (qty t) - sint (qty m)"
      using sint_diff_pos [of "qty m" "qty t"] by (auto simp: signed_ord)
    then show ?case using full by (auto simp: signed_ord)
  qed simp
  with assms show "sint (qty t) = sint (qty t') + traded es" "open_qty ms = open_qty ms' + traded es"
    "0 \<le> sint (qty t')" by auto
qed

lemma open_qty_rest [simp]: "open_qty (spec_rest d x ms) = sint (qty x) + open_qty ms"
  by (induction ms) auto

definition book_qty :: "abook \<Rightarrow> int" where
  "book_qty a = open_qty (side_of a True) + open_qty (side_of a False)"

definition all_open :: "abook \<Rightarrow> bool" where
  "all_open a \<longleftrightarrow> (\<forall>d. \<forall>x \<in> set (side_of a d). 0 <s qty x)"

lemma book_qty_upd: "book_qty (a\<lparr>side_of := (side_of a)(d := ms)\<rparr>) = book_qty a - open_qty (side_of a d) + open_qty ms"
  by (cases d) (simp_all add: book_qty_def)

lemma spec_new_conserves:
  assumes "spec_new cmd a = (es, a')" and "all_open a" and "0 <s cmdQty cmd" "0 <s cmdPrice cmd"
  shows "book_qty a' = book_qty a + sint (cmdQty cmd) - 2 * traded es"
proof -
  let ?t = "new_order cmd (anext a)" and ?opp = "cmdSide cmd = Sell" and ?own = "cmdSide cmd = Buy"
  obtain ev ta ms ps where sm: "spec_match ?t (side_of a ?opp) = (ev, ta, ms, ps)"
    by (metis prod_cases4)
  have "0 \<le> sint (qty ?t)" "\<forall>m \<in> set (side_of a ?opp). 0 <s qty m"
    using assms(2,3) by (auto simp: new_order_def signed_ord all_open_def)
  note c = spec_match_conserves [OF sm this]
  have q: "sint (qty ?t) = sint (cmdQty cmd)" by (simp add: new_order_def)
  let ?a1 = "a\<lparr>side_of := (side_of a)(?opp := ms)\<rparr>"
  have b1: "book_qty ?a1 = book_qty a - traded ev" using c(2) by (simp add: book_qty_upd)
  note sn = spec_new_unfold [OF assms(3,4) sm]
  show ?thesis
  proof (cases "0 <s qty ta")
    case True
    have "book_qty (?a1\<lparr>side_of := (side_of ?a1)(?own := spec_rest ?own ta (side_of ?a1 ?own))\<rparr>) =
        book_qty ?a1 + sint (qty ta)" unfolding book_qty_upd by simp
    then show ?thesis using sn True assms(1) b1 c(1) q
      by (auto simp: Let_def book_qty_def traded_def)
  next
    case False
    then have "sint (qty ta) = 0" using c(3) by (simp add: signed_ord)
    then show ?thesis using sn False assms(1) b1 c(1) q
      by (auto simp: Let_def book_qty_def traded_def sle_sless_False)
  qed
qed

section \<open>Priority\<close>

text \<open>Best price first, and within a price the smaller id, which is the older order, first.\<close>

definition before :: "bool \<Rightarrow> order \<Rightarrow> order \<Rightarrow> bool" where
  "before d x y \<longleftrightarrow> better d (price x) (price y) \<or> price x = price y \<and> sint (oid x) < sint (oid y)"

definition prioritised :: "bool \<Rightarrow> order list \<Rightarrow> bool" where
  "prioritised d ms \<longleftrightarrow> sorted_wrt (before d) ms"

text \<open>The sequence of makers hit, and the orders left, are consecutive pieces of the side as it was.\<close>

definition key :: "order \<Rightarrow> order" where
  "key x = x\<lparr>qty := 0\<rparr>"

lemma key_sel [simp]: "key (x\<lparr>qty := q\<rparr>) = key x" "oid (key x) = oid x" "price (key x) = price x"
  "side (key x) = side x" "owner (key x) = owner x"
  by (simp_all add: key_def)

lemma spec_match_suffix:
  assumes "spec_match t ms = (es, t', ms', ps)"
  shows "\<exists>ks. map key ms = ks @ map key ms'
    \<and> (\<exists>n. map MakerOrderId (trades es) = map oid (take n ms) \<and> length ks \<le> n \<and> n \<le> Suc (length ks))"
proof -
  have "case spec_match t ms of (es, t', ms', ps) \<Rightarrow> \<exists>ks. map key ms = ks @ map key ms'
    \<and> (\<exists>n. map MakerOrderId (trades es) = map oid (take n ms) \<and> length ks \<le> n \<and> n \<le> Suc (length ks))"
  proof (induction t ms rule: spec_match_induct)
    case (stop t ms)
    have "map MakerOrderId (trades []) = map oid (take 0 ms)" by simp
    then show ?case by fastforce
  next
    case (part t m ms)
    have "map MakerOrderId (trades (fill_events (m\<lparr>qty := qty m - qty t\<rparr>) (t\<lparr>qty := 0\<rparr>) (qty t)))
        = map oid (take 1 (m # ms))" by simp
    then show ?case by fastforce
  next
    case (full t m ms es t' ms' ps)
    then obtain ks n where k: "map key ms = ks @ map key ms'" "map MakerOrderId (trades es) = map oid (take n ms)"
      "length ks \<le> n" "n \<le> Suc (length ks)" by auto
    then have "map key (m # ms) = (key m # ks) @ map key ms'"
      "map MakerOrderId (trades (fill_events (m\<lparr>qty := 0\<rparr>) (t\<lparr>qty := qty t - qty m\<rparr>) (qty m) @ es)) = map oid (take (Suc n) (m # ms))"
      "length (key m # ks) \<le> Suc n" "Suc n \<le> Suc (length (key m # ks))" by simp_all
    then show ?case by blast
  qed
  with assms show ?thesis by simp
qed

lemma before_key: "before d x y \<longleftrightarrow> before d (key x) (key y)"
  by (simp add: before_def)

lemma prioritised_key: "prioritised d ms \<longleftrightarrow> sorted_wrt (before d) (map key ms)"
  unfolding prioritised_def sorted_wrt_map before_key [symmetric] ..

lemma spec_match_prioritised:
  "spec_match t ms = (es, t', ms', ps) \<Longrightarrow> prioritised d ms \<Longrightarrow> prioritised d ms'"
  using spec_match_suffix [of t ms es t' ms' ps] by (auto simp: prioritised_key sorted_wrt_append)

lemma before_trans: "before d x y \<Longrightarrow> before d y z \<Longrightarrow> before d x z"
  unfolding before_def by (auto dest: better_trans)

lemma spec_rest_prioritised:
  assumes "prioritised d ms" and "\<forall>m \<in> set ms. sint (oid m) < sint (oid x)"
  shows "prioritised d (spec_rest d x ms)"
  using assms
proof (induction ms)
  case (Cons m ms)
  show ?case
  proof (cases "better d (price x) (price m)")
    case True
    then have "before d x m" by (simp add: before_def)
    then show ?thesis using Cons.prems True before_trans [of d x m] by (auto simp: prioritised_def)
  next
    case False
    then have "before d m x" using Cons.prems(2) better_total [of "price x" "price m" d] by (auto simp: before_def)
    then show ?thesis using Cons False by (auto simp: prioritised_def)
  qed
qed (simp add: prioritised_def)

section \<open>The invariant of a book\<close>

definition resting_ok :: "bool \<Rightarrow> order \<Rightarrow> bool" where
  "resting_ok d x \<longleftrightarrow> 0 <s qty x \<and> 0 <s price x \<and> (side x = Buy) = d"

definition book_inv :: "abook \<Rightarrow> bool" where
  "book_inv a \<longleftrightarrow> ids_ok a \<and> (\<forall>d. prioritised d (side_of a d) \<and> (\<forall>x \<in> set (side_of a d). resting_ok d x))"

lemma spec_match_resting:
  assumes "spec_match t ms = (es, t', ms', ps)" and "\<forall>x \<in> set ms. resting_ok d x"
  shows "\<forall>x \<in> set ms'. resting_ok d x"
proof -
  have "(\<forall>x \<in> set ms. resting_ok d x) \<longrightarrow>
    (case spec_match t ms of (es, t', ms', ps) \<Rightarrow> \<forall>x \<in> set ms'. resting_ok d x)"
  proof (induction t ms rule: spec_match_induct)
    case (part t m ms)
    then have "0 <s qty m - qty t"
      using sint_diff_pos [of "qty t" "qty m"] by (simp add: signed_ord)
    then show ?case by (simp add: resting_ok_def)
  qed auto
  with assms show ?thesis by simp
qed

lemma spec_match_taker_fields:
  assumes "spec_match t ms = (es, t', ms', ps)"
  shows "oid t' = oid t" "side t' = side t" "price t' = price t" "owner t' = owner t"
    "clientOrderId t' = clientOrderId t"
proof -
  have "t' = t\<lparr>qty := qty t'\<rparr>" using spec_match_keeps [OF assms] by blast
  then show "oid t' = oid t" "side t' = side t" "price t' = price t" "owner t' = owner t"
    "clientOrderId t' = clientOrderId t"
    by (metis order.select_convs(1-5) order.surjective order.update_convs(6))+
qed

lemma new_order_sel [simp]:
  "oid (new_order cmd k) = k" "side (new_order cmd k) = cmdSide cmd" "price (new_order cmd k) = cmdPrice cmd"
  "qty (new_order cmd k) = cmdQty cmd" "owner (new_order cmd k) = cmdOwner cmd"
  "clientOrderId (new_order cmd k) = cmdClientOrderId cmd"
  by (simp_all add: new_order_def)

text \<open>The sides after an accepted order.\<close>

lemma spec_new_sides:
  assumes "spec_new cmd a = (es, a')" "0 <s cmdQty cmd" "0 <s cmdPrice cmd"
    and sm: "spec_match (new_order cmd (anext a)) (side_of a (cmdSide cmd = Sell)) = (ev, ta, ms, ps)"
  shows "side_of a' = (let sides = (side_of a)(cmdSide cmd = Sell := ms) in
    if 0 <s qty ta then sides(cmdSide cmd = Buy := spec_rest (cmdSide cmd = Buy) ta (sides (cmdSide cmd = Buy)))
    else sides)"
  using spec_new_unfold [OF assms(2-4)] assms(1) by (auto simp: Let_def split: if_splits)

lemma spec_new_rejects:
  assumes "spec_new cmd a = (es, a')" "\<not> (0 <s cmdQty cmd \<and> 0 <s cmdPrice cmd)"
  shows "a' = a"
  using assms by (auto simp: spec_new_def split: if_splits)

lemma spec_new_inv:
  assumes inv: "book_inv a" and sn: "spec_new cmd a = (es, a')" and room: "sint (anext a) < 2 ^ 63 - 1"
  shows "book_inv a'"
proof (cases "0 <s cmdQty cmd \<and> 0 <s cmdPrice cmd")
  case False
  then show ?thesis using spec_new_rejects [OF sn] inv by simp
next
  case True
  let ?own = "cmdSide cmd = Buy" and ?opp = "cmdSide cmd = Sell"
  obtain ev ta ms ps where sm: "spec_match (new_order cmd (anext a)) (side_of a ?opp) = (ev, ta, ms, ps)"
    by (metis prod_cases4)
  note tf = spec_match_taker_fields [OF sm, simplified]
  let ?sides = "(side_of a)(?opp := ms)"
  have ids: "ids_ok a'" using ids_ok_exec [of a "SubmitCmd cmd"] inv sn room by (simp add: book_inv_def)
  have old: "prioritised d (?sides d)" "\<forall>x \<in> set (?sides d). resting_ok d x" for d
    using spec_match_prioritised [OF sm, of d] spec_match_resting [OF sm, of d] inv by (auto simp: book_inv_def)
  have lt: "\<forall>m \<in> set (?sides d). sint (oid m) < sint (oid ta)" for d
  proof
    fix m assume "m \<in> set (?sides d)"
    then have "oid m \<in> (\<Union>d. oid ` set (side_of a d))"
      using conjunct1 [OF spec_match_keeps [OF sm]] by (cases "d = ?opp") (simp, blast, auto)
    then show "sint (oid m) < sint (oid ta)" using inv tf(1) by (auto simp: book_inv_def ids_ok_def)
  qed
  show ?thesis
  proof (cases "0 <s qty ta")
    case True
    then have "resting_ok ?own ta" using tf \<open>0 <s cmdQty cmd \<and> _\<close> by (simp add: resting_ok_def)
    moreover have "side_of a' = ?sides(?own := spec_rest ?own ta (?sides ?own))"
      using spec_new_sides [OF sn _ _ sm] \<open>0 <s cmdQty cmd \<and> _\<close> True by (simp add: Let_def)
    ultimately have "prioritised d (side_of a' d) \<and> (\<forall>x \<in> set (side_of a' d). resting_ok d x)" for d
      using old [of d] spec_rest_prioritised [OF old(1) lt, of d] by (cases "d = ?own") auto
    then show ?thesis using ids by (simp add: book_inv_def)
  next
    case False
    then have "side_of a' = ?sides"
      using spec_new_sides [OF sn _ _ sm] \<open>0 <s cmdQty cmd \<and> _\<close> by (simp add: Let_def sle_sless_False)
    then show ?thesis using old ids by (simp add: book_inv_def del: fun_upd_apply)
  qed
qed

lemma spec_cancel_inv:
  assumes "book_inv a" and "spec_cancel k who a = (es, a')"
  shows "book_inv a'"
proof -
  have "a' = a \<or> a' = remove_order k a"
    using assms(2) by (auto simp: spec_cancel_def Let_def split: option.splits if_splits)
  then show ?thesis
  proof
    assume "a' = remove_order k a"
    then show ?thesis using assms(1)
      by (simp add: book_inv_def remove_order_def ids_ok_def prioritised_def sorted_wrt_filter) blast
  qed (use assms(1) in simp)
qed

lemma spec_exec_inv:
  assumes "book_inv a" and "spec_exec c a = (es, a')" and "sint (anext a) < 2 ^ 63 - 1"
  shows "book_inv a'"
proof (cases c)
  case (SubmitCmd cmd)
  then show ?thesis using spec_new_inv [OF assms(1) _ assms(3)] assms(2) by simp
next
  case (CancelCmd k who)
  then show ?thesis using spec_cancel_inv [OF assms(1)] assms(2) by simp
qed

section \<open>Trades\<close>

text \<open>Each trade: the price is the maker's, the quantity is positive, and the maker is an order of the
  opposite side as it was before the command.\<close>

definition trade_ok :: "order \<Rightarrow> order list \<Rightarrow> Event \<Rightarrow> bool" where
  "trade_ok t ms e \<longleftrightarrow> 0 <s Qty e \<and> TakerOrderId e = oid t \<and> TakerOwner e = owner t
     \<and> (\<exists>m \<in> set ms. MakerOrderId e = oid m \<and> MakerOwner e = owner m \<and> Price e = price m \<and> Qty e \<le>s qty m)"

text \<open>The limit of a taker that names a side: a buyer pays no more than its price, a seller gets no less. A
  taker of any other side is never within a limit.\<close>

definition within_limit :: "order \<Rightarrow> i64 \<Rightarrow> bool" where
  "within_limit t p \<longleftrightarrow> side t = Buy \<and> p \<le>s price t \<or> side t = Sell \<and> price t \<le>s p"

lemma within_limit_crosses: "within_limit t p \<longleftrightarrow> (side t = Buy \<or> side t = Sell) \<and> crosses t p"
  by (auto simp: within_limit_def crosses_def)

lemma spec_match_crosses:
  assumes "spec_match t ms = (es, t', ms', ps)"
  shows "\<forall>e \<in> set (trades es). crosses t (Price e)"
proof -
  have "case spec_match t ms of (es, t', ms', ps) \<Rightarrow> \<forall>e \<in> set (trades es). crosses t (Price e)"
    by (induction t ms rule: spec_match_induct) (auto simp: crosses_def)
  with assms show ?thesis by simp
qed

lemma spec_match_trades:
  assumes "spec_match t ms = (es, t', ms', ps)" and "\<forall>m \<in> set ms. 0 <s qty m"
  shows "\<forall>e \<in> set (trades es). trade_ok t ms e" and "map Price (trades es) = ps"
proof -
  have "(\<forall>m \<in> set ms. 0 <s qty m) \<longrightarrow> (case spec_match t ms of (es, t', ms', ps) \<Rightarrow>
    (\<forall>e \<in> set (trades es). trade_ok t ms e) \<and> map Price (trades es) = ps)"
  proof (induction t ms rule: spec_match_induct)
    case (full t m ms es t' ms' ps)
    then show ?case by (auto simp: trade_ok_def signed_ord)
  qed (auto simp: trade_ok_def signed_ord)
  with assms show "\<forall>e \<in> set (trades es). trade_ok t ms e" "map Price (trades es) = ps" by auto
qed

lemma spec_new_trades:
  assumes "spec_new cmd a = (es, a')" "0 <s cmdQty cmd" "0 <s cmdPrice cmd"
    and sm: "spec_match (new_order cmd (anext a)) (side_of a (cmdSide cmd = Sell)) = (ev, ta, ms, ps)"
  shows "trades es = trades ev"
  using spec_new_unfold [OF assms(2-4)] assms(1) by (auto simp: Let_def split: if_splits)

section \<open>An uncrossed book\<close>

definition proper :: "abook \<Rightarrow> bool" where
  "proper a \<longleftrightarrow> (\<forall>d. \<forall>x \<in> set (side_of a d). side x = Buy \<or> side x = Sell)"

definition uncrossed :: "abook \<Rightarrow> bool" where
  "uncrossed a \<longleftrightarrow> (\<forall>x \<in> set (side_of a True). \<forall>y \<in> set (side_of a False). price x <s price y)"

lemma prioritised_hd: "prioritised d (m # ms) \<Longrightarrow> x \<in> set (m # ms) \<Longrightarrow> price x = price m \<or> better d (price m) (price x)"
  by (auto simp: prioritised_def before_def)

lemma spec_match_left:
  assumes sm: "spec_match t ms = (es, t', ms', ps)" and "0 <s qty t'" and "prioritised d ms"
    and side: "side t = Buy \<and> d = False \<or> side t = Sell \<and> d = True" and x: "x \<in> set ms'"
  shows "if d then price x <s price t else price t <s price x"
proof -
  obtain m ms'' where m: "ms' = m # ms''" using x by (cases ms') auto
  then have "\<not> crosses t (price m)" using spec_match_keeps [OF sm] assms(2) by auto
  moreover have "price x = price m \<or> better d (price m) (price x)"
    using prioritised_hd [of d m ms'' x] spec_match_prioritised [OF sm assms(3)] m x by simp
  ultimately show ?thesis using side by (auto simp: crosses_def better_def signed_ord split: if_splits)
qed

lemma spec_match_prices:
  assumes "spec_match t ms = (es, t', ms', ps)" and "x \<in> set ms'"
  shows "\<exists>m \<in> set ms. price x = price m \<and> oid x = oid m \<and> side x = side m"
proof -
  obtain ks where "map key ms = ks @ map key ms'" using spec_match_suffix [OF assms(1)] by blast
  then have "key x \<in> set (map key ms)" using assms(2) by simp
  then show ?thesis by (auto simp: image_iff) (metis key_sel)
qed

lemma spec_new_uncrossed:
  assumes inv: "book_inv a" and un: "uncrossed a" and sn: "spec_new cmd a = (es, a')"
    and side: "cmdSide cmd = Buy \<or> cmdSide cmd = Sell"
  shows "uncrossed a'"
proof (cases "0 <s cmdQty cmd \<and> 0 <s cmdPrice cmd")
  case False
  then show ?thesis using spec_new_rejects [OF sn] un by simp
next
  case True
  let ?own = "cmdSide cmd = Buy" and ?opp = "cmdSide cmd = Sell"
  obtain ev ta ms ps where sm: "spec_match (new_order cmd (anext a)) (side_of a ?opp) = (ev, ta, ms, ps)"
    by (metis prod_cases4)
  note tf = spec_match_taker_fields [OF sm, simplified]
  have oo: "?opp = (\<not> ?own)" using side by auto
  have pr: "\<exists>m \<in> set (side_of a ?opp). price x = price m" if "x \<in> set ms" for x
    using spec_match_prices [OF sm that] by blast
  have un1: "uncrossed (a\<lparr>side_of := (side_of a)(?opp := ms)\<rparr>)"
    using un pr unfolding uncrossed_def by (cases ?opp) fastforce+
  have left: "if ?opp then price x <s cmdPrice cmd else cmdPrice cmd <s price x"
    if "0 <s qty ta" "x \<in> set ms" for x
    using spec_match_left [OF sm that(1) _ _ that(2), of ?opp] inv side by (auto simp: book_inv_def)
  note sides = spec_new_sides [OF sn _ _ sm]
  show ?thesis
  proof (cases "0 <s qty ta")
    case False
    then show ?thesis using sides \<open>0 <s cmdQty cmd \<and> _\<close> un1 by (simp add: uncrossed_def Let_def sle_sless_False)
  next
    case True
    then show ?thesis using sides \<open>0 <s cmdQty cmd \<and> _\<close> un1 left [OF True] oo tf(3)
      by (cases ?own) (auto simp: uncrossed_def Let_def)
  qed
qed

lemma spec_new_proper:
  assumes "proper a" and sn: "spec_new cmd a = (es, a')" and side: "cmdSide cmd = Buy \<or> cmdSide cmd = Sell"
  shows "proper a'"
proof (cases "0 <s cmdQty cmd \<and> 0 <s cmdPrice cmd")
  case False
  then show ?thesis using spec_new_rejects [OF sn] assms(1) by simp
next
  case True
  obtain ev ta ms ps where sm: "spec_match (new_order cmd (anext a)) (side_of a (cmdSide cmd = Sell)) = (ev, ta, ms, ps)"
    by (metis prod_cases4)
  have "side x = Buy \<or> side x = Sell" if "x \<in> set ms" for x
    using spec_match_prices [OF sm that] assms(1) unfolding proper_def by metis
  then show ?thesis
    using spec_new_sides [OF sn _ _ sm] True assms(1) side spec_match_taker_fields(2) [OF sm]
    by (auto simp: proper_def Let_def split: if_splits)
qed

lemma remove_order_subset: "set (side_of (remove_order k a) d) \<subseteq> set (side_of a d)"
  by (auto simp: remove_order_def)

lemma spec_cancel_state:
  "spec_cancel k who a = (es, a') \<Longrightarrow> a' = a \<or> a' = remove_order k a"
  by (auto simp: spec_cancel_def Let_def split: option.splits if_splits)

lemma spec_cancel_proper_uncrossed:
  assumes "spec_cancel k who a = (es, a')"
  shows "proper a \<Longrightarrow> proper a'" "uncrossed a \<Longrightarrow> uncrossed a'"
  using spec_cancel_state [OF assms] remove_order_subset [of k a]
  unfolding proper_def uncrossed_def by blast+

section \<open>Market data\<close>

text \<open>A subscriber's view of the depth: the quantity at a side and price, updated from the \<open>BookUpdate\<close>
  events alone.\<close>

definition view_update :: "Event \<Rightarrow> (Side \<times> i64 \<Rightarrow> i64) \<Rightarrow> Side \<times> i64 \<Rightarrow> i64" where
  "view_update e v = (if Type e = EvBookUpdate then v((EvSide e, Price e) := AggregateQty e) else v)"

definition depth_view :: "abook \<Rightarrow> Side \<times> i64 \<Rightarrow> i64" where
  "depth_view a k = (case k of (s, p) \<Rightarrow> depth (side_of a (s = Buy)) p)"

lemma view_update_book [simp]: "view_update (bookUpdateEvent s p q) v = v((s, p) := q)"
  by (simp add: view_update_def bookUpdateEvent_def)

lemma view_update_other [simp]: "Type e \<noteq> EvBookUpdate \<Longrightarrow> view_update e v = v"
  by (simp add: view_update_def)

lemma fold_view_other: "\<forall>e \<in> set es. Type e \<noteq> EvBookUpdate \<Longrightarrow> fold view_update es v = v"
  by (induction es) simp_all

lemma fold_view_updates:
  "fold view_update (map (\<lambda>p. bookUpdateEvent s p (f p)) ps) v =
   (\<lambda>k. if fst k = s \<and> snd k \<in> set ps then f (snd k) else v k)"
proof (induction ps arbitrary: v)
  case (Cons p ps)
  show ?case unfolding list.map fold.simps comp_def view_update_book Cons.IH by (auto simp: fun_eq_iff)
qed simp

lemma spec_match_no_updates:
  assumes "spec_match t ms = (es, t', ms', ps)"
  shows "\<forall>e \<in> set es. Type e \<noteq> EvBookUpdate" and "p \<notin> set ps \<Longrightarrow> depth ms' p = depth ms p"
proof -
  have "case spec_match t ms of (es, t', ms', ps) \<Rightarrow>
    (\<forall>e \<in> set es. Type e \<noteq> EvBookUpdate) \<and> (p \<notin> set ps \<longrightarrow> depth ms' p = depth ms p)"
    by (induction t ms rule: spec_match_induct) (auto simp: fill_events_def depth_Cons)
  with assms show "\<forall>e \<in> set es. Type e \<noteq> EvBookUpdate" "p \<notin> set ps \<Longrightarrow> depth ms' p = depth ms p" by auto
qed

lemma spec_new_view:
  assumes sn: "spec_new cmd a = (es, a')" and side: "cmdSide cmd = Buy \<or> cmdSide cmd = Sell"
    and k: "fst k = Buy \<or> fst k = Sell"
  shows "fold view_update es (depth_view a) k = depth_view a' k"
proof (cases "0 <s cmdQty cmd \<and> 0 <s cmdPrice cmd")
  case False
  then show ?thesis using sn by (auto simp: spec_new_def split: if_splits)
next
  case True
  let ?own = "cmdSide cmd = Buy" and ?opp = "cmdSide cmd = Sell"
  obtain ev ta ms ps where sm: "spec_match (new_order cmd (anext a)) (side_of a ?opp) = (ev, ta, ms, ps)"
    by (metis prod_cases4)
  note tf = spec_match_taker_fields [OF sm, simplified] and nu = spec_match_no_updates [OF sm]
  have oo: "?opp = (\<not> ?own)" using side by auto
  let ?ups = "map (\<lambda>p. bookUpdateEvent (sideOf ?opp) p (depth ms p)) (remdups_adj ps)"
  have v1: "fold view_update (acceptedEvent (new_order cmd (anext a)) # ev @ ?ups) (depth_view a) k =
      (if fst k = sideOf ?opp then depth ms (snd k) else depth_view a k)"
    using nu fold_view_other [of ev] k
    by (auto simp: fold_view_updates depth_view_def sideOf_def split: prod.splits)
  note sides = spec_new_sides [OF sn _ _ sm]
  show ?thesis
  proof (cases "0 <s qty ta")
    case False
    then have "es = acceptedEvent (new_order cmd (anext a)) # ev @ ?ups" "side_of a' = (side_of a)(?opp := ms)"
      using spec_new_unfold [OF _ _ sm] sn sides \<open>0 <s cmdQty cmd \<and> _\<close> by (auto simp: Let_def sle_sless_False)
    then show ?thesis using v1 k by (auto simp: depth_view_def sideOf_def split: prod.splits)
  next
    case True
    let ?rested = "spec_rest ?own ta (side_of a ?own)"
    have "es = (acceptedEvent (new_order cmd (anext a)) # ev @ ?ups)
        @ [bookUpdateEvent (cmdSide cmd) (cmdPrice cmd) (depth ?rested (cmdPrice cmd))]"
      "side_of a' = (side_of a)(?opp := ms, ?own := ?rested)"
      using spec_new_unfold [OF _ _ sm] sn sides \<open>0 <s cmdQty cmd \<and> _\<close> True oo by (auto simp: Let_def)
    then show ?thesis using v1 k side oo tf(3)
      by (auto simp: depth_view_def sideOf_def depth_rest depth_Cons split: prod.splits)
  qed
qed

end
