(* ===== verification/Guarantees.thy ===== *)
theory Guarantees
  imports Market
begin

text \<open>
  The guarantees of the engine on the books its commands can reach, stated on the operations of
  \<open>order_book.go\<close>. A book is related to the lists of resting orders it represents by \<open>represents\<close>, which
  determines them.
\<close>

section \<open>What a store represents\<close>

lemma shape_layout_unique:
  assumes "shape b L" and "shape b M"
  shows "L = M"
proof
  fix d
  have fs: "map fst (L d) = map fst (M d)" using shape_sides [OF assms(1)] shape_sides [OF assms(2)] by metis
  show "L d = M d"
  proof (rule nth_equalityI)
    show len: "length (L d) = length (M d)" using fs by (metis length_map)
    fix i assume i: "i < length (L d)"
    then have f: "fst (L d ! i) = fst (M d ! i)" using fs len by (metis nth_map)
    have "lvl_shape b d (L d ! i)" "lvl_shape b d (M d ! i)"
      using shape_level [OF assms(1), of "L d ! i" d] shape_level [OF assms(2), of "M d ! i" d] i len by simp_all
    then have "snd (L d ! i) = snd (M d ! i)"
      using f by (auto simp: lvl_shape_def dest: dseg_unique)
    with f show "L d ! i = M d ! i" by (simp add: prod_eq_iff)
  qed
qed

lemma wf_unique: "represents b a \<Longrightarrow> represents b a' \<Longrightarrow> a = a'"
  unfolding represents_def using shape_layout_unique by blast

lemma wf_next: "represents b a \<Longrightarrow> anext a = nextOrderId b"
  by (auto simp: represents_def absb_def)

lemma wf_distinct_ids:
  assumes "represents b a"
  shows "distinct (map oid (side_of a True @ side_of a False))"
proof -
  obtain L where L: "shape b L" "absb b L = a" using assms by (auto simp: represents_def)
  have "oid ` set (vals b (refs L True)) \<inter> oid ` set (vals b (refs L False)) = {}"
  proof (rule ccontr)
    assume "\<not> ?thesis"
    then obtain r s where r: "r \<in> set (refs L True)" "s \<in> set (refs L False)"
      "oid (the (orderAt b r)) = oid (the (orderAt b s))" by (auto simp: vals_ids)
    obtain x y where x: "orderAt b r = Some x" "orderAt b s = Some y"
      using shape_allocated [OF L(1) r(1)] shape_allocated [OF L(1) r(2)] by blast
    then have "oid x = oid y" using r(3) by simp
    with shape_oid_inj [OF L(1) r(1,2) x] have "r = s" by blast
    then show False using shape_ref_side [OF L(1) r(1)] r(2) by auto
  qed
  then show ?thesis
    using shape_distinct_ids [OF L(1), of True] shape_distinct_ids [OF L(1), of False]
    unfolding L(2) [symmetric] absb_def map_append distinct_append set_map by simp
qed

section \<open>Reachable books\<close>

text \<open>The books reached from the empty one by commands that satisfy \<open>P\<close>, while ids last.\<close>

inductive reach :: "(command \<Rightarrow> bool) \<Rightarrow> OrderBook \<Rightarrow> bool" for P where
  start: "reach P NewOrderBook"
| exec: "reach P b \<Longrightarrow> P c \<Longrightarrow> sint (nextOrderId b) < 2 ^ 63 - 1 \<Longrightarrow> exec c b = Some (es, b') \<Longrightarrow> reach P b'"

inductive_cases reachE: "reach P b"

text \<open>Commands whose side is one of the two the protocol defines.\<close>

fun valid_side :: "command \<Rightarrow> bool" where
  "valid_side (SubmitCmd cmd) \<longleftrightarrow> cmdSide cmd = Buy \<or> cmdSide cmd = Sell"
| "valid_side (CancelCmd k who) \<longleftrightarrow> True"

text \<open>One command on a well-formed book, with the specification's answer.\<close>

lemma exec_spec:
  assumes "represents b a" and "book_inv a" and "sint (nextOrderId b) < 2 ^ 63 - 1"
  obtains es b' a' where "exec c b = Some (es, b')" "spec_exec c a = (es, a')" "represents b' a'" "book_inv a'"
proof -
  obtain es a' where e: "spec_exec c a = (es, a')" by force
  have room: "sint (anext a) < 2 ^ 63 - 1" using assms wf_next by metis
  have "represents b a \<and> ids_ok a" using assms by (simp add: book_inv_def)
  from book.sim [OF this room e] spec_exec_inv [OF assms(2) e room] e show thesis
    using that by blast
qed

lemma reach_wf: "reach P b \<Longrightarrow> \<exists>a. represents b a \<and> book_inv a"
proof (induction rule: reach.induct)
  case start
  show ?case using wf_NewOrderBook
    by (force simp: book_inv_def ids_ok_def prioritised_def)
next
  case (exec b c es b')
  then obtain a where a: "represents b a" "book_inv a" by blast
  show ?case using exec_spec [OF a exec.hyps(3), of c] exec.hyps(4) by (metis option.inject prod.inject)
qed

lemma reach_valid:
  "reach valid_side b \<Longrightarrow> \<exists>a. represents b a \<and> book_inv a \<and> uncrossed a \<and> proper a"
proof (induction rule: reach.induct)
  case start
  show ?case using wf_NewOrderBook
    by (force simp: book_inv_def ids_ok_def prioritised_def uncrossed_def proper_def)
next
  case (exec b c es b')
  then obtain a where a: "represents b a" "book_inv a" "uncrossed a" "proper a" by blast
  obtain a' where e: "spec_exec c a = (es, a')" "represents b' a'" "book_inv a'"
    using exec_spec [OF a(1,2) exec.hyps(3), of c] exec.hyps(4) by (metis option.inject prod.inject)
  have "uncrossed a' \<and> proper a'"
    using e(1) exec.hyps(2) spec_new_uncrossed [OF a(2,3)] spec_new_proper [OF a(4)]
      spec_cancel_proper_uncrossed a(3,4) by (cases c) auto
  with e show ?case by blast
qed

text \<open>Cancelling and the subscriber's view.\<close>

lemma depth_removed:
  assumes "distinct (map oid ms)" and "x \<in> set ms" and "p \<noteq> price x"
  shows "depth (filter (\<lambda>y. oid y \<noteq> oid x) ms) p = depth ms p"
proof -
  obtain us vs where ms: "ms = us @ x # vs" using assms(2) by (meson split_list)
  with filter_remove [of oid us x vs] assms show ?thesis by (simp add: depth_Cons)
qed

lemma spec_cancel_view:
  assumes sc: "spec_cancel k who a = (es, a')" and dist: "distinct (map oid (side_of a True @ side_of a False))"
    and rest: "book_inv a" "proper a" and q: "fst q = Buy \<or> fst q = Sell"
  shows "fold view_update es (depth_view a) q = depth_view a' q"
proof (cases "find_order k a")
  case None
  then show ?thesis using sc by (auto simp: spec_cancel_def)
next
  case (Some x)
  then obtain d where x: "oid x = k" "x \<in> set (side_of a d)"
    unfolding find_order_def by (auto dest!: find_SomeD)
  have sd: "(side x = Buy) = d" "side x = Buy \<or> side x = Sell"
    using rest x(2) unfolding book_inv_def resting_ok_def proper_def by blast+
  have dd: "distinct (map oid (side_of a d))" using dist by (cases d) auto
  have "oid y \<noteq> k" if "y \<in> set (side_of a (\<not> d))" for y
    using dist x that by (cases d) (auto simp: image_iff)
  then have other: "filter (\<lambda>y. oid y \<noteq> k) (side_of a (\<not> d)) = side_of a (\<not> d)" by simp
  show ?thesis
  proof (cases "owner x = who")
    case True
    then have "fold view_update es (depth_view a) q =
        (if q = (side x, price x) then depth (side_of a' d) (price x) else depth_view a q)" "a' = remove_order k a"
      using sc Some sd(1) by (auto simp: spec_cancel_def Let_def)
    then show ?thesis using depth_removed [OF dd x(2)] x(1) sd q other
      by (cases q) (auto simp: depth_view_def remove_order_def)
  qed (use sc Some in \<open>auto simp: spec_cancel_def\<close>)
qed

lemma find_order_mem:
  assumes "distinct (map oid (side_of a True @ side_of a False))" and "x \<in> set (side_of a d)"
  shows "find_order (oid x) a = Some x"
proof (cases "find_order (oid x) a")
  case None
  then show ?thesis using assms(2) unfolding find_order_def by (cases d) (auto simp: find_None_iff)
next
  case (Some y)
  then have y: "oid y = oid x" "y \<in> set (side_of a True @ side_of a False)"
    unfolding find_order_def by (auto dest!: find_SomeD)
  have "x \<in> set (side_of a True @ side_of a False)" using assms(2) by (cases d) auto
  then show ?thesis using Some y assms(1) by (metis distinct_map inj_on_def)
qed

text \<open>A level's total is the sum of its own queue.\<close>

lemma level_total:
  assumes sh: "shape b L" and bk: "booked b L" and mem: "(lr, rs) \<in> set (L d)"
  shows "map_option totalQty (levelAt b lr) = Some (\<Sum>x \<leftarrow> vals b rs. qty x)"
proof -
  obtain X Y where Ld: "L d = X @ (lr, rs) # Y" using mem by (meson split_list)
  note ar = vals_around [OF sh Ld]
  let ?X = "vals b (concat (map snd X))" and ?Y = "vals b (concat (map snd Y))"
  have "\<forall>x \<in> set ?X. price x \<noteq> lpriceAt b lr" "\<forall>x \<in> set ?Y. price x \<noteq> lpriceAt b lr"
    using ar(1,3) by (metis better_irrefl)+
  moreover have "depth (vals b rs) (lpriceAt b lr) = (\<Sum>x \<leftarrow> vals b rs. qty x)"
    using ar(2) by (simp add: depth_def)
  moreover have "vals b (refs L d) = ?X @ vals b rs @ ?Y" using Ld by (simp add: refs_def)
  ultimately have "depth (vals b (refs L d)) (lpriceAt b lr) = (\<Sum>x \<leftarrow> vals b rs. qty x)"
    by (simp add: depth_absent)
  with accounted_lpriceAt [OF booked_accounted [OF bk mem]] show ?thesis by (auto simp: lval_def)
qed

lemma cancel_resting:
  assumes "reach P b" and "represents b a" and x: "x \<in> set (side_of a d)"
  shows "if who = owner x
      then (\<exists>b'. Cancel (oid x) who b = Some ([canceledEvent x, bookUpdateEvent (side x) (price x)
               (depth (side_of (remove_order (oid x) a) d) (price x))], b') \<and> represents b' (remove_order (oid x) a))
      else Cancel (oid x) who b = Some ([rejectedCancel (oid x) who ReasonNotOwner], b)"
proof -
  have "book_inv a" using reach_wf [OF assms(1)] wf_unique [OF assms(2)] by blast
  then have sd: "(side x = Buy) = d" using x by (simp add: book_inv_def resting_ok_def)
  obtain L where L: "shape b L" "booked b L" "absb b L = a" using assms(2) by (auto simp: represents_def)
  have fo: "find_order (oid x) a = Some x" by (rule find_order_mem [OF wf_distinct_ids [OF assms(2)] x])
  obtain r where r: "map_of (orders b) (oid x) = Some r" "x = val (the (orderAt b r))"
    using fo find_order_vals [OF L(1), of "oid x"] L(3) by (metis (no_types, lifting) map_option_eq_Some)
  obtain y where y: "orderAt b r = Some y" using r(1) shape_map [OF L(1)] by blast
  have "Cancel (oid x) who b = Some ([rejectedCancel (oid x) who ReasonNotOwner], b)" if "who \<noteq> owner x"
    using that r y by (simp add: Cancel_def)
  moreover have "\<exists>b'. Cancel (oid x) who b = Some ([canceledEvent x, bookUpdateEvent (side x) (price x)
      (depth (side_of (remove_order (oid x) a) d) (price x))], b') \<and> represents b' (remove_order (oid x) a)"
    if "who = owner x"
    using that fo sd by (intro wf_Cancel [OF assms(2)]) (simp add: spec_cancel_def Let_def)
  ultimately show ?thesis by simp
qed

lemma cancel_unknown:
  assumes "represents b a" and "\<forall>d. k \<notin> oid ` set (side_of a d)"
  shows "Cancel k who b = Some ([rejectedCancel k who ReasonUnknownOrder], b)"
proof -
  obtain L where L: "shape b L" "absb b L = a" using assms(1) by (auto simp: represents_def)
  have "map_of (orders b) k = None"
    using assms(2) unfolding shape_keys [OF L(1)] L(2) [symmetric] by (simp add: absb_def)
  then show ?thesis by (simp add: Cancel_def)
qed

section \<open>A book to try the guarantees on\<close>

text \<open>One resting sell order, 5 at 10.\<close>

definition demo_sell :: command where
  "demo_sell = SubmitCmd \<lparr>cmdClientOrderId = 1, cmdOwner = 7, cmdSide = Sell, cmdPrice = 10, cmdQty = 5\<rparr>"

definition demo_buy :: NewOrderCmd where
  "demo_buy = \<lparr>cmdClientOrderId = 2, cmdOwner = 8, cmdSide = Buy, cmdPrice = 12, cmdQty = 8\<rparr>"

definition demo_book :: OrderBook where
  "demo_book = snd (the (exec demo_sell NewOrderBook))"

definition demo_abook :: abook where
  "demo_abook = \<lparr>side_of = (\<lambda>d. if d then [] else [\<lparr>oid = 1, clientOrderId = 1, owner = 7, side = Sell,
     price = 10, qty = 5, level = None, prev = None, nxt = None\<rparr>]), anext = 2\<rparr>"

lemma demo_spec: "snd (spec_exec demo_sell \<lparr>side_of = (\<lambda>d. []), anext = 1\<rparr>) = demo_abook"
  by (auto simp: demo_sell_def demo_abook_def spec_new_def new_order_def Let_def signed_ord fun_eq_iff)

lemma demo_facts: "reach valid_side demo_book" "represents demo_book demo_abook" "sint (nextOrderId demo_book) = 2"
proof -
  have inv: "book_inv \<lparr>side_of = (\<lambda>d. []), anext = 1\<rparr>"
    by (simp add: book_inv_def ids_ok_def prioritised_def)
  have room: "sint (nextOrderId NewOrderBook) < 2 ^ 63 - 1" by (simp add: NewOrderBook_def)
  obtain es b' a' where e: "exec demo_sell NewOrderBook = Some (es, b')" "represents b' a'"
    "spec_exec demo_sell \<lparr>side_of = (\<lambda>d. []), anext = 1\<rparr> = (es, a')"
    by (rule exec_spec [OF wf_NewOrderBook inv room, of demo_sell])
  then have b': "exec demo_sell NewOrderBook = Some (es, b')" "represents b' demo_abook"
    using demo_spec by simp_all
  then have d: "demo_book = b'" by (simp add: demo_book_def)
  show "represents demo_book demo_abook" using b' d by simp
  then have "nextOrderId demo_book = 2" using wf_next [of demo_book demo_abook] by (simp add: demo_abook_def)
  then show "sint (nextOrderId demo_book) = 2" by simp
  show "reach valid_side demo_book"
    using reach.exec [OF reach.start _ room b'(1), of valid_side] d by (simp add: demo_sell_def)
qed

section \<open>Binary search and linear scan\<close>

text \<open>The reference: skip the prices with priority over the wanted one.\<close>

definition scanIndex :: "i64 list \<Rightarrow> i64 \<Rightarrow> bool \<Rightarrow> nat \<times> bool" where
  "scanIndex ps p d = (let i = length (takeWhile (\<lambda>q. better d q p) ps) in (i, i < length ps \<and> ps ! i = p))"

context price_index
begin

lemma index_scan:
  assumes "ok b d"
  shows "index b d p = Some (scanIndex (prices b d) p d)"
proof (cases "p \<in> set (prices b d)")
  case True
  then obtain us vs where ps: "prices b d = us @ p # vs" by (meson split_list)
  have "\<forall>q \<in> set us. better d q p" using sorted [OF assms] ps by (auto simp: sorted_wrt_append)
  then have "takeWhile (\<lambda>q. better d q p) (prices b d) = us" by (simp add: ps)
  then show ?thesis using index_at [OF assms ps] by (simp add: scanIndex_def Let_def ps)
next
  case False
  then obtain i where i: "index b d p = Some (i, False)" by (rule index_absent [OF assms])
  note m = missing [OF assms i]
  have "\<not> better d q p" if "q \<in> set (drop i (prices b d))" for q using m that better_asym by blast
  then have "takeWhile (\<lambda>q. better d q p) (drop i (prices b d)) = []"
    by (cases "drop i (prices b d)") auto
  then have "takeWhile (\<lambda>q. better d q p) (take i (prices b d) @ drop i (prices b d)) = take i (prices b d)"
    using m by (subst takeWhile_append2) auto
  moreover have "i < length (prices b d) \<longrightarrow> prices b d ! i \<noteq> p" using False nth_mem by blast
  ultimately show ?thesis using i m by (simp add: scanIndex_def Let_def min_absorb2)
qed

end

section \<open>Properties\<close>

text \<open>C1 (refinement). Every sequence of commands from the empty book is answered, without a panic or a
  loop that does not end, with exactly the events of the price-time specification, and the pointer
  structure left behind represents the specification's book. The bound is the number of order ids.\<close>

theorem engine_refines_price_time:
  assumes "int (length cs) < 2 ^ 63 - 1"
  shows "\<exists>b. runs exec cs NewOrderBook = Some (fst (spec_runs cs \<lparr>side_of = (\<lambda>d. []), anext = 1\<rparr>), b)
    \<and> represents b (snd (spec_runs cs \<lparr>side_of = (\<lambda>d. []), anext = 1\<rparr>))"
proof -
  let ?a = "\<lparr>side_of = (\<lambda>d :: bool. [] :: order list), anext = 1\<rparr> :: abook"
  have "represents NewOrderBook ?a \<and> ids_ok ?a" using wf_NewOrderBook by (simp add: ids_ok_def)
  moreover have "sint (anext ?a) + int (length cs) < 2 ^ 63" using assms by simp
  ultimately show ?thesis using book.runs_sim [of NewOrderBook ?a cs] by (metis prod.collapse)
qed

theorem engine_refines_price_time_witness:
  "\<exists>b. runs exec [demo_sell, SubmitCmd demo_buy, CancelCmd 2 8] NewOrderBook
     = Some (fst (spec_runs [demo_sell, SubmitCmd demo_buy, CancelCmd 2 8] \<lparr>side_of = (\<lambda>d. []), anext = 1\<rparr>), b)
   \<and> represents b (snd (spec_runs [demo_sell, SubmitCmd demo_buy, CancelCmd 2 8] \<lparr>side_of = (\<lambda>d. []), anext = 1\<rparr>))"
  by (rule engine_refines_price_time) simp

text \<open>C5 (termination). On a reachable book no command panics or loops, whatever its contents, side
  included, and the book it leaves is again reachable.\<close>

theorem engine_total:
  assumes "reach P b" and "P c" and "sint (nextOrderId b) < 2 ^ 63 - 1"
  shows "\<exists>es b'. exec c b = Some (es, b') \<and> reach P b'"
proof -
  obtain a where "represents b a" "book_inv a" using reach_wf [OF assms(1)] by blast
  then show ?thesis using exec_spec [OF _ _ assms(3)] reach.exec [OF assms] by metis
qed

theorem engine_total_witness:
  "\<exists>es b'. exec (SubmitCmd demo_buy) demo_book = Some (es, b') \<and> reach valid_side b'"
  by (rule engine_total [OF demo_facts(1)]) (simp_all add: demo_buy_def demo_facts(3))

text \<open>C6 (type). In a reachable book the two sides are strictly sorted slices of non-empty levels,
  each level is a well-formed doubly linked FIFO of orders of its price and side whose \<open>level\<close> points
  back, the map holds exactly the linked orders under their ids, the total of a level is the 64-bit sum
  of the quantities queued there, and every queued quantity is positive.\<close>

theorem book_structure:
  assumes "reach P b"
  shows "\<exists>L. shape b L
    \<and> (\<forall>d lr rs. (lr, rs) \<in> set (L d) \<longrightarrow>
         map_option totalQty (levelAt b lr) = Some (\<Sum>x \<leftarrow> vals b rs. qty x) \<and> (\<forall>x \<in> set (vals b rs). 0 <s qty x))"
proof -
  obtain a L where L: "shape b L" "booked b L" using reach_wf [OF assms] by (auto simp: represents_def)
  have "0 <s qty x" if "(lr, rs) \<in> set (L d)" "x \<in> set (vals b rs)" for d lr rs x
  proof -
    have "x \<in> set (vals b (refs L d))" using that by (force simp: vals_def refs_def)
    then show ?thesis using L(2) by (simp add: booked_def)
  qed
  then show ?thesis using L level_total [OF L] by blast
qed

theorem book_structure_witness:
  "\<exists>L. shape demo_book L
    \<and> (\<forall>d lr rs. (lr, rs) \<in> set (L d) \<longrightarrow> map_option totalQty (levelAt demo_book lr) = Some (\<Sum>x \<leftarrow> vals demo_book rs. qty x)
       \<and> (\<forall>x \<in> set (vals demo_book rs). 0 <s qty x))"
  by (rule book_structure [OF demo_facts(1)])

text \<open>C7 (functional). Conservation: an accepted order adds its quantity to the book and each traded
  unit removes one from the taker and one from a maker; the traded quantity is between 0 and the
  order's quantity. The sums are exact integers, not machine words.\<close>

theorem new_order_conserves:
  assumes "reach P b" and "sint (nextOrderId b) < 2 ^ 63 - 1" and "0 <s cmdQty cmd" and "0 <s cmdPrice cmd"
  shows "\<exists>a es b' a'. represents b a \<and> NewLimitOrder cmd b = Some (es, b') \<and> represents b' a'
    \<and> book_qty a' = book_qty a + sint (cmdQty cmd) - 2 * traded es
    \<and> 0 \<le> traded es \<and> traded es \<le> sint (cmdQty cmd)"
proof -
  obtain a where a: "represents b a" "book_inv a" using reach_wf [OF assms(1)] by blast
  obtain es b' a' where e: "NewLimitOrder cmd b = Some (es, b')" "spec_new cmd a = (es, a')" "represents b' a'"
    using exec_spec [OF a assms(2), of "SubmitCmd cmd", unfolded exec.simps spec_exec.simps] by blast
  have op: "all_open a" using a(2) by (simp add: book_inv_def all_open_def resting_ok_def)
  obtain ev ta ms ps where sm: "spec_match (new_order cmd (anext a)) (side_of a (cmdSide cmd = Sell)) = (ev, ta, ms, ps)"
    by (metis prod_cases4)
  have q: "0 \<le> sint (qty (new_order cmd (anext a)))" "\<forall>m \<in> set (side_of a (cmdSide cmd = Sell)). 0 <s qty m"
    using assms(3) op by (simp_all add: signed_ord all_open_def)
  have "traded es = traded ev" using spec_new_trades [OF e(2) assms(3,4) sm] by (simp add: traded_def)
  moreover have "0 \<le> traded ev"
    using spec_match_trades(1) [OF sm q(2)] unfolding traded_def
    by (intro sum_list_nonneg) (auto simp: trade_ok_def signed_ord)
  ultimately show ?thesis
    using a(1) e spec_new_conserves [OF e(2) op assms(3,4)] spec_match_conserves(1,3) [OF sm q]
    by fastforce
qed

theorem new_order_conserves_witness:
  "\<exists>a es b' a'. represents demo_book a \<and> NewLimitOrder demo_buy demo_book = Some (es, b') \<and> represents b' a'
    \<and> book_qty a' = book_qty a + sint (cmdQty demo_buy) - 2 * traded es
    \<and> 0 \<le> traded es \<and> traded es \<le> sint (cmdQty demo_buy)"
  by (rule new_order_conserves [OF demo_facts(1)]) (simp_all add: demo_buy_def demo_facts(3) signed_ord)

text \<open>C4 (functional). Price-time priority: the makers an accepted order trades with are, in order, an
  initial segment of the opposite side, which is sorted best price first and oldest first within a
  price; each trade is at the maker's price, for a positive quantity the maker had, and within the
  taker's limit. The order names \<open>Buy\<close> or \<open>Sell\<close>; one that does not has no limit.\<close>

theorem trades_in_priority:
  assumes "reach P b" and "sint (nextOrderId b) < 2 ^ 63 - 1" and "0 <s cmdQty cmd" and "0 <s cmdPrice cmd"
    and "cmdSide cmd = Buy \<or> cmdSide cmd = Sell"
  shows "\<exists>a es b' n. represents b a \<and> NewLimitOrder cmd b = Some (es, b')
    \<and> prioritised (cmdSide cmd = Sell) (side_of a (cmdSide cmd = Sell))
    \<and> map MakerOrderId (trades es) = map oid (take n (side_of a (cmdSide cmd = Sell)))
    \<and> (\<forall>e \<in> set (trades es). trade_ok (new_order cmd (nextOrderId b)) (side_of a (cmdSide cmd = Sell)) e
         \<and> within_limit (new_order cmd (nextOrderId b)) (Price e))"
proof -
  obtain a where a: "represents b a" "book_inv a" using reach_wf [OF assms(1)] by blast
  obtain es b' a' where e: "NewLimitOrder cmd b = Some (es, b')" "spec_new cmd a = (es, a')"
    using exec_spec [OF a assms(2), of "SubmitCmd cmd", unfolded exec.simps spec_exec.simps] by blast
  obtain ev ta ms ps where sm: "spec_match (new_order cmd (anext a)) (side_of a (cmdSide cmd = Sell)) = (ev, ta, ms, ps)"
    by (metis prod_cases4)
  have "\<forall>m \<in> set (side_of a (cmdSide cmd = Sell)). 0 <s qty m" using a(2) by (simp add: book_inv_def resting_ok_def)
  then have "\<forall>e \<in> set (trades es). trade_ok (new_order cmd (anext a)) (side_of a (cmdSide cmd = Sell)) e
      \<and> within_limit (new_order cmd (anext a)) (Price e)"
    using spec_match_trades(1) [OF sm] spec_match_crosses [OF sm] spec_new_trades [OF e(2) assms(3,4) sm] assms(5)
    by (simp add: within_limit_crosses)
  with spec_match_suffix [OF sm] spec_new_trades [OF e(2) assms(3,4) sm]
  show ?thesis using a e(1) wf_next [OF a(1)] unfolding book_inv_def by metis
qed

theorem trades_in_priority_witness:
  "\<exists>a es b' n. represents demo_book a \<and> NewLimitOrder demo_buy demo_book = Some (es, b')
    \<and> prioritised (cmdSide demo_buy = Sell) (side_of a (cmdSide demo_buy = Sell))
    \<and> map MakerOrderId (trades es) = map oid (take n (side_of a (cmdSide demo_buy = Sell)))
    \<and> (\<forall>e \<in> set (trades es). trade_ok (new_order demo_buy (nextOrderId demo_book)) (side_of a (cmdSide demo_buy = Sell)) e
         \<and> within_limit (new_order demo_buy (nextOrderId demo_book)) (Price e))"
  by (rule trades_in_priority [OF demo_facts(1)]) (simp_all add: demo_buy_def demo_facts(3) signed_ord)

text \<open>C8 (safety). While every submitted order names one of the two sides, the book is never crossed:
  every resting bid is below every resting ask.\<close>

theorem book_uncrossed:
  assumes "reach valid_side b"
  shows "\<exists>a. represents b a \<and> (\<forall>x \<in> set (side_of a True). \<forall>y \<in> set (side_of a False). price x <s price y)"
  using reach_valid [OF assms] by (auto simp: uncrossed_def)

theorem book_uncrossed_witness:
  "\<exists>a. represents demo_book a \<and> (\<forall>x \<in> set (side_of a True). \<forall>y \<in> set (side_of a False). price x <s price y)"
  by (rule book_uncrossed [OF demo_facts(1)])

text \<open>C9 (functional). Market data is complete as long as every order so far, and the command, names \<open>Buy\<close> or \<open>Sell\<close>:
  a subscriber that starts from the displayed depth and applies only the \<open>BookUpdate\<close> events of the
  command has the displayed depth after it, at every price of both sides. (An order of another side, such
  as the null side, rests among the asks but is announced under its own side.)\<close>

theorem market_data_complete:
  assumes "reach valid_side b" and "valid_side c" and "sint (nextOrderId b) < 2 ^ 63 - 1"
  shows "\<exists>a es b' a'. represents b a \<and> exec c b = Some (es, b') \<and> represents b' a'
    \<and> (\<forall>p. fold view_update es (depth_view a) (Buy, p) = depth_view a' (Buy, p)
         \<and> fold view_update es (depth_view a) (Sell, p) = depth_view a' (Sell, p))"
proof -
  obtain a where a: "represents b a" "book_inv a" "proper a" using reach_valid [OF assms(1)] by blast
  obtain es b' a' where e: "exec c b = Some (es, b')" "spec_exec c a = (es, a')" "represents b' a'"
    using exec_spec [OF a(1,2) assms(3), of c] by blast
  have "fold view_update es (depth_view a) k = depth_view a' k" if "fst k = Buy \<or> fst k = Sell" for k
    using e(2) assms(2) spec_new_view [OF _ _ that, of _ a es a'] spec_cancel_view [OF _ wf_distinct_ids [OF a(1)] a(2,3) that]
    by (cases c) auto
  then show ?thesis using a e by (metis fst_conv)
qed

theorem market_data_complete_witness:
  "\<exists>a es b' a'. represents demo_book a \<and> exec (SubmitCmd demo_buy) demo_book = Some (es, b') \<and> represents b' a'
    \<and> (\<forall>p. fold view_update es (depth_view a) (Buy, p) = depth_view a' (Buy, p)
         \<and> fold view_update es (depth_view a) (Sell, p) = depth_view a' (Sell, p))"
  by (rule market_data_complete [OF demo_facts(1)]) (simp_all add: demo_buy_def demo_facts(3))

text \<open>C10 (functional, error). Cancelling: the owner of a resting order takes exactly that order out and
  gets its remaining quantity and the level's new total; anyone else is refused, as is an id that is
  not resting, and the book is untouched.\<close>

theorem cancel_outcomes:
  assumes "reach P b" and "represents b a"
  shows "(\<forall>d. \<forall>x \<in> set (side_of a d). \<forall>who. if who = owner x
      then (\<exists>b'. Cancel (oid x) who b = Some ([canceledEvent x, bookUpdateEvent (side x) (price x)
               (depth (side_of (remove_order (oid x) a) d) (price x))], b') \<and> represents b' (remove_order (oid x) a))
      else Cancel (oid x) who b = Some ([rejectedCancel (oid x) who ReasonNotOwner], b))
    \<and> (\<forall>k who. (\<forall>d. k \<notin> oid ` set (side_of a d)) \<longrightarrow>
      Cancel k who b = Some ([rejectedCancel k who ReasonUnknownOrder], b))"
proof
  show "\<forall>d. \<forall>x \<in> set (side_of a d). \<forall>who. if who = owner x
      then (\<exists>b'. Cancel (oid x) who b = Some ([canceledEvent x, bookUpdateEvent (side x) (price x)
               (depth (side_of (remove_order (oid x) a) d) (price x))], b') \<and> represents b' (remove_order (oid x) a))
      else Cancel (oid x) who b = Some ([rejectedCancel (oid x) who ReasonNotOwner], b)"
    using cancel_resting [OF assms] by blast
  show "\<forall>k who. (\<forall>d. k \<notin> oid ` set (side_of a d)) \<longrightarrow>
      Cancel k who b = Some ([rejectedCancel k who ReasonUnknownOrder], b)"
    using cancel_unknown [OF assms(2)] by blast
qed

theorem cancel_outcomes_witness:
  "(\<exists>b'. Cancel 1 7 demo_book = Some ([canceledEvent (hd (side_of demo_abook False)), bookUpdateEvent Sell 10 0], b')
     \<and> represents b' (remove_order 1 demo_abook))
   \<and> Cancel 1 8 demo_book = Some ([rejectedCancel 1 8 ReasonNotOwner], demo_book)
   \<and> Cancel 3 7 demo_book = Some ([rejectedCancel 3 7 ReasonUnknownOrder], demo_book)"
proof -
  let ?x = "hd (side_of demo_abook False)"
  note c = cancel_outcomes [OF demo_facts(1,2)]
  have x: "?x \<in> set (side_of demo_abook False)" "oid ?x = 1" "owner ?x = 7" "side ?x = Sell" "price ?x = 10"
    by (simp_all add: demo_abook_def)
  have e: "side_of (remove_order 1 demo_abook) False = []" by (simp add: demo_abook_def remove_order_def)
  have k: "\<forall>d. 3 \<notin> oid ` set (side_of demo_abook d)" by (simp add: demo_abook_def)
  show ?thesis
    using conjunct1 [OF c, rule_format, OF x(1), of 7] conjunct1 [OF c, rule_format, OF x(1), of 8]
      conjunct2 [OF c, rule_format, of 3 7] k x e by auto
qed

text \<open>C20 (equivalence). On the sides of a reachable book the binary search returns what a linear scan
  returns: the position of the level with the wanted price, or the position where a level of that price
  has to be inserted, and which of the two.\<close>

theorem search_is_scan:
  assumes "reach P b"
  shows "levelIndex b (sideLevels d b) p d = Some (scanIndex (map (\<lambda>lr. lprice (the (levelAt b lr))) (sideLevels d b)) p d)"
proof -
  obtain L where "shape b L" using reach_wf [OF assms] by (auto simp: represents_def)
  then have "sideOk b d" by (rule shape_sideOk)
  from li.index_scan [OF this, of p] show ?thesis by (simp add: sideIndex_def sidePrices_def lpriceAt_def [abs_def])
qed

theorem search_is_scan_witness:
  "levelIndex demo_book (sideLevels False demo_book) 10 False
     = Some (scanIndex (map (\<lambda>lr. lprice (the (levelAt demo_book lr))) (sideLevels False demo_book)) 10 False)"
  by (rule search_is_scan [OF demo_facts(1)])

end
