(* ===== verification/Snapshot.thy ===== *)
theory Snapshot
  imports Guarantees Wire
begin

text \<open>
  Snapshots, \<open>src/go/engine/snapshot.go\<close>. \<open>binary.Write\<close> and \<open>binary.Read\<close> with
  \<open>binary.LittleEndian\<close> put and take the same bytes as the marshaller's writers and readers, with the
  same end-of-input errors, so those are used for them. Walking a FIFO by its \<open>next\<close> pointers may
  panic or not end on a malformed book: \<open>None\<close>.
\<close>

datatype snapError =
    ReadError werror
  | BadMagic u32
  | UnsupportedVersion i32

definition snapshotMagic :: u32 where
  "snapshotMagic = 0x474D5331"

definition snapshotVersion :: i32 where
  "snapshotVersion = 1"

text \<open>The fields of one order, as \<open>writeSide\<close> emits them.\<close>

definition writeOrder :: "order \<Rightarrow> bytes \<Rightarrow> bytes" where
  "writeOrder x w =
     (let w = WriteInt64 w (oid x);
          w = WriteInt64 w (clientOrderId x);
          w = WriteInt64 w (owner x);
          w = WriteInt8 w (side x);
          w = WriteInt64 w (price x)
      in WriteInt64 w (qty x))"

text \<open>\<open>for o := lvl.head; o != nil; o = o.next\<close>.\<close>

partial_function (option) writeOrders :: "OrderBook \<Rightarrow> oref option \<Rightarrow> bytes \<Rightarrow> bytes option" where
  "writeOrders b p w = (case p of
     None \<Rightarrow> Some w
   | Some r \<Rightarrow> do { x \<leftarrow> orderAt b r; writeOrders b (nxt x) (writeOrder x w) })"

fun writeSide :: "OrderBook \<Rightarrow> lref list \<Rightarrow> bytes \<Rightarrow> bytes option" where
  "writeSide b [] w = Some w"
| "writeSide b (lr # levels) w = do {
     l \<leftarrow> levelAt b lr;
     w \<leftarrow> writeOrders b (head l) w;
     writeSide b levels w
   }"

definition writeHeader :: "OrderBook \<Rightarrow> bytes" where
  "writeHeader b =
     (let w = WriteUint32 [] snapshotMagic;
          w = WriteInt32 w snapshotVersion;
          w = WriteInt64 w 1;
          w = WriteInt64 w (nextOrderId b)
      in WriteInt32 w (word_of_nat (length (orders b))))"

definition Snapshot :: "OrderBook \<Rightarrow> bytes option" where
  "Snapshot b = do {
     w \<leftarrow> writeSide b (bids b) (writeHeader b);
     writeSide b (asks b) w
   }"

section \<open>Restoring\<close>

definition readE :: "werror + 'a \<Rightarrow> snapError + 'a" where
  "readE m = (case m of Inl e \<Rightarrow> Inl (ReadError e) | Inr x \<Rightarrow> Inr x)"

text \<open>One order of the stream, with no pointers set.\<close>

definition readOrder :: "bytes \<Rightarrow> snapError + order \<times> bytes" where
  "readOrder r =
     bindE (readE (ReadInt64 r)) (\<lambda>(xid, r).
     bindE (readE (ReadInt64 r)) (\<lambda>(xclient, r).
     bindE (readE (ReadInt64 r)) (\<lambda>(xowner, r).
     bindE (readE (ReadInt8 r)) (\<lambda>(xside, r).
     bindE (readE (ReadInt64 r)) (\<lambda>(xprice, r).
     bindE (readE (ReadInt64 r)) (\<lambda>(xqty, r).
     Inr (\<lparr>oid = xid, clientOrderId = xclient, owner = xowner, side = xside, price = xprice, qty = xqty,
           level = None, prev = None, nxt = None\<rparr>, r)))))))"

text \<open>The loop \<open>for i := int32(0); i < count; i++\<close>, counted down.\<close>

fun restoreOrders :: "nat \<Rightarrow> bytes \<Rightarrow> OrderBook \<Rightarrow> (snapError + OrderBook \<times> bytes) option" where
  "restoreOrders 0 r b = Some (Inr (b, r))"
| "restoreOrders (Suc n) r b = (case readOrder r of
     Inl e \<Rightarrow> Some (Inl e)
   | Inr (x, r) \<Rightarrow> (let (ref, b) = newO x b in do {
       (lr, b) \<leftarrow> restOrder ref b;
       restoreOrders n r b
     }))"

text \<open>The five header fields.\<close>

definition readHeader :: "bytes \<Rightarrow> snapError + (u32 \<times> i32 \<times> i64 \<times> i64 \<times> i32) \<times> bytes" where
  "readHeader r =
     bindE (readE (ReadUint32 r)) (\<lambda>(magic, r).
     bindE (readE (ReadInt32 r)) (\<lambda>(version, r).
     bindE (readE (ReadInt64 r)) (\<lambda>(instrument, r).
     bindE (readE (ReadInt64 r)) (\<lambda>(next, r).
     bindE (readE (ReadInt32 r)) (\<lambda>(count, r).
     Inr ((magic, version, instrument, next, count), r))))))"

definition RestoreOrderBook :: "bytes \<Rightarrow> (snapError + OrderBook \<times> bytes) option" where
  "RestoreOrderBook r = (case readHeader r of
     Inl e \<Rightarrow> Some (Inl e)
   | Inr ((magic, version, instrument, next, count), r) \<Rightarrow>
       if magic \<noteq> snapshotMagic then Some (Inl (BadMagic magic))
       else if version \<noteq> snapshotVersion then Some (Inl (UnsupportedVersion version))
       else (case restoreOrders (nat (sint count)) r NewOrderBook of
           None \<Rightarrow> None
         | Some (Inl e) \<Rightarrow> Some (Inl e)
         | Some (Inr (b, r)) \<Rightarrow> Some (Inr (b\<lparr>nextOrderId := next\<rparr>, r))))"

section \<open>What is written\<close>

lemma writeOrder_append: "writeOrder x w = w @ writeOrder x []"
  by (simp add: writeOrder_def Let_def Write_append [of w] wire_simps)

lemma writeOrder_val [simp]: "writeOrder (val x) w = writeOrder x w"
  by (simp add: writeOrder_def)

lemma readOrder_writeOrder:
  "level x = None \<Longrightarrow> prev x = None \<Longrightarrow> nxt x = None \<Longrightarrow> readOrder (writeOrder x [] @ r) = Inr (x, r)"
  by (cases x) (simp add: readOrder_def writeOrder_def Let_def wire_simps readE_def)

definition orderBytes :: "order list \<Rightarrow> bytes" where
  "orderBytes xs = concat (map (\<lambda>x. writeOrder x []) xs)"

lemma orderBytes_simps [simp]:
  "orderBytes [] = []" "orderBytes (x # xs) = writeOrder x [] @ orderBytes xs"
  "orderBytes (xs @ ys) = orderBytes xs @ orderBytes ys"
  by (simp_all add: orderBytes_def)

lemma writeOrders_dseg:
  "dseg (orderAt b) p x rs t None \<Longrightarrow> writeOrders b x w = Some (w @ orderBytes (vals b rs))"
proof (induction rs arbitrary: p x w)
  case Nil
  then show ?case by (subst writeOrders.simps) simp
next
  case (Cons r rs)
  then obtain z where z: "x = Some r" "orderAt b r = Some z" "dseg (orderAt b) (Some r) (nxt z) rs t None"
    by auto
  show ?case
    using Cons.IH [OF z(3)] z(1,2) by (subst writeOrders.simps) (simp add: writeOrder_append [of z w])
qed

lemma writeSide_levels:
  "(\<And>e. e \<in> set es \<Longrightarrow> lvl_shape b d e) \<Longrightarrow>
   writeSide b (map fst es) w = Some (w @ orderBytes (vals b (concat (map snd es))))"
proof (induction es arbitrary: w)
  case (Cons e es)
  obtain l where l: "levelAt b (fst e) = Some l" "dseg (orderAt b) None (head l) (snd e) (tail l) None"
    using Cons.prems [of e] by (auto simp: lvl_shape_def)
  show ?case using Cons.IH Cons.prems writeOrders_dseg [OF l(2)] l(1) by simp
qed simp

text \<open>The bytes of a snapshot are a function of the book represented.\<close>

definition snapBytes :: "abook \<Rightarrow> bytes" where
  "snapBytes a = WriteUint32 [] snapshotMagic @ WriteInt32 [] snapshotVersion @ WriteInt64 [] 1
     @ WriteInt64 [] (anext a)
     @ WriteInt32 [] (word_of_nat (length (side_of a True) + length (side_of a False)))
     @ orderBytes (side_of a True @ side_of a False)"

lemma represents_length:
  assumes "represents b a"
  shows "length (orders b) = length (side_of a True) + length (side_of a False)"
proof -
  obtain L where L: "shape b L" "absb b L = a" using assms by (auto simp: represents_def)
  let ?ids = "map oid (side_of a True @ side_of a False)"
  have "k \<in> fst ` set (orders b) \<longleftrightarrow> k \<in> set ?ids" for k
  proof -
    have "map_of (orders b) k \<noteq> None \<longleftrightarrow> (\<exists>d. k \<in> oid ` set (side_of a d))"
      unfolding shape_keys [OF L(1), of k] L(2) [symmetric] by (simp add: absb_def)
    then show ?thesis by (simp add: map_of_eq_None_iff ex_bool_eq image_Un)
  qed
  then have "set (map fst (orders b)) = set ?ids" by (intro set_eqI) simp
  moreover have "distinct (map fst (orders b))" using L(1) by (simp add: shape_def)
  ultimately have "length (map fst (orders b)) = length ?ids"
    using wf_distinct_ids [OF assms] by (metis distinct_card)
  then show ?thesis by simp
qed

lemma Snapshot_bytes:
  assumes "represents b a"
  shows "Snapshot b = Some (snapBytes a)"
proof -
  obtain L where L: "shape b L" "absb b L = a" using assms by (auto simp: represents_def)
  have sd: "writeSide b (sideLevels d b) w = Some (w @ orderBytes (side_of a d))" for d w
    using writeSide_levels [of "L d" b d w] shape_level [OF L(1)] shape_sides [OF L(1), of d] L(2)
    by (auto simp: absb_def refs_def)
  have hd: "writeHeader b = WriteUint32 [] snapshotMagic @ WriteInt32 [] snapshotVersion @ WriteInt64 [] 1
     @ WriteInt64 [] (anext a) @ WriteInt32 [] (word_of_nat (length (side_of a True) + length (side_of a False)))"
    unfolding writeHeader_def represents_length [OF assms] wf_next [OF assms] by (simp add: Let_def wire_simps)
  show ?thesis
    using sd [of True "writeHeader b"] sd [of False] unfolding Snapshot_def snapBytes_def hd
    by (simp add: sideLevels_def)
qed

section \<open>What is read back\<close>

definition placed :: "order \<Rightarrow> OrderBook \<Rightarrow> OrderBook" where
  "placed x b = b\<lparr>orderAt := (orderAt b)(orderTop b \<mapsto> x), orderTop := orderTop b + 1\<rparr>"

lemma shape_next [simp]: "shape (b\<lparr>nextOrderId := k\<rparr>) L \<longleftrightarrow> shape b L"
  by (simp add: shape_def lvl_shape_def sidePrices_def lpriceAt_def [abs_def])

lemma booked_next [simp]: "booked (b\<lparr>nextOrderId := k\<rparr>) L \<longleftrightarrow> booked b L"
  by (simp add: booked_def accounted_def vals_def)

lemma arrived_placed: "arrived x b = (placed x b)\<lparr>nextOrderId := nextOrderId b + 1\<rparr>"
  by (simp add: arrived_def placed_def)

definition spec_place :: "abook \<Rightarrow> order \<Rightarrow> abook" where
  "spec_place a x = (let d = (side x = Buy) in a\<lparr>side_of := (side_of a)(d := spec_rest d x (side_of a d))\<rparr>)"

lemma restore_one:
  assumes rep: "represents b a" and x: "val x = x" "0 <s qty x" and new: "\<And>d. oid x \<notin> oid ` set (side_of a d)"
  shows "\<exists>lr b'. restOrder (orderTop b) (placed x b) = Some (lr, b') \<and> represents b' (spec_place a x)"
proof -
  obtain L where L: "shape b L" "booked b L" "absb b L = a" using rep by (auto simp: represents_def)
  have ptr: "level x = None" "prev x = None" "nxt x = None" using x(1) by (metis val_sel(7-9))+
  have sh: "shape (placed x b) L" "booked (placed x b) L"
    using arrived_shape [OF L(1), of x] arrived_booked [OF L(1,2), of x] by (simp_all add: arrived_placed)
  have rd: "ready (placed x b) L (orderTop b) x"
    using arrived_ready [OF L(1) ptr] by (simp add: ready_def arrived_placed)
  have vs: "vals (placed x b) (refs L d) = side_of a d" for d
    using arrived_vals [OF L(1), of x d] L(3) by (auto simp: arrived_placed vals_def absb_def)
  have "map_of (orders (placed x b)) (oid x) = None"
    unfolding shape_keys [OF sh(1)] vs using new by blast
  from rest_refines [OF sh rd x(2) this, unfolded vs]
  obtain lr b' L' where b': "restOrder (orderTop b) (placed x b) = Some (lr, b')" "shape b' L'" "booked b' L'"
    "vals b' (refs L' (side x = Buy)) = spec_rest (side x = Buy) x (side_of a (side x = Buy))"
    "vals b' (refs L' (\<not> (side x = Buy))) = side_of a (\<not> (side x = Buy))"
    "nextOrderId b' = nextOrderId (placed x b)" using x(1) by auto
  have "vals b' (refs L' d) = side_of (spec_place a x) d" for d
    using b'(4,5) by (cases "d = (side x = Buy)") (auto simp: spec_place_def Let_def)
  moreover have "nextOrderId b' = anext (spec_place a x)"
    using b'(6) wf_next [OF rep] by (simp add: placed_def spec_place_def Let_def)
  ultimately have "absb b' L' = spec_place a x" by (simp add: absb_def)
  then show ?thesis using b'(1-3) by (auto simp: represents_def)
qed

lemma spec_place_ids: "oid ` set (side_of (spec_place a x) d) \<subseteq> insert (oid x) (oid ` set (side_of a d))"
  by (auto simp: spec_place_def Let_def)

lemma restoreOrders_spec:
  assumes "represents b a" and "\<forall>x \<in> set xs. val x = x \<and> 0 <s qty x"
    and "distinct (map oid xs)" and "\<And>d. oid ` set xs \<inter> oid ` set (side_of a d) = {}"
  shows "\<exists>b'. restoreOrders (length xs) (orderBytes xs @ r) b = Some (Inr (b', r)) \<and> represents b' (foldl spec_place a xs)"
  using assms
proof (induction xs arbitrary: b a)
  case (Cons x xs)
  have ptr: "level x = None" "prev x = None" "nxt x = None" using Cons.prems(2) by (metis list.set_intros(1) val_sel(7-9))+
  have "\<And>d. oid x \<notin> oid ` set (side_of a d)" using Cons.prems(4) by auto
  then obtain lr b1 where b1: "restOrder (orderTop b) (placed x b) = Some (lr, b1)" "represents b1 (spec_place a x)"
    using restore_one [OF Cons.prems(1), of x] Cons.prems(2) by auto
  have dj: "oid ` set xs \<inter> oid ` set (side_of (spec_place a x) d) = {}" for d
  proof -
    have "oid ` set xs \<inter> insert (oid x) (oid ` set (side_of a d)) = {}"
      using Cons.prems(3) Cons.prems(4) [of d] by simp
    then show ?thesis using spec_place_ids [of a x d] by blast
  qed
  obtain b' where "restoreOrders (length xs) (orderBytes xs @ r) b1 = Some (Inr (b', r))"
    "represents b' (foldl spec_place (spec_place a x) xs)"
    using Cons.IH [OF b1(2) _ _ dj] Cons.prems(2,3) by auto
  then show ?case using b1(1) readOrder_writeOrder [OF ptr]
    by (simp add: newO_def placed_def)
qed simp


section \<open>The round trip\<close>

lemma foldl_place:
  assumes "prioritised d (ys @ xs)" and "side_of a d = ys" and "\<forall>x \<in> set xs. (side x = Buy) = d"
  shows "foldl spec_place a xs = a\<lparr>side_of := (side_of a)(d := ys @ xs)\<rparr>"
  using assms
proof (induction xs arbitrary: a ys)
  case Nil
  then show ?case by (cases a) (auto simp: fun_eq_iff)
next
  case (Cons x xs)
  have "\<forall>y \<in> set ys. \<not> better d (price x) (price y)"
    using Cons.prems(1) by (auto simp: prioritised_def sorted_wrt_append before_def dest: better_asym)
  then have "spec_rest d x ys = ys @ [x]" using spec_rest_split [of ys d x "[]"] by simp
  then have "spec_place a x = a\<lparr>side_of := (side_of a)(d := ys @ [x])\<rparr>"
    using Cons.prems(2,3) by (simp add: spec_place_def Let_def)
  then show ?case using Cons.IH [of "ys @ [x]" "spec_place a x"] Cons.prems
    by (simp add: fun_upd_def cong: if_cong)
qed

lemma readHeader_snapBytes:
  "readHeader (snapBytes a) = Inr ((snapshotMagic, snapshotVersion, 1, anext a,
     word_of_nat (length (side_of a True) + length (side_of a False))), orderBytes (side_of a True @ side_of a False))"
  by (simp add: readHeader_def snapBytes_def readE_def)

lemma represents_val:
  assumes "represents b a" and "x \<in> set (side_of a d)"
  shows "val x = x"
  using assms by (auto simp: represents_def absb_def vals_def)

lemma sint_count: "int n < 2 ^ 31 \<Longrightarrow> nat (sint (word_of_nat n :: i32)) = n"
  by (simp add: sint_small32)

lemma Restore_snapBytes:
  assumes rep: "represents b a" and inv: "book_inv a" and small: "int (length (orders b)) < 2 ^ 31"
  shows "\<exists>b'. RestoreOrderBook (snapBytes a) = Some (Inr (b', [])) \<and> represents b' a"
proof -
  let ?B = "side_of a True" and ?A = "side_of a False" and ?e = "\<lparr>side_of = (\<lambda>d. []), anext = 1\<rparr> :: abook"
  have ok: "\<forall>x \<in> set (?B @ ?A). val x = x \<and> 0 <s qty x"
    using represents_val [OF rep] inv by (auto simp: book_inv_def resting_ok_def)
  obtain b' where b': "restoreOrders (length (?B @ ?A)) (orderBytes (?B @ ?A) @ []) NewOrderBook = Some (Inr (b', []))"
    "represents b' (foldl spec_place ?e (?B @ ?A))"
    using restoreOrders_spec [OF wf_NewOrderBook ok wf_distinct_ids [OF rep], of "[]"] by auto
  have pr: "prioritised d (side_of a d)" "\<forall>x \<in> set (side_of a d). (side x = Buy) = d" for d
    using inv by (auto simp: book_inv_def resting_ok_def)
  have "foldl spec_place ?e ?B = ?e\<lparr>side_of := (side_of ?e)(True := ?B)\<rparr>"
    using foldl_place [of True "[]" ?B ?e] pr [of True] by simp
  moreover have "foldl spec_place (?e\<lparr>side_of := (side_of ?e)(True := ?B)\<rparr>) ?A =
      ?e\<lparr>side_of := (side_of ?e)(True := ?B, False := ?A)\<rparr>"
    using foldl_place [of False "[]" ?A "?e\<lparr>side_of := (side_of ?e)(True := ?B)\<rparr>"] pr [of False] by simp
  moreover have "(side_of ?e)(True := ?B, False := ?A) = side_of a" by (simp add: fun_eq_iff all_bool_eq)
  ultimately have "represents b' \<lparr>side_of = side_of a, anext = 1\<rparr>"
    using b'(2) by (simp del: fun_upd_apply)
  then have "represents (b'\<lparr>nextOrderId := anext a\<rparr>) a"
    unfolding represents_def by (auto simp: absb_def vals_def) 
  moreover have "nat (sint (word_of_nat (length ?B + length ?A) :: i32)) = length (?B @ ?A)"
    unfolding length_append using small represents_length [OF rep] by (intro sint_count) simp
  ultimately show ?thesis
    using b'(1) by (simp add: RestoreOrderBook_def readHeader_snapBytes)
qed


section \<open>Truncated input\<close>

lemma readOrder_short: "length r < 41 \<Longrightarrow> \<exists>e. readOrder r = Inl (ReadError e)"
  unfolding readOrder_def by (auto simp: ReadInt64_eq ReadInt8_eq readE_def)

lemma writeOrder_length [simp]: "length (writeOrder x w) = length w + 41"
  by (simp add: writeOrder_def Let_def)

lemma restoreOrders_short:
  assumes "represents b a" and "\<forall>x \<in> set xs. val x = x \<and> 0 <s qty x"
    and "distinct (map oid xs)" and "\<And>d. oid ` set xs \<inter> oid ` set (side_of a d) = {}"
    and "n < length (orderBytes xs)"
  shows "\<exists>e. restoreOrders (length xs) (take n (orderBytes xs)) b = Some (Inl (ReadError e))"
  using assms
proof (induction xs arbitrary: b a n)
  case (Cons x xs)
  show ?case
  proof (cases "n < 41")
    case True
    then obtain e where "readOrder (take n (orderBytes (x # xs))) = Inl (ReadError e)"
      using readOrder_short [of "take n (orderBytes (x # xs))"] by auto
    then show ?thesis by simp
  next
    case False
    then have tk: "take n (orderBytes (x # xs)) = writeOrder x [] @ take (n - 41) (orderBytes xs)"
      "n - 41 < length (orderBytes xs)" using Cons.prems(5) by simp_all
    have ptr: "level x = None" "prev x = None" "nxt x = None"
      using Cons.prems(2) by (metis list.set_intros(1) val_sel(7-9))+
    have "\<And>d. oid x \<notin> oid ` set (side_of a d)" using Cons.prems(4) by auto
    then obtain lr b1 where b1: "restOrder (orderTop b) (placed x b) = Some (lr, b1)" "represents b1 (spec_place a x)"
      using restore_one [OF Cons.prems(1), of x] Cons.prems(2) by auto
    have dj: "oid ` set xs \<inter> oid ` set (side_of (spec_place a x) d) = {}" for d
    proof -
      have "oid ` set xs \<inter> insert (oid x) (oid ` set (side_of a d)) = {}"
        using Cons.prems(3) Cons.prems(4) [of d] by simp
      then show ?thesis using spec_place_ids [of a x d] by blast
    qed
    obtain e where "restoreOrders (length xs) (take (n - 41) (orderBytes xs)) b1 = Some (Inl (ReadError e))"
      using Cons.IH [OF b1(2) _ _ dj tk(2)] Cons.prems(2,3) by auto
    then show ?thesis using b1(1) readOrder_writeOrder [OF ptr] unfolding tk(1)
      by (simp add: newO_def placed_def)
  qed
qed simp

lemma ReadInt32_eq: "\<exists>v. ReadInt32 r = (if 4 \<le> length r then Inr (v, drop 4 r) else Inl (shortRead r))"
  by (auto simp: ReadInt32_def readFull_def shortRead_def)

lemma ReadUint32_eq: "\<exists>v. ReadUint32 r = (if 4 \<le> length r then Inr (v, drop 4 r) else Inl (shortRead r))"
  by (auto simp: ReadUint32_def readFull_def shortRead_def)

lemma readHeader_short:
  assumes "length r < 28"
  shows "\<exists>e. readHeader r = Inl (ReadError e)"
proof -
  obtain v where v: "ReadUint32 r = (if 4 \<le> length r then Inr (v, drop 4 r) else Inl (shortRead r))"
    using ReadUint32_eq by blast
  obtain u where u: "ReadInt32 (drop 4 r) = (if 4 \<le> length (drop 4 r) then Inr (u, drop 4 (drop 4 r)) else Inl (shortRead (drop 4 r)))"
    using ReadInt32_eq by blast
  obtain t where t: "ReadInt32 (drop 24 r) = (if 4 \<le> length (drop 24 r) then Inr (t, drop 4 (drop 24 r)) else Inl (shortRead (drop 24 r)))"
    using ReadInt32_eq by blast
  show ?thesis using assms unfolding readHeader_def
    by (auto simp: v u t ReadInt64_eq readE_def)
qed

definition headBytes :: "abook \<Rightarrow> bytes" where
  "headBytes a = WriteUint32 [] snapshotMagic @ WriteInt32 [] snapshotVersion @ WriteInt64 [] 1
     @ WriteInt64 [] (anext a)
     @ WriteInt32 [] (word_of_nat (length (side_of a True) + length (side_of a False)))"

lemma snapBytes_head: "snapBytes a = headBytes a @ orderBytes (side_of a True @ side_of a False)" "length (headBytes a) = 28"
  by (simp_all add: snapBytes_def headBytes_def)

lemma readHeader_headBytes:
  "readHeader (headBytes a @ r) = Inr ((snapshotMagic, snapshotVersion, 1, anext a,
     word_of_nat (length (side_of a True) + length (side_of a False))), r)"
  by (simp add: readHeader_def headBytes_def readE_def)

lemma truncated_refused:
  assumes a: "represents b a" "book_inv a" and "int (length (orders b)) < 2 ^ 31" and "Snapshot b = Some bs" and "n < length bs"
  shows "\<exists>e. RestoreOrderBook (take n bs) = Some (Inl (ReadError e))"
proof -
  have bs: "bs = snapBytes a" using assms(4) Snapshot_bytes [OF a(1)] by simp
  show ?thesis
  proof (cases "n < 28")
    case True
    then have "length (take n bs) < 28" by simp
    from readHeader_short [OF this] obtain e where "readHeader (take n bs) = Inl (ReadError e)" by blast
    then show ?thesis by (simp add: RestoreOrderBook_def)
  next
    case False
    let ?xs = "side_of a True @ side_of a False"
    have tk: "take n bs = headBytes a @ take (n - 28) (orderBytes ?xs)" "n - 28 < length (orderBytes ?xs)"
      using False assms(5) snapBytes_head(2) [of a] unfolding bs snapBytes_head(1) by (simp_all add: take_append)
    have ok: "\<forall>x \<in> set ?xs. val x = x \<and> 0 <s qty x"
      using represents_val [OF a(1)] a(2) by (auto simp: book_inv_def resting_ok_def)
    obtain e where "restoreOrders (length ?xs) (take (n - 28) (orderBytes ?xs)) NewOrderBook = Some (Inl (ReadError e))"
      using restoreOrders_short [OF wf_NewOrderBook ok wf_distinct_ids [OF a(1)] _ tk(2)] by auto
    moreover have "nat (sint (word_of_nat (length (side_of a True) + length (side_of a False)) :: i32)) = length ?xs"
      unfolding length_append using assms(3) represents_length [OF a(1)] by (intro sint_count) simp
    ultimately show ?thesis unfolding tk(1) RestoreOrderBook_def readHeader_headBytes
      by (simp del: of_nat_add orderBytes_simps)
  qed
qed

section \<open>Properties\<close>

text \<open>C3 (roundtrip). Restoring the snapshot of a reachable book gives a book whose own snapshot is the
  same bytes and that answers every further sequence of commands with the same events, down to order
  ids and priorities. The count of orders is written as an \<open>int32\<close>, hence the bound.\<close>

theorem snapshot_roundtrip:
  assumes "reach P b" and "int (length (orders b)) < 2 ^ 31"
  shows "\<exists>bs b'. Snapshot b = Some bs \<and> RestoreOrderBook bs = Some (Inr (b', [])) \<and> Snapshot b' = Some bs
    \<and> (\<forall>cs. sint (nextOrderId b) + int (length cs) < 2 ^ 63 \<longrightarrow>
         map_option fst (runs exec cs b') = map_option fst (runs exec cs b))"
proof -
  obtain a where a: "represents b a" "book_inv a" using reach_wf [OF assms(1)] by blast
  obtain b' where b': "RestoreOrderBook (snapBytes a) = Some (Inr (b', []))" "represents b' a"
    using Restore_snapBytes [OF a assms(2)] by blast
  have "map_option fst (runs exec cs b') = map_option fst (runs exec cs b)"
    if "sint (nextOrderId b) + int (length cs) < 2 ^ 63" for cs
    using book.runs_same_events [of b' a b cs] a b'(2) that wf_next [OF a(1)] by (simp add: book_inv_def)
  then show ?thesis using Snapshot_bytes [OF a(1)] Snapshot_bytes [OF b'(2)] b'(1) by blast
qed

theorem snapshot_roundtrip_witness:
  "\<exists>bs b'. Snapshot demo_book = Some bs \<and> RestoreOrderBook bs = Some (Inr (b', [])) \<and> Snapshot b' = Some bs
    \<and> (\<forall>cs. sint (nextOrderId demo_book) + int (length cs) < 2 ^ 63 \<longrightarrow>
         map_option fst (runs exec cs b') = map_option fst (runs exec cs demo_book))"
  by (rule snapshot_roundtrip [OF demo_facts(1)])
    (simp add: represents_length [OF demo_facts(2)] demo_abook_def)

text \<open>C23 (error). A snapshot cut short anywhere is refused with a read error; it never restores to a
  smaller book and never panics.\<close>

theorem truncated_snapshot_refused:
  assumes "reach P b" and "int (length (orders b)) < 2 ^ 31" and "Snapshot b = Some bs" and "n < length bs"
  shows "\<exists>e. RestoreOrderBook (take n bs) = Some (Inl (ReadError e))"
  using reach_wf [OF assms(1)] truncated_refused assms(2-4) by blast

theorem truncated_snapshot_refused_witness:
  "\<exists>bs e. Snapshot demo_book = Some bs \<and> 40 < length bs \<and> RestoreOrderBook (take 40 bs) = Some (Inl (ReadError e))"
proof -
  have s: "Snapshot demo_book = Some (snapBytes demo_abook)" by (rule Snapshot_bytes [OF demo_facts(2)])
  have l: "40 < length (snapBytes demo_abook)" by (simp add: snapBytes_head demo_abook_def)
  show ?thesis
    using truncated_snapshot_refused [OF demo_facts(1) _ s l] s l represents_length [OF demo_facts(2)]
    by (auto simp: demo_abook_def)
qed

end
