(* ===== verification/Service.thy ===== *)
theory Service
  imports Encoding Snapshot
begin

text \<open>
  The clustered service, \<open>src/go/service/service.go\<close>: sessions, ingress, routing of engine events to
  egress, snapshots. Aeron is not part of the sources and is a parameter: the \<open>atomic.Buffer\<close> accessors
  (\<open>bufferApi\<close>), the two retriable result codes and the results successive \<open>Offer\<close> calls return
  (\<open>aeronEnv\<close>), and what successive polls of a snapshot image deliver (\<open>imageApi\<close>). A client session is
  known to the service by its id. Log output is left out. \<open>None\<close> is a Go panic or a call that never
  returns.
\<close>

record 'b bufferApi =
  GetUInt16 :: "'b \<Rightarrow> i32 \<Rightarrow> u16"
  GetBytes :: "'b \<Rightarrow> i32 \<Rightarrow> i32 \<Rightarrow> bytes"

record aeronEnv =
  BackPressured :: i64
  AdminAction :: i64
  offerResult :: "nat \<Rightarrow> i64"

text \<open>The \<open>n\<close>th poll of an image: the fragments handed to the callback, and whether the image is at its
  end or closed afterwards.\<close>

type_synonym imageApi = "nat \<Rightarrow> bytes list \<times> bool"

type_synonym ClientSession = i64

text \<open>\<open>svcOffers\<close> counts the \<open>Offer\<close> calls made and \<open>svcLog\<close> holds the frames they ended for: the session,
  the frame and the final result.\<close>

record MatchingService =
  svcBook :: OrderBook
  svcSessions :: "i64 \<rightharpoonup> ClientSession"
  svcSessionIds :: "i64 list"
  svcOffers :: nat
  svcLog :: "(ClientSession \<times> bytes \<times> i64) list"

definition sbeHeaderLength :: i32 where "sbeHeaderLength = 8"

definition schemaId :: u16 where "schemaId = 901"

definition newOrderTemplateId :: u16 where "newOrderTemplateId = 1"

definition cancelOrderTemplateId :: u16 where "cancelOrderTemplateId = 2"

definition snapshotChunkSize :: nat where "snapshotChunkSize = 1024"

definition NewMatchingService :: MatchingService where
  "NewMatchingService = \<lparr>svcBook = NewOrderBook, svcSessions = Map.empty, svcSessionIds = [], svcOffers = 0, svcLog = []\<rparr>"

section \<open>Sessions\<close>

definition OnSessionOpen :: "ClientSession \<Rightarrow> i64 \<Rightarrow> MatchingService \<Rightarrow> MatchingService" where
  "OnSessionOpen session timestamp s = s\<lparr>svcSessions := (svcSessions s)(session \<mapsto> session),
     svcSessionIds := svcSessionIds s @ [session]\<rparr>"

text \<open>The loop of \<open>OnSessionClose\<close>: cut the first entry equal to the id and stop.\<close>

fun cutFirst :: "i64 \<Rightarrow> i64 list \<Rightarrow> i64 list" where
  "cutFirst x [] = []"
| "cutFirst x (y # ys) = (if y = x then ys else y # cutFirst x ys)"

definition OnSessionClose :: "ClientSession \<Rightarrow> i64 \<Rightarrow> MatchingService \<Rightarrow> MatchingService" where
  "OnSessionClose session timestamp s = s\<lparr>svcSessions := (svcSessions s)(session := None),
     svcSessionIds := cutFirst session (svcSessionIds s)\<rparr>"

section \<open>Notifications\<close>

text \<open>The callbacks of the cluster that the service has to provide and does not react to: their bodies are
  empty or only log. The types of roles, cluster handles and time units are Aeron's.\<close>

definition OnTimerEvent :: "i64 \<Rightarrow> i64 \<Rightarrow> MatchingService \<Rightarrow> MatchingService" where
  "OnTimerEvent correlationId timestamp s = s"

definition OnRoleChange :: "'role \<Rightarrow> MatchingService \<Rightarrow> MatchingService" where
  "OnRoleChange role s = s"

definition OnTerminate :: "'cluster \<Rightarrow> MatchingService \<Rightarrow> MatchingService" where
  "OnTerminate c s = s"

definition OnNewLeadershipTermEvent :: "i64 \<Rightarrow> i64 \<Rightarrow> i64 \<Rightarrow> i64 \<Rightarrow> i32 \<Rightarrow> i32 \<Rightarrow> 'unit \<Rightarrow> i32 \<Rightarrow> MatchingService \<Rightarrow> MatchingService" where
  "OnNewLeadershipTermEvent leadershipTermId logPosition timestamp termBaseLogPosition leaderMemberId logSessionId
     timeUnit appVersion s = s"

section \<open>Egress\<close>

definition retriable :: "aeronEnv \<Rightarrow> i64 \<Rightarrow> bool" where
  "retriable env result \<longleftrightarrow> result = BackPressured env \<or> result = AdminAction env"

partial_function (option) offer ::
  "aeronEnv \<Rightarrow> ClientSession \<Rightarrow> bytes \<Rightarrow> MatchingService \<Rightarrow> MatchingService option" where
  "offer env sess frame s =
     (let result = offerResult env (svcOffers s);
          s = s\<lparr>svcOffers := svcOffers s + 1\<rparr>
      in if 0 \<le>s result then Some (s\<lparr>svcLog := svcLog s @ [(sess, frame, result)]\<rparr>)
         else if \<not> retriable env result then Some (s\<lparr>svcLog := svcLog s @ [(sess, frame, result)]\<rparr>)
         else offer env sess frame s)"

definition sendTo :: "aeronEnv \<Rightarrow> i64 \<Rightarrow> bytes \<Rightarrow> MatchingService \<Rightarrow> MatchingService option" where
  "sendTo env sessionId frame s = (case svcSessions s sessionId of
     None \<Rightarrow> Some s
   | Some sess \<Rightarrow> offer env sess frame s)"

fun broadcast_loop :: "aeronEnv \<Rightarrow> i64 list \<Rightarrow> bytes \<Rightarrow> MatchingService \<Rightarrow> MatchingService option" where
  "broadcast_loop env [] frame s = Some s"
| "broadcast_loop env (i # ids) frame s = do {
     s \<leftarrow> sendTo env i frame s;
     broadcast_loop env ids frame s
   }"

definition broadcast :: "aeronEnv \<Rightarrow> bytes \<Rightarrow> MatchingService \<Rightarrow> MatchingService option" where
  "broadcast env frame s = broadcast_loop env (svcSessionIds s) frame s"

definition mustEncode :: "werror + bytes \<Rightarrow> bytes option" where
  "mustEncode r = (case r of Inl e \<Rightarrow> None | Inr frame \<Rightarrow> Some frame)"

definition routeEvent :: "aeronEnv \<Rightarrow> i64 \<Rightarrow> Event \<Rightarrow> MatchingService \<Rightarrow> MatchingService option" where
  "routeEvent env timestamp ev s =
     (if Type ev = EvAccepted \<or> Type ev = EvRejected \<or> Type ev = EvCanceled then do {
        frame \<leftarrow> mustEncode (encodeExecutionReport ev timestamp);
        sendTo env (Owner ev) frame s
      } else if Type ev = EvFilled then do {
        frame \<leftarrow> mustEncode (encodeExecutionReport ev timestamp);
        sendTo env (Owner ev) frame s
      } else if Type ev = EvTrade then do {
        frame \<leftarrow> mustEncode (encodeTrade ev timestamp);
        broadcast env frame s
      } else do {
        frame \<leftarrow> mustEncode (encodeBookUpdate ev timestamp);
        broadcast env frame s
      })"

fun route :: "aeronEnv \<Rightarrow> Event list \<Rightarrow> i64 \<Rightarrow> MatchingService \<Rightarrow> MatchingService option" where
  "route env [] timestamp s = Some s"
| "route env (ev # events) timestamp s = do {
     s \<leftarrow> routeEvent env timestamp ev s;
     route env events timestamp s
   }"

section \<open>Ingress\<close>

definition emptyNewOrder :: NewOrder where
  "emptyNewOrder = \<lparr>no_ClientOrderId = 0, no_Side = 0, no_Price = 0, no_Qty = 0\<rparr>"

definition emptyCancelOrder :: CancelOrder where
  "emptyCancelOrder = \<lparr>co_OrderId = 0\<rparr>"

text \<open>The \<open>switch\<close> on the template: the command a message asks for, or \<open>None\<close> where the handler logs and
  returns.\<close>

definition ingressCommand :: "u16 \<Rightarrow> u16 \<Rightarrow> u16 \<Rightarrow> ClientSession \<Rightarrow> bytes \<Rightarrow> command option" where
  "ingressCommand templateId version blockLength session body =
     (if templateId = newOrderTemplateId then
        (case NewOrder_Decode emptyNewOrder version blockLength True body of
           Inl e \<Rightarrow> None
         | Inr (msg, r) \<Rightarrow> Some (SubmitCmd \<lparr>cmdClientOrderId = no_ClientOrderId msg, cmdOwner = session,
             cmdSide = no_Side msg, cmdPrice = no_Price msg, cmdQty = no_Qty msg\<rparr>))
      else if templateId = cancelOrderTemplateId then
        (case CancelOrder_Decode emptyCancelOrder version blockLength True body of
           Inl e \<Rightarrow> None
         | Inr (msg, r) \<Rightarrow> Some (CancelCmd (co_OrderId msg) session))
      else None)"

definition OnSessionMessage :: "'b bufferApi \<Rightarrow> aeronEnv \<Rightarrow> ClientSession \<Rightarrow> i64 \<Rightarrow> 'b \<Rightarrow> i32 \<Rightarrow> i32 \<Rightarrow>
    MatchingService \<Rightarrow> MatchingService option" where
  "OnSessionMessage api env session timestamp buffer offset len s =
     (if len <s sbeHeaderLength then Some s
      else
        (let blockLength = GetUInt16 api buffer offset;
             templateId = GetUInt16 api buffer (offset + 2);
             msgSchemaId = GetUInt16 api buffer (offset + 4);
             version = GetUInt16 api buffer (offset + 6)
         in if msgSchemaId \<noteq> schemaId then Some s
            else
              (let body = GetBytes api buffer (offset + sbeHeaderLength) (len - sbeHeaderLength)
               in case ingressCommand templateId version blockLength session body of
                    None \<Rightarrow> Some s
                  | Some cmd \<Rightarrow> do {
                      (events, book) \<leftarrow> exec cmd (svcBook s);
                      route env events timestamp (s\<lparr>svcBook := book\<rparr>)
                    })))"

section \<open>Snapshots\<close>

text \<open>The chunks \<open>writeSnapshot\<close> hands to \<open>emit\<close>, in order; an error of \<open>emit\<close> ends it.\<close>

function emitChunks :: "('p \<Rightarrow> bytes \<Rightarrow> ('e + 'p) option) \<Rightarrow> bytes \<Rightarrow> 'p \<Rightarrow> ('e + 'p) option" where
  "emitChunks emit data p =
     (if data = [] then Some (Inr p)
      else
        (let n = (if length data < snapshotChunkSize then length data else snapshotChunkSize)
         in case emit p (take n data) of
              None \<Rightarrow> None
            | Some (Inl e) \<Rightarrow> Some (Inl e)
            | Some (Inr p) \<Rightarrow> emitChunks emit (drop n data) p))"
  by pat_completeness auto
termination
  by (relation "measure (\<lambda>(emit, data, p). length data)") (auto simp: snapshotChunkSize_def)

declare emitChunks.simps [simp del]

definition writeSnapshot :: "('p \<Rightarrow> bytes \<Rightarrow> ('e + 'p) option) \<Rightarrow> 'p \<Rightarrow> MatchingService \<Rightarrow> ('e + 'p) option" where
  "writeSnapshot emit p s = do {
     data \<leftarrow> Snapshot (svcBook s);
     emitChunks emit data p
   }"

text \<open>The publication a snapshot goes to: the number of offers made and the chunks accepted.\<close>

type_synonym publication = "nat \<times> bytes list"

partial_function (option) offerChunk ::
  "aeronEnv \<Rightarrow> publication \<Rightarrow> bytes \<Rightarrow> (i64 + publication) option" where
  "offerChunk env p chunk =
     (let result = offerResult env (fst p); p' = (fst p + 1, snd p)
      in if 0 \<le>s result then Some (Inr (fst p', snd p' @ [chunk]))
         else if \<not> retriable env result then Some (Inl result)
         else offerChunk env p' chunk)"

definition OnTakeSnapshot :: "aeronEnv \<Rightarrow> publication \<Rightarrow> MatchingService \<Rightarrow> (i64 + publication) option" where
  "OnTakeSnapshot env p s = writeSnapshot (offerChunk env) p s"

text \<open>\<open>OnStart\<close>: poll the image until it ends, then restore. A failed restore panics.\<close>

partial_function (option) pollImage :: "imageApi \<Rightarrow> nat \<Rightarrow> bytes \<Rightarrow> bytes option" where
  "pollImage im n stream =
     (let stream = stream @ concat (fst (im n))
      in if snd (im n) then Some stream else pollImage im (n + 1) stream)"

definition restoreSnapshot :: "bytes \<Rightarrow> MatchingService \<Rightarrow> (snapError + MatchingService) option" where
  "restoreSnapshot r s = (case RestoreOrderBook r of
     None \<Rightarrow> None
   | Some (Inl e) \<Rightarrow> Some (Inl e)
   | Some (Inr (book, r)) \<Rightarrow> Some (Inr (s\<lparr>svcBook := book\<rparr>)))"

definition OnStart :: "imageApi option \<Rightarrow> MatchingService \<Rightarrow> MatchingService option" where
  "OnStart img s = (case img of
     None \<Rightarrow> Some s
   | Some im \<Rightarrow> do {
       stream \<leftarrow> pollImage im 0 [];
       r \<leftarrow> restoreSnapshot stream s;
       case r of Inl e \<Rightarrow> None | Inr s \<Rightarrow> Some s
     })"

end
