(* ===== verification/Delivery.thy ===== *)
theory Delivery
  imports Service
begin

text \<open>
  What the service sends. The retry loop of \<open>offer\<close> is settled by the first result that is not retriable;
  a routed event list is delivered as the frames of its events, in order, private reports to the owner's
  session and market data to every open session in the order the sessions were opened. Everything here is
  stated for an arbitrary sequence of \<open>Offer\<close> results.
\<close>

section \<open>The retry loop\<close>

text \<open>The result that ends the loop of \<open>offer\<close>.\<close>

definition settled :: "aeronEnv \<Rightarrow> nat \<Rightarrow> bool" where
  "settled env n \<longleftrightarrow> 0 \<le>s offerResult env n \<or> \<not> retriable env (offerResult env n)"

text \<open>Back pressure and administrative actions do not last for ever.\<close>

definition fair :: "aeronEnv \<Rightarrow> bool" where
  "fair env \<longleftrightarrow> (\<forall>n. \<exists>k \<ge> n. settled env k)"

interpretation offers: retry_loop "settled env" "\<lambda>n. offer env sess frame (s\<lparr>svcOffers := n\<rparr>)"
    "\<lambda>n. s\<lparr>svcOffers := n + 1, svcLog := svcLog s @ [(sess, frame, offerResult env n)]\<rparr>"
  for env sess frame s
  by unfold_locales (subst offer.simps, auto simp: settled_def Let_def sless_sle_False)+

lemma offer_delivers:
  assumes "\<exists>k \<ge> svcOffers s. settled env k"
  obtains k where "svcOffers s \<le> k" "settled env k" "\<And>j. svcOffers s \<le> j \<Longrightarrow> j < k \<Longrightarrow> \<not> settled env j"
    "offer env sess frame s = Some (s\<lparr>svcOffers := k + 1, svcLog := svcLog s @ [(sess, frame, offerResult env k)]\<rparr>)"
  by (rule offers.returns [OF assms, of sess frame s]) (rule that, simp_all)

lemma offer_blocks:
  assumes "offer env sess frame s = Some s'"
  shows "\<exists>k \<ge> svcOffers s. settled env k"
proof (rule offer.raw_induct [OF _ assms])
  fix f :: "aeronEnv \<Rightarrow> ClientSession \<Rightarrow> bytes \<Rightarrow> MatchingService \<Rightarrow> MatchingService option"
  fix env sess frame s s'
  assume ih: "\<And>env sess frame s s'. f env sess frame s = Some s' \<Longrightarrow> \<exists>k \<ge> svcOffers s. settled env k"
    and step: "(let result = offerResult env (svcOffers s); s = s\<lparr>svcOffers := svcOffers s + 1\<rparr>
      in if 0 \<le>s result then Some (s\<lparr>svcLog := svcLog s @ [(sess, frame, result)]\<rparr>)
         else if \<not> retriable env result then Some (s\<lparr>svcLog := svcLog s @ [(sess, frame, result)]\<rparr>)
         else f env sess frame s) = Some s'"
  show "\<exists>k \<ge> svcOffers s. settled env k"
  proof (cases "settled env (svcOffers s)")
    case False
    then have "f env sess frame (s\<lparr>svcOffers := svcOffers s + 1\<rparr>) = Some s'"
      using step by (auto simp: Let_def settled_def sless_sle_False split: if_splits)
    from ih [OF this] show ?thesis by (auto dest: Suc_leD)
  qed blast
qed

text \<open>An offer returns exactly when some attempt settles, and then it has logged one frame.\<close>

lemma offer_Some_iff: "(\<exists>s'. offer env sess frame s = Some s') \<longleftrightarrow> (\<exists>k \<ge> svcOffers s. settled env k)"
proof
  assume "\<exists>k \<ge> svcOffers s. settled env k"
  then show "\<exists>s'. offer env sess frame s = Some s'" by (rule offer_delivers) blast
qed (use offer_blocks in blast)

section \<open>Deliveries\<close>

text \<open>The frame of an event, as \<open>route\<close> chooses its encoder.\<close>

definition frameOf :: "i64 \<Rightarrow> Event \<Rightarrow> werror + bytes" where
  "frameOf ts ev = (case Type ev of EvTrade \<Rightarrow> encodeTrade ev ts
     | EvBookUpdate \<Rightarrow> encodeBookUpdate ev ts
     | _ \<Rightarrow> encodeExecutionReport ev ts)"

text \<open>The sessions an event goes to, by id and in order.\<close>

definition recipients :: "MatchingService \<Rightarrow> Event \<Rightarrow> i64 list" where
  "recipients s ev = (case Type ev of EvTrade \<Rightarrow> svcSessionIds s
     | EvBookUpdate \<Rightarrow> svcSessionIds s
     | _ \<Rightarrow> [Owner ev])"

definition sentTo :: "MatchingService \<Rightarrow> i64 list \<Rightarrow> bytes \<Rightarrow> (ClientSession \<times> bytes) list" where
  "sentTo s ids frame = map (\<lambda>sess. (sess, frame)) (List.map_filter (svcSessions s) ids)"

definition deliveries :: "MatchingService \<Rightarrow> i64 \<Rightarrow> Event list \<Rightarrow> (ClientSession \<times> bytes) list" where
  "deliveries s ts evs = concat (map (\<lambda>ev. sentTo s (recipients s ev) (projr (frameOf ts ev))) evs)"

text \<open>\<open>s'\<close> is \<open>s\<close> after sending \<open>ds\<close>, and nothing else has changed.\<close>

definition sent :: "MatchingService \<Rightarrow> (ClientSession \<times> bytes) list \<Rightarrow> MatchingService \<Rightarrow> bool" where
  "sent s ds s' \<longleftrightarrow> (\<exists>n log. s' = s\<lparr>svcOffers := n, svcLog := svcLog s @ log\<rparr> \<and> map (\<lambda>(i, f, r). (i, f)) log = ds)"

lemma sent_refl: "sent s [] s"
  unfolding sent_def by (rule exI [of _ "svcOffers s"], rule exI [of _ "[]"]) simp

lemma sent_trans: "sent s ds s' \<Longrightarrow> sent s' ds' s'' \<Longrightarrow> sent s (ds @ ds') s''"
  unfolding sent_def by fastforce

lemma sent_same:
  assumes "sent s ds s'"
  shows "svcBook s' = svcBook s" "svcSessions s' = svcSessions s" "svcSessionIds s' = svcSessionIds s"
  using assms by (auto simp: sent_def)

lemma sentI: "sent s [(sess, f)] (s\<lparr>svcOffers := n, svcLog := svcLog s @ [(sess, f, r)]\<rparr>)"
  unfolding sent_def by (rule exI [of _ n], rule exI [of _ "[(sess, f, r)]"]) simp

lemma sentTo_cong: "svcSessions s' = svcSessions s \<Longrightarrow> sentTo s' ids f = sentTo s ids f"
  by (simp add: sentTo_def)

lemma recipients_cong: "svcSessionIds s' = svcSessionIds s \<Longrightarrow> recipients s' ev = recipients s ev"
  unfolding recipients_def by (cases "Type ev") simp_all

lemma sendTo_sent:
  assumes "fair env"
  shows "\<exists>s'. sendTo env i f s = Some s' \<and> sent s (sentTo s [i] f) s'"
proof (cases "svcSessions s i")
  case None
  then show ?thesis using sent_refl by (simp add: sendTo_def sentTo_def List.map_filter_def)
next
  case (Some sess)
  obtain k where "offer env sess f s = Some (s\<lparr>svcOffers := k + 1, svcLog := svcLog s @ [(sess, f, offerResult env k)]\<rparr>)"
    by (rule offer_delivers [of s env sess f]) (use assms in \<open>auto simp: fair_def\<close>)
  with Some show ?thesis using sentI by (simp add: sendTo_def sentTo_def List.map_filter_def)
qed

lemma broadcast_loop_sent:
  assumes "fair env"
  shows "\<exists>s'. broadcast_loop env ids f s = Some s' \<and> sent s (sentTo s ids f) s'"
proof (induction ids arbitrary: s)
  case Nil
  show ?case by (simp add: sentTo_def sent_refl List.map_filter_def)
next
  case (Cons i ids)
  obtain s1 where s1: "sendTo env i f s = Some s1" "sent s (sentTo s [i] f) s1" using sendTo_sent [OF assms] by blast
  obtain s2 where s2: "broadcast_loop env ids f s1 = Some s2" "sent s1 (sentTo s ids f) s2"
    using Cons [of s1] s1(2) by (metis sentTo_cong sent_same(2))
  have "sentTo s (i # ids) f = sentTo s [i] f @ sentTo s ids f"
    by (simp add: sentTo_def List.map_filter_def split: option.splits)
  then show ?case using s1 s2 sent_trans by auto
qed

lemma routeEvent_eq:
  "routeEvent env ts ev s = (case frameOf ts ev of Inl e \<Rightarrow> None | Inr f \<Rightarrow>
     (if Type ev = EvTrade \<or> Type ev = EvBookUpdate then broadcast env f s else sendTo env (Owner ev) f s))"
  by (cases "Type ev") (auto simp: routeEvent_def frameOf_def mustEncode_def split: sum.splits)

lemma routeEvent_sent:
  assumes "fair env" and "isOk (frameOf ts ev)"
  shows "\<exists>s'. routeEvent env ts ev s = Some s' \<and> sent s (deliveries s ts [ev]) s'"
proof -
  obtain f where f: "frameOf ts ev = Inr f" using assms(2) by (auto simp: isOk_iff)
  have "deliveries s ts [ev] = sentTo s (recipients s ev) f" by (simp add: deliveries_def f)
  then show ?thesis
    using f sendTo_sent [OF assms(1)] broadcast_loop_sent [OF assms(1)]
    by (cases "Type ev") (auto simp: routeEvent_eq broadcast_def recipients_def)
qed

lemma deliveries_cong:
  "svcSessions s' = svcSessions s \<Longrightarrow> svcSessionIds s' = svcSessionIds s \<Longrightarrow> deliveries s' ts evs = deliveries s ts evs"
  unfolding deliveries_def by (simp only: sentTo_cong [of s' s] recipients_cong [of s' s])

lemma route_sent:
  assumes "fair env" and "\<forall>ev \<in> set evs. isOk (frameOf ts ev)"
  shows "\<exists>s'. route env evs ts s = Some s' \<and> sent s (deliveries s ts evs) s'"
  using assms(2)
proof (induction evs arbitrary: s)
  case Nil
  show ?case by (simp add: deliveries_def sent_refl)
next
  case (Cons ev evs)
  obtain s1 where s1: "routeEvent env ts ev s = Some s1" "sent s (deliveries s ts [ev]) s1"
    using routeEvent_sent [OF assms(1)] Cons.prems by fastforce
  obtain s2 where s2: "route env evs ts s1 = Some s2" "sent s1 (deliveries s ts evs) s2"
    using Cons.IH [of s1] Cons.prems deliveries_cong [OF sent_same(2,3) [OF s1(2)]] by auto
  show ?case using s1 s2 sent_trans [OF s1(2) s2(2)] by (simp add: deliveries_def)
qed

text \<open>One event that cannot be encoded ends the service, whatever Aeron does.\<close>

lemma route_panics:
  "ev \<in> set evs \<Longrightarrow> \<not> isOk (frameOf ts ev) \<Longrightarrow> route env evs ts s = None"
proof (induction evs arbitrary: s)
  case (Cons e evs)
  then show ?case
    by (cases "routeEvent env ts e s") (auto simp: routeEvent_eq isOk_def split: sum.splits)
qed simp

section \<open>Whatever returns has delivered\<close>

text \<open>The same facts without the fairness hypothesis: a call that returns has sent exactly these frames.\<close>

lemma offer_sent:
  assumes "offer env sess f s = Some s'"
  shows "sent s [(sess, f)] s'"
proof -
  obtain k where "offer env sess f s = Some (s\<lparr>svcOffers := k + 1, svcLog := svcLog s @ [(sess, f, offerResult env k)]\<rparr>)"
    by (rule offer_delivers [OF offer_blocks [OF assms]])
  then show ?thesis using assms sentI by simp
qed

lemma sendTo_Some: "sendTo env i f s = Some s' \<Longrightarrow> sent s (sentTo s [i] f) s'"
  using offer_sent sent_refl by (auto simp: sendTo_def sentTo_def List.map_filter_def split: option.splits)

lemma broadcast_loop_Some: "broadcast_loop env ids f s = Some s' \<Longrightarrow> sent s (sentTo s ids f) s'"
proof (induction ids arbitrary: s)
  case Nil
  then show ?case by (simp add: sentTo_def sent_refl List.map_filter_def)
next
  case (Cons i ids)
  then obtain s1 where s1: "sendTo env i f s = Some s1" "broadcast_loop env ids f s1 = Some s'"
    by (auto simp: Option.bind_eq_Some_conv)
  have "sentTo s (i # ids) f = sentTo s [i] f @ sentTo s ids f"
    by (simp add: sentTo_def List.map_filter_def split: option.splits)
  moreover have "sent s1 (sentTo s ids f) s'"
    using Cons.IH [OF s1(2)] sentTo_cong [of s1 s] sent_same(2) [OF sendTo_Some [OF s1(1)]] by simp
  ultimately show ?case using sent_trans [OF sendTo_Some [OF s1(1)]] by simp
qed

lemma routeEvent_Some:
  assumes "routeEvent env ts ev s = Some s'"
  shows "isOk (frameOf ts ev)" and "sent s (deliveries s ts [ev]) s'"
proof -
  obtain f where f: "frameOf ts ev = Inr f" using assms by (auto simp: routeEvent_eq split: sum.splits)
  then show "isOk (frameOf ts ev)" by simp
  have "deliveries s ts [ev] = sentTo s (recipients s ev) f" by (simp add: deliveries_def f)
  then show "sent s (deliveries s ts [ev]) s'"
    using f assms sendTo_Some broadcast_loop_Some
    by (cases "Type ev") (auto simp: routeEvent_eq broadcast_def recipients_def)
qed

lemma route_Some:
  "route env evs ts s = Some s' \<Longrightarrow> (\<forall>ev \<in> set evs. isOk (frameOf ts ev)) \<and> sent s (deliveries s ts evs) s'"
proof (induction evs arbitrary: s)
  case Nil
  then show ?case by (simp add: deliveries_def sent_refl)
next
  case (Cons ev evs)
  then obtain s1 where s1: "routeEvent env ts ev s = Some s1" "route env evs ts s1 = Some s'"
    by (auto simp: Option.bind_eq_Some_conv)
  note e = routeEvent_Some [OF s1(1)]
  have "sent s1 (deliveries s ts evs) s'"
    using Cons.IH [OF s1(2)] deliveries_cong [of s1 s] sent_same(2,3) [OF e(2)] by simp
  from sent_trans [OF e(2) this] show ?case using Cons.IH [OF s1(2)] e(1) by (simp add: deliveries_def)
qed

end
