(* ===== verification/Sendable.thy ===== *)
theory Sendable
  imports Delivery
begin

text \<open>
  Which events can be put on the wire. \<open>mustEncode\<close> panics when a message fails its range check; here are
  the conditions on the book and on the command under which every event of the command passes, with the
  exact value of a displayed aggregate while the open quantity fits in 63 bits.
\<close>

lemma nonneg_not_min [simp]: "0 \<le>s x \<Longrightarrow> x \<noteq> minInt64" "0 <s x \<Longrightarrow> x \<noteq> minInt64"
  by (auto simp: minInt64_def signed_ord)

definition sendable :: "Event \<Rightarrow> bool" where
  "sendable ev \<longleftrightarrow> (case Type ev of
     EvTrade \<Rightarrow> Price ev \<noteq> minInt64 \<and> Qty ev \<noteq> minInt64 \<and> MakerOrderId ev \<noteq> minInt64 \<and> TakerOrderId ev \<noteq> minInt64
   | EvBookUpdate \<Rightarrow> sideKnown (EvSide ev) \<and> Price ev \<noteq> minInt64 \<and> AggregateQty ev \<noteq> minInt64
   | _ \<Rightarrow> OrderId ev \<noteq> minInt64 \<and> ClientOrderId ev \<noteq> minInt64 \<and> sideKnown (EvSide ev)
       \<and> Price ev \<noteq> minInt64 \<and> Qty ev \<noteq> minInt64 \<and> RemainingQty ev \<noteq> minInt64)"

lemma frameOf_ok: "isOk (frameOf ts ev) \<longleftrightarrow> sendable ev \<and> ts \<noteq> minInt64"
  by (cases "Type ev")
    (auto simp: frameOf_def sendable_def encodeExecutionReport_ok encodeTrade_ok encodeBookUpdate_ok)

text \<open>The fields of an order that go on the wire.\<close>

definition wire_ok :: "order \<Rightarrow> bool" where
  "wire_ok x \<longleftrightarrow> oid x \<noteq> minInt64 \<and> clientOrderId x \<noteq> minInt64 \<and> price x \<noteq> minInt64 \<and> sideKnown (side x)"

lemma wire_ok_qty [simp]: "wire_ok (x\<lparr>qty := q\<rparr>) \<longleftrightarrow> wire_ok x"
  by (simp add: wire_ok_def)

lemma zero_not_min [simp]: "minInt64 \<noteq> 0" "0 \<noteq> minInt64"
  by (simp_all add: minInt64_def)

lemma sideKnown_valid [simp]: "sideKnown Buy" "sideKnown Sell"
  by (simp_all add: sideKnown_def Buy_def Sell_def)

lemma sendable_events [simp]:
  "sendable (acceptedEvent x) \<longleftrightarrow> wire_ok x \<and> qty x \<noteq> minInt64"
  "sendable (filledEvent x p q) \<longleftrightarrow> oid x \<noteq> minInt64 \<and> clientOrderId x \<noteq> minInt64 \<and> sideKnown (side x)
     \<and> p \<noteq> minInt64 \<and> q \<noteq> minInt64 \<and> qty x \<noteq> minInt64"
  "sendable (canceledEvent x) \<longleftrightarrow> wire_ok x \<and> qty x \<noteq> minInt64"
  "sendable (tradeEvent m t p q) \<longleftrightarrow> oid m \<noteq> minInt64 \<and> oid t \<noteq> minInt64 \<and> p \<noteq> minInt64 \<and> q \<noteq> minInt64"
  "sendable (bookUpdateEvent d p q) \<longleftrightarrow> sideKnown d \<and> p \<noteq> minInt64 \<and> q \<noteq> minInt64"
  "sendable (rejectedOrder cmd why) \<longleftrightarrow> cmdClientOrderId cmd \<noteq> minInt64"
  "sendable (rejectedCancel k who why) \<longleftrightarrow> k \<noteq> minInt64"
  by (auto simp: sendable_def wire_ok_def acceptedEvent_def filledEvent_def canceledEvent_def tradeEvent_def
      bookUpdateEvent_def rejectedOrder_def rejectedCancel_def zeroEvent_def)

lemma fill_sendable:
  "wire_ok m \<Longrightarrow> wire_ok t \<Longrightarrow> 0 \<le>s qty m \<Longrightarrow> 0 \<le>s qty t \<Longrightarrow> 0 \<le>s f \<Longrightarrow> e \<in> set (fill_events m t f) \<Longrightarrow> sendable e"
  by (auto simp: fill_events_def wire_ok_def)

lemma spec_match_sendable:
  assumes "spec_match t ms = (es, t', ms', ps)" and "wire_ok t" and "0 \<le>s qty t"
    and "\<forall>m \<in> set ms. wire_ok m \<and> 0 <s qty m"
  shows "\<forall>e \<in> set es. sendable e" and "\<forall>m \<in> set ms'. wire_ok m \<and> 0 <s qty m"
proof -
  have diff: "0 <s b - a" if "a <s b" "0 <s a" for a b :: i64
    using that by (simp add: signed_ord sint_diff_pos)
  have diff0: "0 \<le>s b - a" if "a \<le>s b" "0 <s a" for a b :: i64
    using that by (simp add: signed_ord sint_diff_pos)
  have "wire_ok t \<Longrightarrow> 0 \<le>s qty t \<Longrightarrow> \<forall>m \<in> set ms. wire_ok m \<and> 0 <s qty m \<Longrightarrow>
    (case spec_match t ms of (es, t', ms', ps) \<Rightarrow>
      (\<forall>e \<in> set es. sendable e) \<and> (\<forall>m \<in> set ms'. wire_ok m \<and> 0 <s qty m))"
  proof (induction t ms rule: spec_match_induct)
    case (part t m ms)
    have "0 <s qty m - qty t" using diff part.hyps by blast
    moreover have "0 \<le>s qty m - qty t" using calculation by (simp add: signed_ord)
    ultimately show ?case using part fill_sendable [of "m\<lparr>qty := qty m - qty t\<rparr>" "t\<lparr>qty := 0\<rparr>" "qty t"]
      by (auto simp: signed_ord)
  next
    case (full t m ms es t' ms' ps)
    have "0 \<le>s qty t - qty m" using diff0 full.hyps full.prems by simp
    moreover have "0 \<le>s qty m" using full.prems by (simp add: signed_ord)
    ultimately show ?case using full fill_sendable [of "m\<lparr>qty := 0\<rparr>" "t\<lparr>qty := qty t - qty m\<rparr>" "qty m"]
      by auto
  qed auto
  with assms show "\<forall>e \<in> set es. sendable e" "\<forall>m \<in> set ms'. wire_ok m \<and> 0 <s qty m" by simp_all
qed

section \<open>Displayed quantities\<close>

lemma open_qty_nonneg: "\<forall>x \<in> set ms. 0 <s qty x \<Longrightarrow> 0 \<le> open_qty ms"
  by (induction ms) (auto simp: signed_ord)

lemma open_qty_filter: "\<forall>x \<in> set ms. 0 <s qty x \<Longrightarrow> open_qty (filter P ms) \<le> open_qty ms"
  by (induction ms) (auto simp: signed_ord)

text \<open>While the open quantity of a side fits, the 64-bit total of a price is the exact sum.\<close>

lemma depth_exact:
  assumes "\<forall>x \<in> set ms. 0 <s qty x" and "open_qty ms < 2 ^ 63"
  shows "sint (depth ms p) = open_qty (filter (\<lambda>x. price x = p) ms)"
  using assms
proof (induction ms)
  case (Cons x ms)
  have "0 \<le> open_qty (filter (\<lambda>x. price x = p) ms)" using Cons.prems(1) by (auto intro: open_qty_nonneg)
  moreover have "open_qty (filter (\<lambda>x. price x = p) ms) \<le> open_qty ms" using Cons.prems(1) open_qty_filter by simp
  moreover have "0 < sint (qty x)" using Cons.prems(1) by (simp add: signed_ord)
  moreover have "sint (depth ms p) = open_qty (filter (\<lambda>x. price x = p) ms)" using Cons calculation by simp
  ultimately show ?case using Cons.prems(2) by (simp add: depth_Cons sint_add_small)
qed simp

lemma depth_sendable:
  assumes "\<forall>x \<in> set ms. 0 <s qty x" and "open_qty ms < 2 ^ 63"
  shows "0 \<le>s depth ms p"
  using depth_exact [OF assms] open_qty_nonneg [of "filter (\<lambda>x. price x = p) ms"] assms(1)
  by (simp add: signed_ord)

section \<open>Commands\<close>

definition clean :: "abook \<Rightarrow> bool" where
  "clean a \<longleftrightarrow> (\<forall>d. \<forall>x \<in> set (side_of a d). wire_ok x)"

fun clean_cmd :: "command \<Rightarrow> bool" where
  "clean_cmd (SubmitCmd cmd) \<longleftrightarrow> cmdClientOrderId cmd \<noteq> minInt64 \<and> sideKnown (cmdSide cmd)"
| "clean_cmd (CancelCmd k who) \<longleftrightarrow> k \<noteq> minInt64"

text \<open>The quantity a command can add to the book.\<close>

fun added :: "command \<Rightarrow> int" where
  "added (SubmitCmd cmd) = max 0 (sint (cmdQty cmd))"
| "added (CancelCmd k who) = 0"

lemma book_inv_open: "book_inv a \<Longrightarrow> x \<in> set (side_of a d) \<Longrightarrow> 0 <s qty x \<and> 0 <s price x"
  by (simp add: book_inv_def resting_ok_def)

lemma open_qty_le_book:
  assumes "book_inv a"
  shows "open_qty (side_of a d) \<le> book_qty a" and "0 \<le> open_qty (side_of a d)"
proof -
  have "0 \<le> open_qty (side_of a e)" for e
    using book_inv_open [OF assms] by (intro open_qty_nonneg) blast
  then show "open_qty (side_of a d) \<le> book_qty a" "0 \<le> open_qty (side_of a d)"
    by (cases d; simp add: book_qty_def)+
qed

lemma spec_cancel_sendable:
  assumes inv: "book_inv a" and cl: "clean a" "k \<noteq> minInt64" and bound: "book_qty a < 2 ^ 63"
    and sc: "spec_cancel k who a = (es, a')"
  shows "\<forall>e \<in> set es. sendable e" and "clean a'" and "book_qty a' \<le> book_qty a"
proof -
  have sub: "side_of (remove_order k a) d = filter (\<lambda>x. oid x \<noteq> k) (side_of a d)" for d
    by (simp add: remove_order_def)
  have op: "\<forall>x \<in> set (side_of a d). 0 <s qty x" for d using book_inv_open [OF inv] by blast
  have le: "open_qty (side_of (remove_order k a) d) \<le> open_qty (side_of a d)" for d
    unfolding sub by (rule open_qty_filter [OF op])
  have dp: "0 \<le>s depth (side_of (remove_order k a) d) p" for d p
  proof (rule depth_sendable)
    show "\<forall>x \<in> set (side_of (remove_order k a) d). 0 <s qty x" using op [of d] by (simp add: sub)
    show "open_qty (side_of (remove_order k a) d) < 2 ^ 63" using le [of d] open_qty_le_book(1) [OF inv, of d] bound by simp
  qed
  have x: "x \<in> set (side_of a True) \<union> set (side_of a False)" if "find_order k a = Some x" for x
    using that unfolding find_order_def by (auto dest!: find_SomeD)
  have "wire_ok x \<and> qty x \<noteq> minInt64" if "find_order k a = Some x" for x
    using x [OF that] cl(1) op nonneg_not_min(2) unfolding clean_def by blast
  then show "\<forall>e \<in> set es. sendable e"
    using sc cl(2) dp by (auto simp: spec_cancel_def Let_def wire_ok_def split: option.splits if_splits)
  have "a' = a \<or> a' = remove_order k a" by (rule spec_cancel_state [OF sc])
  then show "clean a'" "book_qty a' \<le> book_qty a"
    using cl(1) le [of True] le [of False] by (auto simp: clean_def sub book_qty_def)
qed

text \<open>The sides after the matching phase of an accepted order.\<close>

lemma matched_sides:
  assumes inv: "book_inv a" and cl: "clean a" "clean_cmd (SubmitCmd cmd)"
    and pos: "0 <s cmdQty cmd" "0 <s cmdPrice cmd"
    and sm: "spec_match (new_order cmd (anext a)) (side_of a opp) = (ev, ta, ms, ps)"
  defines "sides \<equiv> (side_of a)(opp := ms)"
  shows "wire_ok ta" "sint (qty ta) \<le> sint (cmdQty cmd)" "\<forall>e \<in> set ev. sendable e" "0 \<le> traded ev"
    "\<forall>x \<in> set (sides d). wire_ok x \<and> 0 <s qty x" "open_qty (sides d) \<le> book_qty a" "\<forall>p \<in> set ps. p \<noteq> minInt64"
    "wire_ok (new_order cmd (anext a))"
proof -
  let ?t = "new_order cmd (anext a)"
  have op: "\<forall>x \<in> set (side_of a e). wire_ok x \<and> 0 <s qty x" for e
    using book_inv_open [OF inv] cl(1) by (auto simp: clean_def)
  have "1 \<le> sint (anext a)" using inv by (simp add: book_inv_def ids_ok_def)
  then show t: "wire_ok ?t" using cl(2) pos by (auto simp: wire_ok_def signed_ord intro!: nonneg_not_min)
  have q: "0 \<le> sint (qty ?t)" "\<forall>m \<in> set (side_of a opp). 0 <s qty m" "0 \<le>s qty ?t"
    using pos op by (auto simp: signed_ord)
  note m = spec_match_sendable [OF sm t q(3) op] and cons = spec_match_conserves [OF sm q(1,2)]
    and trs = spec_match_trades [OF sm q(2)]
  show "wire_ok ta" using t spec_match_taker_fields [OF sm] by (simp add: wire_ok_def)
  show tr: "0 \<le> traded ev" using trs(1) unfolding traded_def
    by (intro sum_list_nonneg) (auto simp: trade_ok_def signed_ord)
  show "sint (qty ta) \<le> sint (cmdQty cmd)" using cons(1) tr by simp
  show "\<forall>e \<in> set ev. sendable e" by (rule m)
  show "\<forall>x \<in> set (sides d). wire_ok x \<and> 0 <s qty x" using op [of d] m(2) by (auto simp: sides_def)
  have "open_qty (sides d) \<le> open_qty (side_of a d)" using cons(2) tr by (simp add: sides_def)
  then show "open_qty (sides d) \<le> book_qty a" using open_qty_le_book(1) [OF inv, of d] by simp
  have "\<exists>x \<in> set (side_of a opp). p = price x" if "p \<in> set ps" for p
    using that trs by (fastforce simp: trade_ok_def)
  then show "\<forall>p \<in> set ps. p \<noteq> minInt64" using op [of opp] unfolding wire_ok_def by metis
qed

lemma spec_new_sendable:
  assumes inv: "book_inv a" and cl: "clean a" "clean_cmd (SubmitCmd cmd)"
    and bound: "book_qty a + added (SubmitCmd cmd) < 2 ^ 63" and sn: "spec_new cmd a = (es, a')"
  shows "(\<forall>e \<in> set es. sendable e) \<and> clean a' \<and> book_qty a' \<le> book_qty a + added (SubmitCmd cmd)"
proof (cases "0 <s cmdQty cmd \<and> 0 <s cmdPrice cmd")
  case False
  then show ?thesis using sn cl by (auto simp: spec_new_def split: if_splits)
next
  case True
  let ?opp = "cmdSide cmd = Sell" and ?own = "cmdSide cmd = Buy"
  obtain ev ta ms ps where sm: "spec_match (new_order cmd (anext a)) (side_of a ?opp) = (ev, ta, ms, ps)"
    by (metis prod_cases4)
  note ma = matched_sides [OF inv cl conjunct1 [OF True] conjunct2 [OF True] sm]
  let ?sides = "(side_of a)(?opp := ms)" and ?rest = "spec_rest ?own ta (((side_of a)(?opp := ms)) ?own)"
  have ad: "added (SubmitCmd cmd) = sint (cmdQty cmd)" "0 < sint (cmdQty cmd)" using True by (auto simp: signed_ord)
  have d1: "0 \<le>s depth ms p" for p
    using ma(5,6) [of ?opp] bound ad by (intro depth_sendable) auto
  have d2: "0 \<le>s depth ?rest p" if "0 <s qty ta" for p
  proof (rule depth_sendable)
    show "\<forall>x \<in> set ?rest. 0 <s qty x" using ma(5) [of ?own] that by (simp only: set_spec_rest) blast
    show "open_qty ?rest < 2 ^ 63" using ma(6) [of ?own] ma(2) bound ad by (simp only: open_qty_rest)
  qed
  have "\<forall>e \<in> set es. sendable e"
    using sn True spec_new_unfold [OF _ _ sm] ma(3,7,8) d1 d2 cl(2)
    by (auto simp: Let_def sideOf_def split: if_splits)
  moreover have "side_of a' = (if 0 <s qty ta then ?sides(?own := ?rest) else ?sides)"
    using spec_new_sides [OF sn _ _ sm] True by (simp add: Let_def)
  then have "clean a'" using ma(1) ma(5) [of True] ma(5) [of False] unfolding clean_def
    by (auto split: if_splits)
  moreover have "all_open a" using book_inv_open [OF inv] by (simp add: all_open_def)
  then have "book_qty a' \<le> book_qty a + sint (cmdQty cmd)"
    using spec_new_conserves [OF sn _ conjunct1 [OF True] conjunct2 [OF True]] spec_new_trades [OF sn _ _ sm] True ma(4)
    by (simp add: traded_def)
  ultimately show ?thesis using ad(1) by simp
qed

lemma spec_exec_sendable:
  assumes "book_inv a" and "clean a" and "clean_cmd c" and "book_qty a + added c < 2 ^ 63"
    and "spec_exec c a = (es, a')"
  shows "\<forall>e \<in> set es. sendable e" and "clean a'" and "book_qty a' \<le> book_qty a + added c"
  using assms spec_new_sendable [OF assms(1,2)] spec_cancel_sendable [OF assms(1,2)]
  by (cases c; simp)+

end
