(* ===== verification/Ingress.thy ===== *)
theory Ingress
  imports Sendable
begin

text \<open>
  What the service makes of the bytes of a message. \<open>frameAt\<close> is what \<open>service.go\<close> and \<open>egress.go\<close> rely on of
  Aeron's \<open>atomic.Buffer\<close>: its accessors read the little-endian bytes of the region they are given.
\<close>

definition frameAt :: "'b bufferApi \<Rightarrow> 'b \<Rightarrow> i32 \<Rightarrow> i32 \<Rightarrow> bytes \<Rightarrow> bool" where
  "frameAt api buf off len f \<longleftrightarrow> length f < 2 ^ 31 \<and> len = word_of_nat (length f)
    \<and> (\<forall>i. i + 2 \<le> length f \<longrightarrow> GetUInt16 api buf (off + word_of_nat i) = u16At f i)
    \<and> (\<forall>i n. i + n \<le> length f \<longrightarrow> GetBytes api buf (off + word_of_nat i) (word_of_nat n) = take n (drop i f))"

text \<open>A buffer that is a list of bytes.\<close>

definition listApi :: "bytes bufferApi" where
  "listApi = \<lparr>GetUInt16 = (\<lambda>b i. u16At b (unat i)), GetBytes = (\<lambda>b i n. take (unat n) (drop (unat i) b))\<rparr>"

lemma unat_small32: "n < 2 ^ 31 \<Longrightarrow> unat (word_of_nat n :: i32) = n"
  by (simp add: unat_of_nat take_bit_nat_eq_self)

lemma listApi_frame: "length f < 2 ^ 31 \<Longrightarrow> frameAt listApi f 0 (word_of_nat (length f)) f"
  by (simp add: frameAt_def listApi_def unat_small32)

text \<open>The command a frame carries.\<close>

definition commandOf :: "ClientSession \<Rightarrow> bytes \<Rightarrow> command option" where
  "commandOf session f =
     (if length f < 8 \<or> u16At f 4 \<noteq> schemaId then None
      else ingressCommand (u16At f 2) (u16At f 6) (u16At f 0) session (drop 8 f))"

lemma frameAt_length:
  assumes "frameAt api buf off len f"
  shows "len <s 8 \<longleftrightarrow> length f < 8"
proof -
  have n: "length f < 2 ^ 31" "len = word_of_nat (length f)" using assms by (simp_all add: frameAt_def)
  have "sint (word_of_nat (length f) :: i32) = int (length f)"
    using n(1) by (intro sint_small32) simp
  then show ?thesis using n(2) by (simp add: signed_ord)
qed

lemma frameAt_reads:
  assumes "frameAt api buf off len f" and "8 \<le> length f"
  shows "GetUInt16 api buf off = u16At f 0" "GetUInt16 api buf (off + 2) = u16At f 2"
    "GetUInt16 api buf (off + 4) = u16At f 4" "GetUInt16 api buf (off + 6) = u16At f 6"
    "GetBytes api buf (off + 8) (len - 8) = drop 8 f"
proof -
  have g: "GetUInt16 api buf (off + word_of_nat i) = u16At f i" if "i + 2 \<le> length f" for i
    using assms(1) that by (simp add: frameAt_def)
  have h: "GetBytes api buf (off + word_of_nat i) (word_of_nat n) = take n (drop i f)" if "i + n \<le> length f" for i n
    using assms(1) that by (simp add: frameAt_def)
  show "GetUInt16 api buf off = u16At f 0" "GetUInt16 api buf (off + 2) = u16At f 2"
    "GetUInt16 api buf (off + 4) = u16At f 4" "GetUInt16 api buf (off + 6) = u16At f 6"
    using g [of 0] g [of 2] g [of 4] g [of 6] assms(2) by simp_all
  have "len - 8 = word_of_nat (length f - 8)" using assms by (simp add: frameAt_def of_nat_diff)
  then show "GetBytes api buf (off + 8) (len - 8) = drop 8 f" using h [of 8 "length f - 8"] assms(2) by simp
qed

lemma OnSessionMessage_frame:
  assumes "frameAt api buf off len f"
  shows "OnSessionMessage api env session ts buf off len s = (case commandOf session f of
     None \<Rightarrow> Some s
   | Some c \<Rightarrow> do {
       (events, book) \<leftarrow> exec c (svcBook s);
       route env events ts (s\<lparr>svcBook := book\<rparr>)
     })"
proof (cases "length f < 8")
  case True
  then show ?thesis using frameAt_length [OF assms] by (simp add: OnSessionMessage_def sbeHeaderLength_def commandOf_def)
next
  case False
  then have "\<not> len <s 8" using frameAt_length [OF assms] by simp
  then show ?thesis using False frameAt_reads [OF assms]
    by (simp add: OnSessionMessage_def sbeHeaderLength_def commandOf_def Let_def del: not_sless)
qed

text \<open>Frames of the two commands.\<close>

lemma commandOf_NewOrder:
  assumes "encodeFrame (NewOrder_msg m) = Inr f"
  shows "commandOf session f = Some (SubmitCmd \<lparr>cmdClientOrderId = no_ClientOrderId m, cmdOwner = session,
     cmdSide = no_Side m, cmdPrice = no_Price m, cmdQty = no_Qty m\<rparr>)"
proof -
  note f = no_codec.frame_decode [OF assms [unfolded NewOrder_msg_def]]
  show ?thesis using f(2) [of emptyNewOrder] unfolding f(1) commandOf_def ingressCommand_def
    by (simp add: frameBytes_header NewOrder_meta_def schemaId_def newOrderTemplateId_def)
qed

lemma commandOf_CancelOrder:
  assumes "encodeFrame (CancelOrder_msg m) = Inr f"
  shows "commandOf session f = Some (CancelCmd (co_OrderId m) session)"
proof -
  note f = co_codec.frame_decode [OF assms [unfolded CancelOrder_msg_def]]
  show ?thesis using f(2) [of emptyCancelOrder] unfolding f(1) commandOf_def ingressCommand_def
    by (simp add: frameBytes_header CancelOrder_meta_def schemaId_def newOrderTemplateId_def cancelOrderTemplateId_def)
qed

text \<open>What gets through the decoder. The 64-bit fields are always checked; the side is only checked when the
  frame does not claim a version above the schema's.\<close>

lemma commandOf_cases:
  assumes "commandOf session f = Some c"
  shows "case c of
     SubmitCmd cmd \<Rightarrow> cmdOwner cmd = session \<and> cmdClientOrderId cmd \<noteq> minInt64 \<and> cmdPrice cmd \<noteq> minInt64
       \<and> cmdQty cmd \<noteq> minInt64 \<and> (1 < u16At f 6 \<or> sideKnown (cmdSide cmd))
   | CancelCmd k who \<Rightarrow> who = session \<and> k \<noteq> minInt64"
proof (cases "u16At f 2 = newOrderTemplateId")
  case True
  then obtain m r where d: "NewOrder_Decode emptyNewOrder (u16At f 6) (u16At f 0) True (drop 8 f) = Inr (m, r)"
    and c: "c = SubmitCmd \<lparr>cmdClientOrderId = no_ClientOrderId m, cmdOwner = session, cmdSide = no_Side m,
      cmdPrice = no_Price m, cmdQty = no_Qty m\<rparr>"
    using assms by (auto simp: commandOf_def ingressCommand_def split: if_splits sum.splits)
  from no_codec.decode_checked [OF d] show ?thesis
    by (simp add: c NewOrder_RangeCheck_def isOk_bindE isOk_if SideEnum_RangeCheck_iff NewOrder_meta_def)
next
  case False
  then obtain m r where d: "CancelOrder_Decode emptyCancelOrder (u16At f 6) (u16At f 0) True (drop 8 f) = Inr (m, r)"
    and c: "c = CancelCmd (co_OrderId m) session"
    using assms by (auto simp: commandOf_def ingressCommand_def split: if_splits sum.splits)
  from co_codec.decode_checked [OF d] show ?thesis
    by (simp add: c CancelOrder_RangeCheck_def isOk_if)
qed

lemma commandOf_clean:
  assumes "commandOf session f = Some c" and "u16At f 6 \<le> 1"
  shows "clean_cmd c"
  using commandOf_cases [OF assms(1)] assms(2) by (cases c) auto

text \<open>The frames that are ignored: too short for a header, another schema, an unknown template, a block too
  short for the template, a field that fails its range check.\<close>

lemma commandOf_None:
  "commandOf session f = None \<longleftrightarrow>
     length f < 8 \<or> u16At f 4 \<noteq> schemaId \<or> (u16At f 2 \<noteq> 1 \<and> u16At f 2 \<noteq> 2)
   \<or> (u16At f 2 = 1 \<and> (length f < 33 \<or> \<not> isOk (NewOrder_RangeCheck (NewOrder_parse (drop 8 f)) (u16At f 6) 1)))
   \<or> (u16At f 2 = 2 \<and> (length f < 16 \<or> \<not> isOk (CancelOrder_RangeCheck (CancelOrder_parse (drop 8 f)) (u16At f 6) 1)))"
proof -
  have n: "isOk (NewOrder_Decode z v bl True r) \<longleftrightarrow> 25 \<le> length r \<and> isOk (NewOrder_RangeCheck (NewOrder_parse r) v 1)" for z v bl r
    using no_codec.short [of r z v bl True] no_codec.decode [of r z v bl True] by (cases "25 \<le> length r")
      (auto simp: NewOrder_meta_def isOk_bindE)
  have k: "isOk (CancelOrder_Decode z v bl True r) \<longleftrightarrow> 8 \<le> length r \<and> isOk (CancelOrder_RangeCheck (CancelOrder_parse r) v 1)" for z v bl r
    using co_codec.short [of r z v bl True] co_codec.decode [of r z v bl True] by (cases "8 \<le> length r")
      (auto simp: CancelOrder_meta_def isOk_bindE)
  have i: "ingressCommand t v bl session r = None \<longleftrightarrow> (t = 1 \<longrightarrow> \<not> isOk (NewOrder_Decode emptyNewOrder v bl True r))
      \<and> (t = 2 \<longrightarrow> \<not> isOk (CancelOrder_Decode emptyCancelOrder v bl True r))" for t v bl r
    by (auto simp: ingressCommand_def newOrderTemplateId_def cancelOrderTemplateId_def isOk_def split: sum.splits)
  show ?thesis by (auto simp: commandOf_def i n k)
qed

end
