(* ===== verification/Service_Refines.thy ===== *)
theory Service_Refines
  imports Ingress
begin

text \<open>
  The service as a deterministic state machine over its inputs: an abstract service with a price-time book
  and the list of open sessions, and the proof that \<open>service.go\<close> sends exactly the abstract service's
  frames, in order, under any behaviour of Aeron's egress that does not block for ever.
\<close>

section \<open>Simulations with outputs\<close>

text \<open>A machine that answers every admitted input as its specification does.\<close>

primrec spec_trace :: "('i \<Rightarrow> 'a \<Rightarrow> 'o list \<times> 'a) \<Rightarrow> 'i list \<Rightarrow> 'a \<Rightarrow> 'o list \<times> 'a" where
  "spec_trace spec [] a = ([], a)"
| "spec_trace spec (i # is) a = (case spec i a of (os, a') \<Rightarrow> (case spec_trace spec is a' of (os', a'') \<Rightarrow> (os @ os', a'')))"

primrec trace :: "('i \<Rightarrow> 's \<Rightarrow> ('o list \<times> 's) option) \<Rightarrow> 'i list \<Rightarrow> 's \<Rightarrow> ('o list \<times> 's) option" where
  "trace step [] s = Some ([], s)"
| "trace step (i # is) s = do {
     (os, s') \<leftarrow> step i s;
     (os', s'') \<leftarrow> trace step is s';
     Some (os @ os', s'')
   }"

primrec admits :: "('i \<Rightarrow> 'a \<Rightarrow> bool) \<Rightarrow> ('i \<Rightarrow> 'a \<Rightarrow> 'o list \<times> 'a) \<Rightarrow> 'i list \<Rightarrow> 'a \<Rightarrow> bool" where
  "admits ok spec [] a \<longleftrightarrow> True"
| "admits ok spec (i # is) a \<longleftrightarrow> ok i a \<and> admits ok spec is (snd (spec i a))"

locale io_simulation =
  fixes rep :: "'s \<Rightarrow> 'a \<Rightarrow> bool"
    and step :: "'i \<Rightarrow> 's \<Rightarrow> ('o list \<times> 's) option"
    and spec :: "'i \<Rightarrow> 'a \<Rightarrow> 'o list \<times> 'a"
    and ok :: "'i \<Rightarrow> 'a \<Rightarrow> bool"
  assumes io_sim: "rep s a \<Longrightarrow> ok i a \<Longrightarrow> spec i a = (os, a') \<Longrightarrow> \<exists>s'. step i s = Some (os, s') \<and> rep s' a'"
begin

lemma trace_sim:
  assumes "rep s a" and "admits ok spec is a" and "spec_trace spec is a = (os, a')"
  shows "\<exists>s'. trace step is s = Some (os, s') \<and> rep s' a'"
  using assms
proof (induction "is" arbitrary: s a os)
  case (Cons i "is")
  obtain o1 a1 where o1: "spec i a = (o1, a1)" by force
  obtain o2 a2 where o2: "spec_trace spec is a1 = (o2, a2)" by force
  obtain s1 where s1: "step i s = Some (o1, s1)" "rep s1 a1" using io_sim [OF Cons.prems(1) _ o1] Cons.prems(2) by auto
  have "admits ok spec is a1" using Cons.prems(2) o1 by simp
  from Cons.IH [OF s1(2) this] s1(1) o1 o2 Cons.prems(3) show ?case by auto
qed simp

text \<open>Machines in states that represent the same abstract state give the same outputs.\<close>

lemma trace_same:
  assumes "rep s a" and "rep t a" and "admits ok spec is a"
  shows "map_option fst (trace step is s) = map_option fst (trace step is t)"
    and "trace step is s \<noteq> None"
proof -
  obtain os a' where o: "spec_trace spec is a = (os, a')" by force
  show "map_option fst (trace step is s) = map_option fst (trace step is t)" "trace step is s \<noteq> None"
    using trace_sim [OF assms(1,3) o] trace_sim [OF assms(2,3) o] by auto
qed

end

text \<open>An engine is such a machine while ids last.\<close>

sublocale book_simulation \<subseteq> io: io_simulation rep step spec_exec "\<lambda>c a. sint (anext a) < 2 ^ 63 - 1"
  by unfold_locales (rule sim)

section \<open>Sessions\<close>

text \<open>The service's two session tables describe one list of open sessions.\<close>

definition sessions_ok :: "MatchingService \<Rightarrow> bool" where
  "sessions_ok s \<longleftrightarrow> distinct (svcSessionIds s)
    \<and> svcSessions s = (\<lambda>i. if i \<in> set (svcSessionIds s) then Some i else None)"

lemma cutFirst_distinct: "distinct xs \<Longrightarrow> cutFirst x xs = filter (\<lambda>y. y \<noteq> x) xs"
  by (induction xs) (auto intro!: filter_True [symmetric])

lemma sessions_ok_start: "sessions_ok NewMatchingService"
  by (simp add: sessions_ok_def NewMatchingService_def)

lemma sessions_ok_open:
  "sessions_ok s \<Longrightarrow> i \<notin> set (svcSessionIds s) \<Longrightarrow> sessions_ok (OnSessionOpen i ts s)"
  by (auto simp: sessions_ok_def OnSessionOpen_def)

lemma sessions_ok_close: "sessions_ok s \<Longrightarrow> sessions_ok (OnSessionClose i ts s)"
  by (auto simp: sessions_ok_def OnSessionClose_def cutFirst_distinct)

lemma sentTo_open:
  "sessions_ok s \<Longrightarrow> sentTo s ids f = map (\<lambda>i. (i, f)) (filter (\<lambda>i. i \<in> set (svcSessionIds s)) ids)"
  by (induction ids) (auto simp: sentTo_def sessions_ok_def List.map_filter_def)

text \<open>Who gets an event: market data goes to every open session, a report to its owner if open.\<close>

definition audience :: "i64 list \<Rightarrow> Event \<Rightarrow> i64 list" where
  "audience ids ev = (if Type ev = EvTrade \<or> Type ev = EvBookUpdate then ids
     else if Owner ev \<in> set ids then [Owner ev] else [])"

lemma sentTo_audience:
  assumes "sessions_ok s"
  shows "sentTo s (recipients s ev) f = map (\<lambda>i. (i, f)) (audience (svcSessionIds s) ev)"
  unfolding sentTo_open [OF assms] recipients_def audience_def by (cases "Type ev") simp_all

section \<open>The abstract service\<close>

datatype 'b svcInput =
    SessionOpen ClientSession i64
  | SessionClose ClientSession i64
  | SessionMessage ClientSession i64 'b i32 i32
  | TimerEvent i64 i64
  | RoleChange
  | Terminate
  | NewLeadershipTerm i64 i64 i64 i64 i32 i32 i32

type_synonym svcSpec = "abook \<times> i64 list"

fun spec_serve :: "'b bufferApi \<Rightarrow> 'b svcInput \<Rightarrow> svcSpec \<Rightarrow> (ClientSession \<times> bytes) list \<times> svcSpec" where
  "spec_serve api (SessionOpen i ts) (a, ids) = ([], (a, ids @ [i]))"
| "spec_serve api (SessionClose i ts) (a, ids) = ([], (a, filter (\<lambda>j. j \<noteq> i) ids))"
| "spec_serve api (SessionMessage i ts buf off len) (a, ids) =
     (case commandOf i (GetBytes api buf off len) of
        None \<Rightarrow> ([], (a, ids))
      | Some c \<Rightarrow> (case spec_exec c a of (es, a') \<Rightarrow>
          (concat (map (\<lambda>ev. map (\<lambda>j. (j, projr (frameOf ts ev))) (audience ids ev)) es), (a', ids))))"
| "spec_serve api notice as = ([], as)"

text \<open>The inputs the guarantee covers: a session is opened once, the buffer holds a frame, the cluster's
  clock is not the null value, the side is one the protocol can carry, and neither the ids nor the
  63-bit quantities run out.\<close>

fun admitted :: "'b bufferApi \<Rightarrow> 'b svcInput \<Rightarrow> svcSpec \<Rightarrow> bool" where
  "admitted api (SessionOpen i ts) (a, ids) \<longleftrightarrow> i \<notin> set ids"
| "admitted api (SessionClose i ts) (a, ids) \<longleftrightarrow> True"
| "admitted api (SessionMessage i ts buf off len) (a, ids) \<longleftrightarrow>
     frameAt api buf off len (GetBytes api buf off len) \<and> ts \<noteq> minInt64 \<and> sint (anext a) < 2 ^ 63 - 1
     \<and> (case commandOf i (GetBytes api buf off len) of None \<Rightarrow> True
        | Some c \<Rightarrow> clean_cmd c \<and> book_qty a + added c < 2 ^ 63)"
| "admitted api notice as \<longleftrightarrow> True"

text \<open>One input of the service with the frames it sent.\<close>

fun handle :: "'b bufferApi \<Rightarrow> aeronEnv \<Rightarrow> 'b svcInput \<Rightarrow> MatchingService \<Rightarrow> MatchingService option" where
  "handle api env (SessionOpen i ts) s = Some (OnSessionOpen i ts s)"
| "handle api env (SessionClose i ts) s = Some (OnSessionClose i ts s)"
| "handle api env (SessionMessage i ts buf off len) s = OnSessionMessage api env i ts buf off len s"
| "handle api env (TimerEvent k ts) s = Some (OnTimerEvent k ts s)"
| "handle api env RoleChange s = Some (OnRoleChange () s)"
| "handle api env Terminate s = Some (OnTerminate () s)"
| "handle api env (NewLeadershipTerm t p ts bp m i v) s = Some (OnNewLeadershipTermEvent t p ts bp m i () v s)"

definition serve :: "'b bufferApi \<Rightarrow> aeronEnv \<Rightarrow> 'b svcInput \<Rightarrow> MatchingService \<Rightarrow>
    ((ClientSession \<times> bytes) list \<times> MatchingService) option" where
  "serve api env inp s = map_option (\<lambda>s'. (map (\<lambda>(i, f, r). (i, f)) (drop (length (svcLog s)) (svcLog s')), s')) (handle api env inp s)"

text \<open>A service that implements an abstract one.\<close>

definition serves :: "MatchingService \<Rightarrow> svcSpec \<Rightarrow> bool" where
  "serves s as \<longleftrightarrow> (case as of (a, ids) \<Rightarrow> represents (svcBook s) a \<and> book_inv a \<and> clean a
     \<and> sessions_ok s \<and> svcSessionIds s = ids)"

lemma sent_drop: "sent s ds s' \<Longrightarrow> map (\<lambda>(i, f, r). (i, f)) (drop (length (svcLog s)) (svcLog s')) = ds"
  unfolding sent_def by (elim exE conjE) simp

lemma serves_message:
  assumes "fair env" and sv: "serves s (a, ids)" and f: "frameAt api buf off len f" and c: "commandOf i f = Some c"
    and ok: "ts \<noteq> minInt64" "sint (anext a) < 2 ^ 63 - 1" "clean_cmd c" "book_qty a + added c < 2 ^ 63"
    and e: "spec_exec c a = (es, a')"
  shows "\<exists>s'. OnSessionMessage api env i ts buf off len s = Some s' \<and> serves s' (a', ids)
    \<and> sent (s\<lparr>svcBook := svcBook s'\<rparr>) (concat (map (\<lambda>ev. map (\<lambda>j. (j, projr (frameOf ts ev))) (audience ids ev)) es)) s'"
proof -
  have a: "represents (svcBook s) a" "book_inv a" "clean a" "sessions_ok s" "svcSessionIds s = ids"
    using sv by (simp_all add: serves_def)
  obtain b' where b': "exec c (svcBook s) = Some (es, b')" "represents b' a'" "book_inv a'"
    using exec_spec [OF a(1,2), of c] ok(2) wf_next [OF a(1)] e by (metis prod.inject)
  let ?s = "s\<lparr>svcBook := b'\<rparr>"
  note snd = spec_exec_sendable [OF a(2,3) ok(3,4) e]
  have "\<forall>ev \<in> set es. isOk (frameOf ts ev)" using snd(1) ok(1) by (simp add: frameOf_ok)
  from route_sent [OF assms(1) this, of ?s]
  obtain s' where s': "route env es ts ?s = Some s'" "sent ?s (deliveries ?s ts es) s'" by blast
  have so: "sessions_ok ?s" using a(4) by (simp add: sessions_ok_def)
  have "deliveries ?s ts es = concat (map (\<lambda>ev. map (\<lambda>j. (j, projr (frameOf ts ev))) (audience ids ev)) es)"
    unfolding deliveries_def sentTo_audience [OF so] using a(5) by simp
  moreover have "svcBook s' = b'" "serves s' (a', ids)"
    using sent_same [OF s'(2)] b' snd(2) a(4,5) by (auto simp: serves_def sessions_ok_def)
  ultimately show ?thesis using s' b'(1) by (simp add: OnSessionMessage_frame [OF f] c)
qed

lemmas notices = OnTimerEvent_def OnRoleChange_def OnTerminate_def OnNewLeadershipTermEvent_def

lemma serve_refines:
  assumes fair: "fair env" and sv: "serves s as" and ok: "admitted api inp as" and sp: "spec_serve api inp as = (os, as')"
  shows "\<exists>s'. serve api env inp s = Some (os, s') \<and> serves s' as'"
proof (cases as)
  case as: (Pair a ids)
  show ?thesis
  proof (cases inp)
    case (SessionOpen i ts)
    then show ?thesis using sv ok sp as sessions_ok_open [of s i ts]
      by (auto simp: serve_def serves_def OnSessionOpen_def)
  next
    case (SessionClose i ts)
    then show ?thesis using sv ok sp as sessions_ok_close [of s i ts]
      by (auto simp: serve_def serves_def OnSessionClose_def cutFirst_distinct sessions_ok_def)
  next
    case (SessionMessage i ts buf off len)
    let ?f = "GetBytes api buf off len"
    have f: "frameAt api buf off len ?f" using ok as SessionMessage by simp
    show ?thesis
    proof (cases "commandOf i ?f")
      case None
      then show ?thesis using SessionMessage sv sp as by (auto simp: serve_def OnSessionMessage_frame [OF f])
    next
      case (Some c)
      obtain es a' where e: "spec_exec c a = (es, a')" by force
      obtain s' where s': "OnSessionMessage api env i ts buf off len s = Some s'" "serves s' (a', ids)"
        "sent (s\<lparr>svcBook := svcBook s'\<rparr>) (concat (map (\<lambda>ev. map (\<lambda>j. (j, projr (frameOf ts ev))) (audience ids ev)) es)) s'"
      proof -
        have "serves s (a, ids)" "ts \<noteq> minInt64" "sint (anext a) < 2 ^ 63 - 1" "clean_cmd c" "book_qty a + added c < 2 ^ 63"
          using sv ok as SessionMessage Some by simp_all
        from serves_message [OF fair this(1) f Some this(2-5) e] that show thesis by blast
      qed
      show ?thesis using s' sp SessionMessage Some e as sent_drop [OF s'(3)] by (simp add: serve_def)
    qed
  qed (use sv sp as in \<open>simp_all add: serve_def notices\<close>)
qed

end
