(* ===== verification/Handover.thy ===== *)
theory Handover
  imports Service_Refines
begin

text \<open>
  Snapshots through the service: the chunks \<open>OnTakeSnapshot\<close> publishes, and \<open>OnStart\<close> on an image that
  replays them, whole or cut short.
\<close>

section \<open>Chunks\<close>

function chunks :: "bytes \<Rightarrow> bytes list" where
  "chunks data = (if data = [] then [] else take snapshotChunkSize data # chunks (drop snapshotChunkSize data))"
  by pat_completeness auto
termination
  by (relation "measure length") (auto simp: snapshotChunkSize_def)

declare chunks.simps [simp del]

lemma chunks_Nil [simp]: "chunks [] = []"
  by (subst chunks.simps) simp

lemma concat_chunks [simp]: "concat (chunks data) = data"
proof (induction data rule: chunks.induct)
  case (1 data)
  then show ?case by (subst chunks.simps) auto
qed

lemma chunks_sizes: "c \<in> set (chunks data) \<Longrightarrow> c \<noteq> [] \<and> length c \<le> snapshotChunkSize"
proof (induction data rule: chunks.induct)
  case (1 data)
  show ?case
  proof (cases "data = []")
    case False
    then have "c = take snapshotChunkSize data \<or> c \<in> set (chunks (drop snapshotChunkSize data))"
      using "1.prems" chunks.simps [of data] by simp
    then show ?thesis using "1.IH" False by (auto simp: snapshotChunkSize_def)
  qed (use "1.prems" in simp)
qed

text \<open>All chunks but the last are full.\<close>

lemma chunks_full: "i + 1 < length (chunks data) \<Longrightarrow> length (chunks data ! i) = snapshotChunkSize"
proof (induction data arbitrary: i rule: chunks.induct)
  case (1 data)
  have ne: "data \<noteq> []" using "1.prems" by auto
  have c: "chunks data = take snapshotChunkSize data # chunks (drop snapshotChunkSize data)"
    using ne by (subst chunks.simps) simp
  show ?case
  proof (cases i)
    case 0
    then have "drop snapshotChunkSize data \<noteq> []" using "1.prems" c by auto
    then show ?thesis using 0 c by simp
  next
    case (Suc j)
    then show ?thesis using "1.IH" [OF ne, of j] "1.prems" c by simp
  qed
qed

section \<open>Publishing\<close>

interpretation publishes: retry_loop "settled env" "\<lambda>n. offerChunk env (n, cs) c"
    "\<lambda>n. if 0 \<le>s offerResult env n then Inr (n + 1, cs @ [c]) else Inl (offerResult env n)"
  for env cs c
  by unfold_locales (subst offerChunk.simps, auto simp: settled_def Let_def sless_sle_False)+

lemma emitChunks_step:
  "data \<noteq> [] \<Longrightarrow> emitChunks emit data p = (case emit p (take snapshotChunkSize data) of None \<Rightarrow> None
     | Some (Inl e) \<Rightarrow> Some (Inl e) | Some (Inr p) \<Rightarrow> emitChunks emit (drop snapshotChunkSize data) p)"
  by (subst emitChunks.simps) (auto simp: Let_def split: option.splits sum.splits)

text \<open>A result that is neither a success nor retriable, and the number of successes in a range of attempts.\<close>

definition fatal :: "aeronEnv \<Rightarrow> nat \<Rightarrow> bool" where
  "fatal env k \<longleftrightarrow> offerResult env k <s 0 \<and> \<not> retriable env (offerResult env k)"

definition accepted :: "aeronEnv \<Rightarrow> nat \<Rightarrow> nat \<Rightarrow> nat" where
  "accepted env m n = length (filter (\<lambda>j. 0 \<le>s offerResult env j) [m..<n])"

lemma fatal_settled: "fatal env k \<longleftrightarrow> settled env k \<and> \<not> 0 \<le>s offerResult env k"
  by (auto simp: fatal_def settled_def sless_sle_False)

lemma accepted_first:
  assumes "m \<le> k" and "0 \<le>s offerResult env k" and "\<And>j. m \<le> j \<Longrightarrow> j < k \<Longrightarrow> \<not> settled env j" and "k + 1 \<le> n"
  shows "accepted env m n = Suc (accepted env (k + 1) n)"
proof -
  have "[m..<n] = [m..<k] @ k # [k + 1..<n]"
    using assms(1,4) upt_add_eq_append [of m k "n - k"] upt_conv_Cons [of k n] by simp
  moreover have "filter (\<lambda>j. 0 \<le>s offerResult env j) [m..<k] = []"
    using assms(3) by (auto simp: filter_empty_conv settled_def)
  ultimately show ?thesis using assms(2) by (simp add: accepted_def)
qed

text \<open>The publication takes the whole snapshot, each chunk by one success and with no fatal result on the way,
  or the snapshot is abandoned at the first fatal result, before the last chunk was taken; either way the
  call returns.\<close>

definition published :: "aeronEnv \<Rightarrow> bytes \<Rightarrow> nat \<Rightarrow> bytes list \<Rightarrow> (i64 + publication) option \<Rightarrow> bool" where
  "published env data m cs r \<longleftrightarrow>
     (\<exists>n. r = Some (Inr (n, cs @ chunks data)) \<and> m \<le> n \<and> (\<forall>j. m \<le> j \<and> j < n \<longrightarrow> \<not> fatal env j)
        \<and> accepted env m n = length (chunks data))
   \<or> (\<exists>k \<ge> m. r = Some (Inl (offerResult env k)) \<and> fatal env k \<and> (\<forall>j. m \<le> j \<and> j < k \<longrightarrow> \<not> fatal env j)
        \<and> accepted env m k < length (chunks data))"

lemma emitChunks_published:
  assumes "fair env"
  shows "published env data m cs (emitChunks (offerChunk env) data (m, cs))"
proof (induction data arbitrary: m cs rule: chunks.induct)
  case (1 data)
  show ?case
  proof (cases "data = []")
    case True
    then show ?thesis by (auto simp: published_def emitChunks.simps [of _ "[]"] accepted_def)
  next
    case False
    let ?c = "take snapshotChunkSize data" and ?rest = "drop snapshotChunkSize data"
    have c: "chunks data = ?c # chunks ?rest" using False by (subst chunks.simps) simp
    have "\<exists>k \<ge> m. settled env k" using assms by (simp add: fair_def)
    then obtain k where k: "m \<le> k" "settled env k" and before: "\<And>j. m \<le> j \<Longrightarrow> j < k \<Longrightarrow> \<not> settled env j"
      and o: "offerChunk env (m, cs) ?c = Some (if 0 \<le>s offerResult env k then Inr (k + 1, cs @ [?c]) else Inl (offerResult env k))"
      by (rule publishes.returns [of m env cs ?c]) blast
    show ?thesis
    proof (cases "0 \<le>s offerResult env k")
      case True
      have e: "emitChunks (offerChunk env) data (m, cs) = emitChunks (offerChunk env) ?rest (k + 1, cs @ [?c])"
        using True o by (simp add: emitChunks_step [OF False])
      have q: "\<not> fatal env j" if "m \<le> j" "j < n" "\<forall>j. k + 1 \<le> j \<and> j < n \<longrightarrow> \<not> fatal env j" for j n
        using that True before [of j] by (cases j k rule: linorder_cases) (auto simp: fatal_settled)
      note first = accepted_first [OF k(1) True before]
      from "1.IH" [OF False, of "k + 1" "cs @ [?c]", unfolded published_def] show ?thesis
      proof (elim disjE exE conjE)
        fix n
        assume "emitChunks (offerChunk env) ?rest (k + 1, cs @ [?c]) = Some (Inr (n, (cs @ [?c]) @ chunks ?rest))" "k + 1 \<le> n"
          "\<forall>j. k + 1 \<le> j \<and> j < n \<longrightarrow> \<not> fatal env j" "accepted env (k + 1) n = length (chunks ?rest)"
        then show ?thesis using first [of n] q [of _ n] k(1) unfolding published_def e c by (intro disjI1 exI [of _ n]) auto
      next
        fix l
        assume "k + 1 \<le> l" "emitChunks (offerChunk env) ?rest (k + 1, cs @ [?c]) = Some (Inl (offerResult env l))" "fatal env l"
          "\<forall>j. k + 1 \<le> j \<and> j < l \<longrightarrow> \<not> fatal env j" "accepted env (k + 1) l < length (chunks ?rest)"
        then show ?thesis using first [of l] q [of _ l] k(1) unfolding published_def e c by (intro disjI2 exI [of _ l]) auto
      qed
    next
      case neg: False
      have "filter (\<lambda>j. 0 \<le>s offerResult env j) [m..<k] = []"
        using before by (auto simp: filter_empty_conv settled_def)
      then show ?thesis using neg k o before
        by (auto simp: published_def emitChunks_step [OF False] c fatal_settled accepted_def)
    qed
  qed
qed

section \<open>Replaying\<close>

text \<open>An image that delivers these fragments and then ends.\<close>

definition replays :: "imageApi \<Rightarrow> bytes list \<Rightarrow> bool" where
  "replays im cs \<longleftrightarrow> (\<exists>n. snd (im n) \<and> (\<forall>j < n. \<not> snd (im j)) \<and> concat (map (\<lambda>j. fst (im j)) [0..<Suc n]) = cs)"

interpretation polls: retry_loop "\<lambda>n. snd (im n)" "\<lambda>n. pollImage im n (concat (concat (map (\<lambda>j. fst (im j)) [0..<n])))"
    "\<lambda>n. concat (concat (map (\<lambda>j. fst (im j)) [0..<Suc n]))"
  for im
  by unfold_locales (subst pollImage.simps, simp add: Let_def)+

lemma pollImage_replays: "replays im cs \<Longrightarrow> pollImage im 0 [] = Some (concat cs)"
  unfolding replays_def using polls.returns_at [of 0 _ im] by auto

text \<open>Starting from an image of a snapshot of the represented book.\<close>

lemma OnStart_snapshot:
  assumes "represents b a" "book_inv a" "int (length (orders b)) < 2 ^ 31" and im: "replays im cs" "concat cs = snapBytes a"
  shows "\<exists>b'. OnStart (Some im) s = Some (s\<lparr>svcBook := b'\<rparr>) \<and> represents b' a"
  using Restore_snapBytes [OF assms(1-3)] im by (auto simp: OnStart_def pollImage_replays restoreSnapshot_def)

lemma OnStart_truncated:
  assumes "represents b a" "book_inv a" "int (length (orders b)) < 2 ^ 31"
    and im: "replays im (take n (chunks (snapBytes a)))" and n: "n < length (chunks (snapBytes a))"
  shows "OnStart (Some im) s = None"
proof -
  let ?cs = "chunks (snapBytes a)"
  have d: "concat (take n ?cs) @ concat (drop n ?cs) = snapBytes a"
    by (metis append_take_drop_id concat_append concat_chunks)
  have "drop n ?cs = ?cs ! n # drop (Suc n) ?cs" using n by (simp add: Cons_nth_drop_Suc)
  moreover have "?cs ! n \<noteq> []" using chunks_sizes [OF nth_mem [OF n]] by simp
  ultimately have "concat (drop n ?cs) \<noteq> []" by simp
  then have "length (concat (take n ?cs)) < length (snapBytes a)"
    using arg_cong [OF d, of length] by (cases "concat (drop n ?cs)") auto
  moreover have "concat (take n ?cs) = take (length (concat (take n ?cs))) (snapBytes a)"
    by (metis d append_eq_conv_conj)
  ultimately obtain e where "RestoreOrderBook (concat (take n ?cs)) = Some (Inl (ReadError e))"
    using truncated_refused [OF assms(1-3) Snapshot_bytes [OF assms(1)]] by metis
  then show ?thesis by (simp add: OnStart_def pollImage_replays [OF im] restoreSnapshot_def)
qed

end
