(* ===== verification/Service_Guarantees.thy ===== *)
theory Service_Guarantees
  imports Handover
begin

text \<open>
  The guarantees of the service: refinement of the abstract service over whole input sequences, agreement
  of replicas, liveness of egress, sessions, ignored input, absence of panics, snapshots and restarts.
\<close>

section \<open>Replicas\<close>

text \<open>A replica is a service with the egress it runs on.\<close>

type_synonym replica = "aeronEnv \<times> MatchingService"

definition serve_replica :: "'b bufferApi \<Rightarrow> 'b svcInput \<Rightarrow> replica \<Rightarrow> ((ClientSession \<times> bytes) list \<times> replica) option" where
  "serve_replica api inp r = (case r of (env, s) \<Rightarrow> map_option (\<lambda>(os, s'). (os, (env, s'))) (serve api env inp s))"

definition replica_serves :: "replica \<Rightarrow> svcSpec \<Rightarrow> bool" where
  "replica_serves r as \<longleftrightarrow> (case r of (env, s) \<Rightarrow> fair env \<and> serves s as)"

interpretation service: io_simulation replica_serves "serve_replica api" "spec_serve api" "admitted api"
  for api :: "'b bufferApi"
proof
  fix r as inp os as'
  assume a: "replica_serves r as" "admitted api inp as" "spec_serve api inp as = (os, as')"
  obtain env s where r: "r = (env, s)" by force
  with a obtain s' where "serve api env inp s = Some (os, s')" "serves s' as'"
    using serve_refines [of env s as api inp os as'] by (auto simp: replica_serves_def)
  then show "\<exists>r'. serve_replica api inp r = Some (os, r') \<and> replica_serves r' as'"
    using a(1) r by (auto simp: serve_replica_def replica_serves_def)
qed

text \<open>The abstract service at the start.\<close>

definition spec_start :: svcSpec where
  "spec_start = (\<lparr>side_of = (\<lambda>d. []), anext = 1\<rparr>, [])"

lemma serves_start: "serves NewMatchingService spec_start"
  using wf_NewOrderBook sessions_ok_start
  by (simp add: serves_def spec_start_def NewMatchingService_def book_inv_def ids_ok_def prioritised_def clean_def)

section \<open>Reachable services\<close>

text \<open>The states a service goes through, on any egress and any buffers; a session is opened when it is not
  already open.\<close>

inductive svc_reach :: "'b bufferApi \<Rightarrow> aeronEnv \<Rightarrow> MatchingService \<Rightarrow> bool" for api env where
  start: "svc_reach api env NewMatchingService"
| opened: "svc_reach api env s \<Longrightarrow> svcSessions s i = None \<Longrightarrow> svc_reach api env (OnSessionOpen i ts s)"
| closed: "svc_reach api env s \<Longrightarrow> svc_reach api env (OnSessionClose i ts s)"
| message: "svc_reach api env s \<Longrightarrow> OnSessionMessage api env i ts buf off len s = Some s' \<Longrightarrow> svc_reach api env s'"
| restarted: "svc_reach api env s \<Longrightarrow> OnStart im s = Some s' \<Longrightarrow> svc_reach api env s'"
| timer: "svc_reach api env s \<Longrightarrow> svc_reach api env (OnTimerEvent k ts s)"
| role: "svc_reach api env s \<Longrightarrow> svc_reach api env (OnRoleChange () s)"
| terminate: "svc_reach api env s \<Longrightarrow> svc_reach api env (OnTerminate () s)"
| leadership: "svc_reach api env s \<Longrightarrow> svc_reach api env (OnNewLeadershipTermEvent t p ts bp m i () v s)"

inductive_cases svc_reachE: "svc_reach api env s"

lemma OnSessionMessage_sessions:
  assumes "OnSessionMessage api env i ts buf off len s = Some s'"
  shows "svcSessions s' = svcSessions s \<and> svcSessionIds s' = svcSessionIds s"
proof -
  have "s' = s \<or> (\<exists>es b. route env es ts (s\<lparr>svcBook := b\<rparr>) = Some s')"
    using assms by (auto simp: OnSessionMessage_def Let_def Option.bind_eq_Some_conv split: if_splits option.splits)
  then show ?thesis using sent_same(2,3) [OF conjunct2 [OF route_Some]] by force
qed

lemma OnStart_sessions:
  assumes "OnStart im s = Some s'"
  shows "svcSessions s' = svcSessions s \<and> svcSessionIds s' = svcSessionIds s"
proof -
  have r: "\<exists>b. t = s\<lparr>svcBook := b\<rparr>" if "restoreSnapshot r s = Some (Inr t)" for r t
    using that by (auto simp: restoreSnapshot_def split: option.splits sum.splits prod.splits)
  show ?thesis
  proof (cases im)
    case (Some i)
    then obtain bs x where x: "restoreSnapshot bs s = Some x" "(case x of Inl e \<Rightarrow> None | Inr s \<Rightarrow> Some s) = Some s'"
      using assms by (auto simp: OnStart_def Option.bind_eq_Some_conv)
    then show ?thesis by (cases x) (auto dest!: r)
  qed (use assms in \<open>simp add: OnStart_def\<close>)
qed

lemma svc_reach_sessions: "svc_reach api env s \<Longrightarrow> sessions_ok s"
proof (induction rule: svc_reach.induct)
  case (opened s i ts)
  then show ?case by (intro sessions_ok_open) (auto simp: sessions_ok_def split: if_splits)
next
  case (message s i ts buf off len s')
  then show ?case using OnSessionMessage_sessions [OF message.hyps(2)] by (simp add: sessions_ok_def)
next
  case (restarted s im s')
  then show ?case using OnStart_sessions [OF restarted.hyps(2)] by (simp add: sessions_ok_def)
qed (simp_all add: sessions_ok_start sessions_ok_close notices)

section \<open>A running example\<close>

text \<open>An egress on which every other offer is back-pressured, two sessions, a sell order of 5 at 10 and a
  buy order of 8 at 12.\<close>

definition demo_env :: aeronEnv where
  "demo_env = \<lparr>BackPressured = -2, AdminAction = -3, offerResult = (\<lambda>n. if even n then -2 else 1)\<rparr>"

lemma demo_env_fair: "fair demo_env"
proof -
  have "settled demo_env (2 * n + 1)" for n by (simp add: settled_def demo_env_def signed_ord)
  then show ?thesis unfolding fair_def by (metis le_add1 mult_2 trans_le_add1)
qed

definition orderFrame :: "i64 \<Rightarrow> SideEnum \<Rightarrow> i64 \<Rightarrow> i64 \<Rightarrow> bytes" where
  "orderFrame cid sd p q = projr (encodeFrame (NewOrder_msg
     \<lparr>no_ClientOrderId = cid, no_Side = sd, no_Price = p, no_Qty = q\<rparr>))"

lemma orderFrame_ok:
  assumes "cid \<noteq> minInt64" "sideKnown sd" "p \<noteq> minInt64" "q \<noteq> minInt64"
  shows "encodeFrame (NewOrder_msg \<lparr>no_ClientOrderId = cid, no_Side = sd, no_Price = p, no_Qty = q\<rparr>) = Inr (orderFrame cid sd p q)"
  using assms encodeNewOrder_ok [of "\<lparr>no_ClientOrderId = cid, no_Side = sd, no_Price = p, no_Qty = q\<rparr>"]
  by (auto simp: orderFrame_def isOk_iff)

lemma orderFrame_command:
  assumes "cid \<noteq> minInt64" "sideKnown sd" "p \<noteq> minInt64" "q \<noteq> minInt64"
  shows "commandOf session (orderFrame cid sd p q) = Some (SubmitCmd
     \<lparr>cmdClientOrderId = cid, cmdOwner = session, cmdSide = sd, cmdPrice = p, cmdQty = q\<rparr>)"
  using commandOf_NewOrder [OF orderFrame_ok [OF assms]] by simp

lemma orderFrame_length:
  assumes "cid \<noteq> minInt64" "sideKnown sd" "p \<noteq> minInt64" "q \<noteq> minInt64"
  shows "length (orderFrame cid sd p q) = 33"
  using no_codec.frame_decode(1) [OF orderFrame_ok [OF assms, unfolded NewOrder_msg_def]] no_codec.body_length
  by (simp add: NewOrder_meta_def)

lemma orderFrame_at:
  assumes "cid \<noteq> minInt64" "sideKnown sd" "p \<noteq> minInt64" "q \<noteq> minInt64"
  shows "frameAt listApi (orderFrame cid sd p q) 0 33 (orderFrame cid sd p q)"
    "GetBytes listApi (orderFrame cid sd p q) 0 33 = orderFrame cid sd p q"
  using listApi_frame [of "orderFrame cid sd p q"] orderFrame_length [OF assms] by (simp_all add: listApi_def)

definition demo_inputs :: "bytes svcInput list" where
  "demo_inputs = [SessionOpen 7 100, SessionOpen 8 100,
     SessionMessage 7 101 (orderFrame 1 Sell 10 5) 0 33, SessionMessage 8 102 (orderFrame 2 Buy 12 8) 0 33]"

lemma demo_ok [simp]:
  "1 \<noteq> minInt64" "2 \<noteq> minInt64" "10 \<noteq> minInt64" "5 \<noteq> minInt64" "12 \<noteq> minInt64" "8 \<noteq> minInt64"
  by (simp_all add: minInt64_def)

lemma demo_admitted: "admits (admitted listApi) (spec_serve listApi) demo_inputs spec_start"
proof -
  have "101 \<noteq> minInt64" "102 \<noteq> minInt64" by (simp_all add: minInt64_def)
  then show ?thesis
    by (simp add: demo_inputs_def spec_start_def orderFrame_at orderFrame_command book_qty_def
        spec_new_def new_order_def Let_def signed_ord)
qed

section \<open>Properties\<close>

text \<open>C2 (refinement). For every admitted sequence of session openings, closings and messages the service
  returns from each call and sends exactly the frames of the abstract service, to the same sessions and
  in the same order, whatever results the offers give as long as they do not stay retriable for ever.\<close>

theorem service_refines:
  assumes "fair env" and "admits (admitted api) (spec_serve api) inputs spec_start"
  shows "\<exists>r. trace (serve_replica api) inputs (env, NewMatchingService) = Some (fst (spec_trace (spec_serve api) inputs spec_start), r)
    \<and> replica_serves r (snd (spec_trace (spec_serve api) inputs spec_start))"
  by (rule service.trace_sim [OF _ assms(2)]) (simp_all add: replica_serves_def assms(1) serves_start)

theorem service_refines_witness:
  "\<exists>r. trace (serve_replica listApi) demo_inputs (demo_env, NewMatchingService)
      = Some (fst (spec_trace (spec_serve listApi) demo_inputs spec_start), r)
    \<and> replica_serves r (snd (spec_trace (spec_serve listApi) demo_inputs spec_start))"
  by (rule service_refines [OF demo_env_fair demo_admitted])

text \<open>C13 (equivalence). Replicas in step stay in step: two services whose books represent the same orders
  and that have the same sessions open, with differently laid out stores and on different egresses, which
  may fail differently but neither of which stays retriable for ever (\<open>fair\<close>), both return from every
  admitted input sequence and answer it with the same frames to the same sessions.\<close>

theorem replicas_agree:
  assumes "fair env" and "fair env'" and "serves s as" and "serves s' as"
    and "admits (admitted api) (spec_serve api) inputs as"
  shows "map_option fst (trace (serve_replica api) inputs (env, s)) = map_option fst (trace (serve_replica api) inputs (env', s'))
    \<and> trace (serve_replica api) inputs (env, s) \<noteq> None"
  using assms by (intro conjI service.trace_same [of "(env, s)" as "(env', s')"]) (simp_all add: replica_serves_def)

theorem replicas_agree_witness:
  "map_option fst (trace (serve_replica listApi) demo_inputs (demo_env, NewMatchingService))
     = map_option fst (trace (serve_replica listApi) demo_inputs (demo_env\<lparr>offerResult := \<lambda>n. 1\<rparr>, NewMatchingService))
   \<and> trace (serve_replica listApi) demo_inputs (demo_env, NewMatchingService) \<noteq> None"
proof (rule replicas_agree [OF demo_env_fair _ _ _ demo_admitted])
  show "fair (demo_env\<lparr>offerResult := \<lambda>n. 1\<rparr>)" by (auto simp: fair_def settled_def signed_ord)
qed (simp_all add: serves_start)

text \<open>C18 (liveness). The retry loop of \<open>offer\<close> returns exactly when some later attempt is a success or an
  error that is not retriable, it stops at the first one, and it has then logged the frame once.\<close>

theorem offer_returns_iff:
  "(if \<exists>k \<ge> svcOffers s. settled env k
    then \<exists>k \<ge> svcOffers s. settled env k \<and> (\<forall>j. svcOffers s \<le> j \<and> j < k \<longrightarrow> \<not> settled env j)
      \<and> offer env sess frame s = Some (s\<lparr>svcOffers := k + 1, svcLog := svcLog s @ [(sess, frame, offerResult env k)]\<rparr>)
    else offer env sess frame s = None)"
proof (cases "\<exists>k \<ge> svcOffers s. settled env k")
  case True
  then obtain k where k: "svcOffers s \<le> k" "settled env k" "\<And>j. svcOffers s \<le> j \<Longrightarrow> j < k \<Longrightarrow> \<not> settled env j"
    "offer env sess frame s = Some (s\<lparr>svcOffers := k + 1, svcLog := svcLog s @ [(sess, frame, offerResult env k)]\<rparr>)"
    by (rule offer_delivers [of s env sess frame]) blast
  with True show ?thesis by auto
next
  case False
  then show ?thesis using offer_blocks [of env sess frame s] by (cases "offer env sess frame s") auto
qed

theorem offer_returns_iff_witness:
  "offer demo_env 7 [1, 2] NewMatchingService
     = Some (NewMatchingService\<lparr>svcOffers := 2, svcLog := [(7, [1, 2], 1)]\<rparr>)"
proof -
  have "settled demo_env 1" "\<not> settled demo_env 0"
    by (simp_all add: settled_def demo_env_def signed_ord retriable_def)
  then have "\<exists>k \<ge> svcOffers NewMatchingService. settled demo_env k" by (auto simp: NewMatchingService_def)
  then obtain k where k: "settled demo_env k" "\<forall>j < k. \<not> settled demo_env j"
    "offer demo_env 7 [1, 2] NewMatchingService =
       Some (NewMatchingService\<lparr>svcOffers := k + 1, svcLog := [(7, [1, 2], offerResult demo_env k)]\<rparr>)"
    using offer_returns_iff [of NewMatchingService demo_env 7 "[1, 2]"] by (auto simp: NewMatchingService_def)
  have "k = 1" using k(1,2) \<open>settled demo_env 1\<close> \<open>\<not> settled demo_env 0\<close> by (metis less_one nat_neq_iff)
  then show ?thesis using k(3) by (simp add: demo_env_def)
qed

text \<open>C17 (functional). Routing: reports go to the owner's session alone, and nowhere when it is closed;
  trades and book updates go once to every open session, in the order the sessions were opened; the
  order of the events is kept. If any event fails its range check the call panics.\<close>

theorem route_outcome:
  assumes "fair env" and "sessions_ok s"
  shows "if \<forall>ev \<in> set es. isOk (frameOf ts ev)
    then \<exists>s'. route env es ts s = Some s'
      \<and> sent s (concat (map (\<lambda>ev. map (\<lambda>j. (j, projr (frameOf ts ev))) (audience (svcSessionIds s) ev)) es)) s'
    else route env es ts s = None"
  using route_sent [OF assms(1), of es ts s] route_panics [of _ es ts env s]
  unfolding deliveries_def sentTo_audience [OF assms(2)] by auto

theorem route_outcome_witness:
  "\<exists>s'. route demo_env [bookUpdateEvent Sell 10 5] 101 (OnSessionOpen 8 1 (OnSessionOpen 7 0 NewMatchingService)) = Some s'
    \<and> sent (OnSessionOpen 8 1 (OnSessionOpen 7 0 NewMatchingService))
        [(7, projr (frameOf 101 (bookUpdateEvent Sell 10 5))), (8, projr (frameOf 101 (bookUpdateEvent Sell 10 5)))] s'"
proof -
  let ?s = "OnSessionOpen 8 1 (OnSessionOpen 7 0 NewMatchingService)"
  have "sessions_ok ?s" by (intro sessions_ok_open sessions_ok_start) (simp_all add: OnSessionOpen_def NewMatchingService_def)
  from route_outcome [OF demo_env_fair this, of "[bookUpdateEvent Sell 10 5]" 101] show ?thesis
    by (simp add: frameOf_ok audience_def OnSessionOpen_def NewMatchingService_def minInt64_def)
qed

text \<open>C19 (invariant). In every state the service can reach, on any egress and with any messages, the list of
  session ids has no duplicates and holds exactly the sessions of the map, each stored under its own id.\<close>

theorem sessions_consistent:
  assumes "svc_reach api env s"
  shows "distinct (svcSessionIds s) \<and> dom (svcSessions s) = set (svcSessionIds s) \<and> (\<forall>i x. svcSessions s i = Some x \<longrightarrow> x = i)"
  using svc_reach_sessions [OF assms] by (auto simp: sessions_ok_def dom_def)

theorem sessions_consistent_witness:
  "let s = OnSessionClose 7 9 (OnSessionOpen 8 1 (OnSessionOpen 7 0 NewMatchingService)) in
   svcSessionIds s = [8] \<and> dom (svcSessions s) = {8} \<and> distinct (svcSessionIds s)"
proof -
  let ?s = "OnSessionClose 7 9 (OnSessionOpen 8 1 (OnSessionOpen 7 0 NewMatchingService))"
  have "svc_reach listApi demo_env ?s"
    by (intro svc_reach.intros) (simp_all add: OnSessionOpen_def NewMatchingService_def)
  from sessions_consistent [OF this] show ?thesis
    by (simp add: OnSessionOpen_def OnSessionClose_def NewMatchingService_def)
qed

text \<open>C22 (error). The frames that are ignored: too short for a header, of another schema, of an unknown
  template, with a block too short for the template, or with a field out of range. They change nothing
  and send nothing; every other frame carries a command.\<close>

theorem ignored_frames:
  assumes "frameAt api buf off len f"
  shows "(if length f < 8 \<or> u16At f 4 \<noteq> schemaId \<or> (u16At f 2 \<noteq> 1 \<and> u16At f 2 \<noteq> 2)
      \<or> (u16At f 2 = 1 \<and> (length f < 33 \<or> \<not> isOk (NewOrder_RangeCheck (NewOrder_parse (drop 8 f)) (u16At f 6) 1)))
      \<or> (u16At f 2 = 2 \<and> (length f < 16 \<or> \<not> isOk (CancelOrder_RangeCheck (CancelOrder_parse (drop 8 f)) (u16At f 6) 1)))
    then OnSessionMessage api env i ts buf off len s = Some s
    else \<exists>c. OnSessionMessage api env i ts buf off len s = do {
        (events, book) \<leftarrow> exec c (svcBook s);
        route env events ts (s\<lparr>svcBook := book\<rparr>)
      })"
  unfolding commandOf_None [of i f, symmetric] OnSessionMessage_frame [OF assms]
  by (cases "commandOf i f") auto

theorem ignored_frames_witness:
  "OnSessionMessage listApi demo_env 7 1 [1, 2, 3] 0 3 NewMatchingService = Some NewMatchingService"
  using ignored_frames [OF listApi_frame [of "[1, 2, 3]"], of demo_env 7 1 NewMatchingService] by simp

text \<open>C12 (safety). No frame of version 0 or 1 can make the service panic or hang, whatever its bytes: it is
  ignored or executed, and the service goes on serving. What is needed is a fair egress, a timestamp
  other than the null value, order ids left, and open quantity below \<open>2 ^ 63\<close>.\<close>

theorem any_frame_served:
  assumes "fair env" and "serves s (a, ids)" and "frameAt api buf off len f" and "u16At f 6 \<le> 1"
    and "ts \<noteq> minInt64" and "sint (nextOrderId (svcBook s)) < 2 ^ 63 - 1"
    and "\<forall>c. commandOf i f = Some c \<longrightarrow> book_qty a + added c < 2 ^ 63"
  shows "\<exists>s' a'. OnSessionMessage api env i ts buf off len s = Some s' \<and> serves s' (a', ids)"
proof (cases "commandOf i f")
  case None
  then show ?thesis using assms(2) OnSessionMessage_frame [OF assms(3)] by auto
next
  case (Some c)
  obtain es a' where e: "spec_exec c a = (es, a')" by force
  have "sint (anext a) < 2 ^ 63 - 1" using assms(2,6) wf_next by (metis (no_types, lifting) case_prod_conv serves_def)
  from serves_message [OF assms(1-3) Some assms(5) this commandOf_clean [OF Some assms(4)] _ e] assms(7) Some
  show ?thesis by auto
qed

theorem any_frame_served_witness:
  "\<exists>s' a'. OnSessionMessage listApi demo_env 7 101 (orderFrame 1 Sell 10 5) 0 33 NewMatchingService = Some s' \<and> serves s' (a', [])"
proof -
  have v: "u16At (orderFrame 1 Sell 10 5) 6 \<le> 1"
    using no_codec.frame_decode(1) [OF orderFrame_ok [of 1 Sell 10 5, unfolded NewOrder_msg_def]]
    by (simp add: frameBytes_header NewOrder_meta_def)
  have "serves NewMatchingService (fst spec_start, [])" using serves_start by (simp add: spec_start_def)
  from any_frame_served [OF demo_env_fair this orderFrame_at(1) v, of 101 7] show ?thesis
    by (simp add: orderFrame_command spec_start_def book_qty_def NewMatchingService_def NewOrderBook_def minInt64_def)
qed

text \<open>C25 (bounds). A snapshot is published as the bytes of the book in order, in non-empty chunks of at most
  1024 bytes of which all but the last are full, each accepted by exactly one offer and with no fatal
  result on the way; or it is abandoned at the first offer whose result is fatal, neither a success nor
  retriable, with chunks still missing, and that result is the error. The call returns in both cases.\<close>

theorem snapshot_chunks:
  assumes "fair env" and "serves s (a, ids)"
  shows "\<exists>bs. Snapshot (svcBook s) = Some bs
    \<and> ((\<exists>n \<ge> m. OnTakeSnapshot env (m, []) s = Some (Inr (n, chunks bs)) \<and> (\<forall>j. m \<le> j \<and> j < n \<longrightarrow> \<not> fatal env j)
          \<and> accepted env m n = length (chunks bs))
      \<or> (\<exists>k \<ge> m. OnTakeSnapshot env (m, []) s = Some (Inl (offerResult env k)) \<and> fatal env k
          \<and> (\<forall>j. m \<le> j \<and> j < k \<longrightarrow> \<not> fatal env j) \<and> accepted env m k < length (chunks bs)))
    \<and> concat (chunks bs) = bs \<and> (\<forall>c \<in> set (chunks bs). c \<noteq> [] \<and> length c \<le> 1024)
    \<and> (\<forall>i. i + 1 < length (chunks bs) \<longrightarrow> length (chunks bs ! i) = 1024)"
proof -
  have b: "Snapshot (svcBook s) = Some (snapBytes a)" using assms(2) Snapshot_bytes by (simp add: serves_def)
  have "OnTakeSnapshot env (m, []) s = emitChunks (offerChunk env) (snapBytes a) (m, [])"
    by (simp add: OnTakeSnapshot_def writeSnapshot_def b)
  with emitChunks_published [OF assms(1), of "snapBytes a" m "[]"]
  have "published env (snapBytes a) m [] (OnTakeSnapshot env (m, []) s)" by simp
  moreover have "(\<forall>c \<in> set (chunks (snapBytes a)). c \<noteq> [] \<and> length c \<le> 1024)"
    "\<forall>i. i + 1 < length (chunks (snapBytes a)) \<longrightarrow> length (chunks (snapBytes a) ! i) = 1024"
    using chunks_sizes chunks_full unfolding snapshotChunkSize_def by blast+
  ultimately show ?thesis using b unfolding published_def by auto
qed

theorem snapshot_chunks_witness:
  "\<exists>bs n. Snapshot NewOrderBook = Some bs \<and> OnTakeSnapshot demo_env (0, []) NewMatchingService = Some (Inr (n, chunks bs))
    \<and> concat (chunks bs) = bs"
proof -
  have s: "serves NewMatchingService (fst spec_start, [])" using serves_start by (simp add: spec_start_def)
  have r: "\<not> fatal demo_env k" for k
    by (simp add: fatal_def demo_env_def retriable_def signed_ord)
  have "svcBook NewMatchingService = NewOrderBook" by (simp add: NewMatchingService_def)
  then show ?thesis using snapshot_chunks [OF demo_env_fair s, of 0] r by metis
qed

text \<open>C14 (roundtrip). Restart: a fresh service started from an image that replays the published chunks, in
  fragments of any grouping, serves the same book; after the same sessions have been opened it is in
  step with the service that took the snapshot.\<close>

theorem restart_in_step:
  assumes "fair env" and "serves s (a, ids)" and "int (length (orders (svcBook s))) < 2 ^ 31"
    and "OnTakeSnapshot env (m, []) s = Some (Inr (n, cs))" and "replays im cs"
  shows "\<exists>s'. OnStart (Some im) NewMatchingService = Some s' \<and> serves s' (a, [])
    \<and> serves (fold (\<lambda>i. OnSessionOpen i ts) ids s') (a, ids)"
proof -
  have a: "represents (svcBook s) a" "book_inv a" "clean a" "distinct ids"
    using assms(2) by (auto simp: serves_def sessions_ok_def)
  have "OnTakeSnapshot env (m, []) s = emitChunks (offerChunk env) (snapBytes a) (m, [])"
    by (simp add: OnTakeSnapshot_def writeSnapshot_def Snapshot_bytes [OF a(1)])
  with emitChunks_published [OF assms(1), of "snapBytes a" m "[]"] assms(4) have "cs = chunks (snapBytes a)" by (auto simp: published_def)
  then obtain b' where b': "OnStart (Some im) NewMatchingService = Some (NewMatchingService\<lparr>svcBook := b'\<rparr>)" "represents b' a"
    using OnStart_snapshot [OF a(1,2) assms(3,5)] by auto
  let ?s = "NewMatchingService\<lparr>svcBook := b'\<rparr>"
  have "serves ?s (a, [])" using a b'(2) sessions_ok_start by (simp add: serves_def sessions_ok_def NewMatchingService_def)
  moreover have "serves (fold (\<lambda>i. OnSessionOpen i ts) ids t) (a, js @ ids)"
    if "serves t (a, js)" "distinct (js @ ids)" for t js
    using that
  proof (induction ids arbitrary: t js)
    case (Cons i ids)
    then have "serves (OnSessionOpen i ts t) (a, js @ [i])"
      using sessions_ok_open [of t i ts] by (auto simp: serves_def OnSessionOpen_def)
    from Cons.IH [OF this] Cons.prems show ?case by simp
  qed simp
  ultimately show ?thesis using b'(1) a(4) by force
qed

theorem restart_in_step_witness:
  "\<exists>n cs s'. OnTakeSnapshot demo_env (0, []) NewMatchingService = Some (Inr (n, cs))
    \<and> OnStart (Some (\<lambda>j. (cs, True))) NewMatchingService = Some s' \<and> serves s' (fst spec_start, [])"
proof -
  have s: "serves NewMatchingService (fst spec_start, [])" using serves_start by (simp add: spec_start_def)
  have "svcBook NewMatchingService = NewOrderBook" by (simp add: NewMatchingService_def)
  then have sn: "Snapshot (svcBook NewMatchingService) = Some (snapBytes (fst spec_start))"
    using Snapshot_bytes wf_NewOrderBook by (simp add: spec_start_def)
  have r: "\<not> fatal demo_env k" for k by (simp add: fatal_def demo_env_def retriable_def signed_ord)
  obtain n where n: "OnTakeSnapshot demo_env (0, []) NewMatchingService = Some (Inr (n, chunks (snapBytes (fst spec_start))))"
    using emitChunks_published [OF demo_env_fair, of "snapBytes (fst spec_start)" 0 "[]"] r
    unfolding published_def OnTakeSnapshot_def writeSnapshot_def sn bind.bind_lunit append_Nil by metis
  have "replays (\<lambda>j. (cs, True)) cs" for cs by (auto simp: replays_def intro: exI [of _ 0])
  from restart_in_step [OF demo_env_fair s _ n this] n show ?thesis
    by (auto simp: NewMatchingService_def NewOrderBook_def)
qed

text \<open>C24 (error). An image that ends before the last chunk is never loaded as a smaller book: \<open>OnStart\<close>
  panics.\<close>

theorem partial_snapshot_refused:
  assumes "serves s (a, ids)" and "int (length (orders (svcBook s))) < 2 ^ 31" and "Snapshot (svcBook s) = Some bs"
    and "n < length (chunks bs)" and "replays im (take n (chunks bs))"
  shows "OnStart (Some im) t = None"
proof -
  have a: "represents (svcBook s) a" "book_inv a" using assms(1) by (simp_all add: serves_def)
  have "bs = snapBytes a" using assms(3) Snapshot_bytes [OF a(1)] by simp
  with OnStart_truncated [OF a assms(2)] assms(4,5) show ?thesis by blast
qed

theorem partial_snapshot_refused_witness:
  "OnStart (Some (\<lambda>j. ([], True))) NewMatchingService = None"
proof -
  have s: "serves NewMatchingService (fst spec_start, [])" using serves_start by (simp add: spec_start_def)
  have sn: "Snapshot (svcBook NewMatchingService) = Some (snapBytes (fst spec_start))"
    using s Snapshot_bytes by (simp add: serves_def)
  have "chunks (snapBytes (fst spec_start)) \<noteq> []"
    using concat_chunks [of "snapBytes (fst spec_start)"] snapBytes_head(2) [of "fst spec_start"]
    by (auto simp: snapBytes_head(1) dest: arg_cong [of _ _ concat])
  then have c: "0 < length (chunks (snapBytes (fst spec_start)))" by simp
  have "replays (\<lambda>j. ([], True)) (take 0 (chunks (snapBytes (fst spec_start))))"
    by (auto simp: replays_def intro: exI [of _ 0])
  from partial_snapshot_refused [OF s _ sn c this] show ?thesis by (simp add: NewMatchingService_def NewOrderBook_def)
qed

text \<open>A stream of another kind or of another version of the format is fatal at startup: whatever
  follows its header, \<open>OnStart\<close> panics and no book is loaded.\<close>

lemma foreign_snapshot_fatal:
  assumes "replays im cs" and "concat cs = WriteUint32 [] magic @ WriteInt32 [] version @ WriteInt64 [] instrument
      @ WriteInt64 [] next @ WriteInt32 [] count @ rest"
    and "magic \<noteq> snapshotMagic \<or> version \<noteq> snapshotVersion"
  shows "OnStart (Some im) s = None"
proof -
  have "readHeader (concat cs) = Inr ((magic, version, instrument, next, count), rest)"
    by (simp add: assms(2) readHeader_def readE_def)
  then have "\<exists>e. RestoreOrderBook (concat cs) = Some (Inl e)" using assms(3) by (auto simp: RestoreOrderBook_def)
  then show ?thesis by (auto simp: OnStart_def pollImage_replays [OF assms(1)] restoreSnapshot_def)
qed

end
