(* ===== verification/Limits.thy ===== *)
theory Limits
  imports Service_Guarantees
begin

text \<open>
  Where the guarantees stop: the inputs excluded by the hypotheses of the other theories, and what the
  code does on them.
\<close>

text \<open>A side that is neither \<open>Buy\<close> nor \<open>Sell\<close> meets no price limit in \<open>match\<close>.\<close>

lemma crosses_other_side: "side t \<noteq> Buy \<Longrightarrow> side t \<noteq> Sell \<Longrightarrow> crosses t p"
  by (simp add: crosses_def)

lemma spec_match_first:
  assumes "spec_match t (m # ms) = (es, t', ms', ps)" and "0 <s qty t" and "crosses t (price m)"
  shows "\<exists>e \<in> set (trades es). Price e = price m \<and> MakerOrderId e = oid m"
  using assms by (auto simp: Let_def split: prod.splits if_splits)

text \<open>An event of the command that fails its range check ends the service.\<close>

lemma command_panics:
  assumes "frameAt api buf off len f" and "commandOf i f = Some c" and "represents (svcBook s) a" "book_inv a"
    and "sint (nextOrderId (svcBook s)) < 2 ^ 63 - 1" and "ev \<in> set (fst (spec_exec c a))" and "\<not> sendable ev"
  shows "OnSessionMessage api env i ts buf off len s = None"
proof -
  obtain es b' a' where e: "exec c (svcBook s) = Some (es, b')" "spec_exec c a = (es, a')"
    using exec_spec [OF assms(3-5), of c] by blast
  have "route env es ts (s\<lparr>svcBook := b'\<rparr>) = None"
    using assms(6,7) e(2) by (intro route_panics [of ev]) (simp_all add: frameOf_ok)
  then show ?thesis using e(1) by (simp add: OnSessionMessage_frame [OF assms(1)] assms(2))
qed

section \<open>Properties\<close>

text \<open>C32 (safety). The protocol's null side, -128, passes the range check of the decoder, and the engine then
  trades such an order with the best ask whatever the order's price limit is.\<close>

theorem null_side_ignores_limit:
  assumes "represents b a" and "book_inv a" and "sint (nextOrderId b) < 2 ^ 63 - 1" and "side_of a False = m # ms"
    and "0 <s p" and "0 <s q" and "cid \<noteq> minInt64"
  shows "\<exists>cmd es b'. commandOf i (orderFrame cid (-128) p q) = Some (SubmitCmd cmd) \<and> cmdPrice cmd = p
    \<and> exec (SubmitCmd cmd) b = Some (es, b') \<and> (\<exists>e \<in> set (trades es). Price e = price m \<and> MakerOrderId e = oid m)"
proof -
  let ?cmd = "\<lparr>cmdClientOrderId = cid, cmdOwner = i, cmdSide = -128, cmdPrice = p, cmdQty = q\<rparr>"
  have c: "commandOf i (orderFrame cid (-128) p q) = Some (SubmitCmd ?cmd)"
    by (rule orderFrame_command) (use assms(5-7) in \<open>auto simp: sideKnown_def\<close>)
  have sd: "cmdSide ?cmd \<noteq> Buy" "cmdSide ?cmd \<noteq> Sell" by (simp_all add: Buy_def Sell_def)
  obtain es b' a' where e: "NewLimitOrder ?cmd b = Some (es, b')" "spec_new ?cmd a = (es, a')"
    using exec_spec [OF assms(1-3), of "SubmitCmd ?cmd", unfolded exec.simps spec_exec.simps] by blast
  obtain ev t' ms' ps where sm: "spec_match (new_order ?cmd (anext a)) (side_of a (cmdSide ?cmd = Sell)) = (ev, t', ms', ps)"
    by (metis prod_cases4)
  have "\<exists>e \<in> set (trades ev). Price e = price m \<and> MakerOrderId e = oid m"
    using sm sd(2) assms(4,6) crosses_other_side [of "new_order ?cmd (anext a)" "price m"] sd
    by (intro spec_match_first) auto
  moreover have "trades es = trades ev" using spec_new_trades [OF e(2) _ _ sm] assms(5,6) by simp
  ultimately show ?thesis using c e(1) by (intro exI [of _ ?cmd]) auto
qed

theorem null_side_ignores_limit_witness:
  "\<exists>cmd es b'. commandOf 8 (orderFrame 2 (-128) 1 3) = Some (SubmitCmd cmd) \<and> cmdPrice cmd = 1
    \<and> exec (SubmitCmd cmd) demo_book = Some (es, b') \<and> (\<exists>e \<in> set (trades es). Price e = 10 \<and> MakerOrderId e = 1)"
proof -
  have inv: "book_inv demo_abook" using reach_wf [OF demo_facts(1)] wf_unique [OF demo_facts(2)] by blast
  have m: "side_of demo_abook False = hd (side_of demo_abook False) # []" by (simp add: demo_abook_def)
  have h: "price (hd (side_of demo_abook False)) = 10" "oid (hd (side_of demo_abook False)) = 1" by (simp_all add: demo_abook_def)
  show ?thesis using null_side_ignores_limit [OF demo_facts(2) inv _ m, of 1 3 2 8]
    unfolding h by (simp add: demo_facts(3) signed_ord)
qed

text \<open>C30 (error). A frame that claims a version above the schema's skips the check of its side; when the
  side is none the protocol knows and the order is otherwise valid, the accepted report cannot be
  encoded and the service panics, on every egress.\<close>

theorem unknown_side_panics:
  assumes "frameAt api buf off len f" and "commandOf i f = Some (SubmitCmd cmd)" and "serves s (a, ids)"
    and "sint (nextOrderId (svcBook s)) < 2 ^ 63 - 1" and "\<not> sideKnown (cmdSide cmd)" and "0 <s cmdQty cmd" and "0 <s cmdPrice cmd"
  shows "OnSessionMessage api env i ts buf off len s = None"
proof -
  let ?t = "new_order cmd (anext a)"
  obtain ev t' ms' ps where sm: "spec_match ?t (side_of a (cmdSide cmd = Sell)) = (ev, t', ms', ps)" by (metis prod_cases4)
  have "acceptedEvent ?t \<in> set (fst (spec_exec (SubmitCmd cmd) a))"
    using spec_new_unfold [OF assms(6,7) sm] by (simp add: Let_def)
  moreover have "\<not> sendable (acceptedEvent ?t)" using assms(5) by (simp add: wire_ok_def)
  moreover have "represents (svcBook s) a" "book_inv a" using assms(3) by (simp_all add: serves_def)
  ultimately show ?thesis using command_panics [OF assms(1,2) _ _ assms(4)] by blast
qed

text \<open>A frame of a \<open>NewOrder\<close> with the header changed to version 2.\<close>

definition newerFrame :: "NewOrder \<Rightarrow> bytes" where
  "newerFrame m = frameBytes (NewOrder_meta\<lparr>SbeSchemaVersion := 2\<rparr>) (NewOrder_body m)"

lemma newerFrame_command:
  assumes "no_ClientOrderId m \<noteq> minInt64" "no_Price m \<noteq> minInt64" "no_Qty m \<noteq> minInt64"
  shows "commandOf i (newerFrame m) = Some (SubmitCmd \<lparr>cmdClientOrderId = no_ClientOrderId m, cmdOwner = i,
    cmdSide = no_Side m, cmdPrice = no_Price m, cmdQty = no_Qty m\<rparr>)"
proof -
  have "isOk (NewOrder_RangeCheck m 2 (SbeSchemaVersion NewOrder_meta))"
    using assms SideEnum_RangeCheck_iff [of "no_Side m" 2 1]
    by (auto simp: NewOrder_RangeCheck_def NewOrder_meta_def isOk_iff)
  from no_codec.decode_newer [OF _ _ this, of 25 "[]" emptyNewOrder True "[]"]
  have "NewOrder_Decode emptyNewOrder 2 25 True (NewOrder_body m) = Inr (m, [])" by (simp add: NewOrder_meta_def)
  then show ?thesis
    by (simp add: commandOf_def newerFrame_def frameBytes_header ingressCommand_def NewOrder_meta_def schemaId_def newOrderTemplateId_def)
qed

theorem unknown_side_panics_witness:
  "OnSessionMessage listApi demo_env 7 101 (newerFrame \<lparr>no_ClientOrderId = 1, no_Side = 7, no_Price = 10, no_Qty = 5\<rparr>) 0 33
     NewMatchingService = None"
proof -
  let ?f = "newerFrame \<lparr>no_ClientOrderId = 1, no_Side = 7, no_Price = 10, no_Qty = 5\<rparr>"
  have l: "length ?f = 33" using no_codec.body_length by (simp add: newerFrame_def NewOrder_meta_def)
  have f: "frameAt listApi ?f 0 33 ?f" using listApi_frame [of ?f] l by simp
  have s: "serves NewMatchingService (fst spec_start, [])" using serves_start by (simp add: spec_start_def)
  show ?thesis
    by (rule unknown_side_panics [OF f newerFrame_command s])
      (simp_all add: NewMatchingService_def NewOrderBook_def sideKnown_def signed_ord)
qed






end
