(* ===== verification/Client.thy ===== *)
theory Client
  imports Service_Guarantees
begin

text \<open>
  The client library, \<open>src/go/client/client.go\<close> and \<open>src/go/client/egress.go\<close>: connecting, submitting and
  cancelling orders, polling, and the adapter that turns egress frames into listener callbacks. Aeron's
  cluster client and the clock are parameters (\<open>clientEnv\<close>); a listener is known by the callbacks it has
  received, with the time of each. Idle strategies, which only wait, are left out.
\<close>

section \<open>Egress\<close>

record ExecReport =
  xr_OrderId :: i64
  xr_ClientOrderId :: i64
  xr_Status :: OrderStatusEnum
  xr_Reason :: RejectReasonEnum
  xr_Side :: SideEnum
  xr_Price :: i64
  xr_Qty :: i64
  xr_RemainingQty :: i64
  xr_Timestamp :: i64

record Trade =
  tr_Price :: i64
  tr_Qty :: i64
  tr_MakerOrderId :: i64
  tr_TakerOrderId :: i64
  tr_Timestamp :: i64

record Book =
  bk_Side :: SideEnum
  bk_Price :: i64
  bk_AggregateQty :: i64
  bk_Timestamp :: i64

text \<open>The interface \<open>Listener\<close>: one constructor per method.\<close>

datatype callback =
    OnExecutionReport ExecReport
  | OnTrade Trade
  | OnBookUpdate Book

definition emptyExecutionReport :: ExecutionReport where
  "emptyExecutionReport = \<lparr>er_OrderId = 0, er_ClientOrderId = 0, er_Status = 0, er_Reason = 0, er_Side = 0,
     er_Price = 0, er_Qty = 0, er_RemainingQty = 0, er_Timestamp = 0\<rparr>"

definition emptyTradeEvent :: TradeEvent where
  "emptyTradeEvent = \<lparr>te_Price = 0, te_Qty = 0, te_MakerOrderId = 0, te_TakerOrderId = 0, te_Timestamp = 0\<rparr>"

definition emptyBookUpdate :: BookUpdate where
  "emptyBookUpdate = \<lparr>bu_Side = 0, bu_Price = 0, bu_AggregateQty = 0, bu_Timestamp = 0\<rparr>"

text \<open>The \<open>switch\<close> of \<open>onMessage\<close>: the callback a message causes, or \<open>None\<close> where it only logs.\<close>

definition egressCallback :: "u16 \<Rightarrow> u16 \<Rightarrow> u16 \<Rightarrow> bytes \<Rightarrow> callback option" where
  "egressCallback templateId version blockLength body =
     (if templateId = SbeTemplateId ExecutionReport_meta then
        (case ExecutionReport_Decode emptyExecutionReport version blockLength True body of
           Inl e \<Rightarrow> None
         | Inr (m, r) \<Rightarrow> Some (OnExecutionReport \<lparr>xr_OrderId = er_OrderId m, xr_ClientOrderId = er_ClientOrderId m,
             xr_Status = er_Status m, xr_Reason = er_Reason m, xr_Side = er_Side m, xr_Price = er_Price m,
             xr_Qty = er_Qty m, xr_RemainingQty = er_RemainingQty m, xr_Timestamp = er_Timestamp m\<rparr>))
      else if templateId = SbeTemplateId TradeEvent_meta then
        (case TradeEvent_Decode emptyTradeEvent version blockLength True body of
           Inl e \<Rightarrow> None
         | Inr (m, r) \<Rightarrow> Some (OnTrade \<lparr>tr_Price = te_Price m, tr_Qty = te_Qty m, tr_MakerOrderId = te_MakerOrderId m,
             tr_TakerOrderId = te_TakerOrderId m, tr_Timestamp = te_Timestamp m\<rparr>))
      else if templateId = SbeTemplateId BookUpdate_meta then
        (case BookUpdate_Decode emptyBookUpdate version blockLength True body of
           Inl e \<Rightarrow> None
         | Inr (m, r) \<Rightarrow> Some (OnBookUpdate \<lparr>bk_Side = bu_Side m, bk_Price = bu_Price m,
             bk_AggregateQty = bu_AggregateQty m, bk_Timestamp = bu_Timestamp m\<rparr>))
      else None)"

definition onMessage :: "'b bufferApi \<Rightarrow> 'b \<Rightarrow> i32 \<Rightarrow> i32 \<Rightarrow> callback option" where
  "onMessage api buffer offset len =
     (if len <s 8 then None
      else
        (let blockLength = GetUInt16 api buffer offset;
             templateId = GetUInt16 api buffer (offset + 2);
             version = GetUInt16 api buffer (offset + 6);
             body = GetBytes api buffer (offset + 8) (len - 8)
         in egressCallback templateId version blockLength body))"

text \<open>The adapter, and the callbacks of the cluster client that lead to it (\<open>clusterEgress\<close>).\<close>

record egressAdapter =
  heard :: "(int \<times> callback) list"

definition newEgressAdapter :: egressAdapter where
  "newEgressAdapter = \<lparr>heard = []\<rparr>"

datatype 'b egressEvent =
    EgConnect
  | EgDisconnect string
  | EgNewLeader i64 i32
  | EgError string
  | EgMessage i64 'b i32 i32

fun clusterEgress :: "'b bufferApi \<Rightarrow> 'b egressEvent \<Rightarrow> callback option" where
  "clusterEgress api EgConnect = None"
| "clusterEgress api (EgDisconnect detail) = None"
| "clusterEgress api (EgNewLeader term leader) = None"
| "clusterEgress api (EgError detail) = None"
| "clusterEgress api (EgMessage timestamp buffer offset len) = onMessage api buffer offset len"

definition hear :: "'b bufferApi \<Rightarrow> int \<times> 'b egressEvent \<Rightarrow> egressAdapter \<Rightarrow> egressAdapter" where
  "hear api ev a = (case clusterEgress api (snd ev) of None \<Rightarrow> a | Some cb \<Rightarrow> a\<lparr>heard := heard a @ [(fst ev, cb)]\<rparr>)"

section \<open>Ingress\<close>

text \<open>What the client uses of Aeron and of the operating system: the result of \<open>NewAeronCluster\<close> for a
  directory and options, of successive \<open>IsConnected\<close> and \<open>Offer\<close> calls, what successive \<open>Poll\<close> calls return
  and hand over (each event with the time of its callback), the buffer accessors, and successive readings
  of the clock, in nanoseconds.\<close>

record Options =
  IngressChannel :: string
  IngressEndpoints :: string
  EgressChannel :: string

record 'b clientEnv =
  newAeronCluster :: "string \<Rightarrow> Options \<Rightarrow> string + unit"
  isConnected :: "nat \<Rightarrow> bool"
  acOffer :: "nat \<Rightarrow> i64"
  acPoll :: "nat \<Rightarrow> int \<times> (int \<times> 'b egressEvent) list"
  acApi :: "'b bufferApi"
  clock :: "nat \<Rightarrow> int"

datatype clientError =
    ClusterError string
  | TimedOutConnecting
  | TimedOutOffering
  | EncodeError werror

text \<open>A client: the options it was connected with, its adapter, the \<open>Offer\<close> and \<open>Poll\<close> calls and clock readings
  made, the payloads the cluster accepted, and whether the cluster client was closed.\<close>

record Client =
  cliOpts :: Options
  cliAdapter :: egressAdapter
  cliPolls :: nat
  cliOffers :: nat
  cliReads :: nat
  cliSent :: "bytes list"
  cliClosed :: bool

definition Poll :: "'b clientEnv \<Rightarrow> Client \<Rightarrow> int \<times> Client" where
  "Poll env c = (case acPoll env (cliPolls c) of (n, evs) \<Rightarrow>
     (n, c\<lparr>cliPolls := cliPolls c + 1, cliAdapter := fold (hear (acApi env)) evs (cliAdapter c)\<rparr>))"

definition Close :: "Client \<Rightarrow> Client" where
  "Close c = c\<lparr>cliClosed := True\<rparr>"

definition second :: int where
  "second = 1000000000"

text \<open>The loop of \<open>ConnectWithEgress\<close>, from the \<open>n\<close>th \<open>IsConnected\<close>.\<close>

partial_function (option) connect_loop :: "'b clientEnv \<Rightarrow> int \<Rightarrow> nat \<Rightarrow> Client \<Rightarrow> ((clientError + unit) \<times> Client) option" where
  "connect_loop env deadline n c =
     (if isConnected env n then Some (Inr (), c)
      else
        (let expired = (deadline < clock env (cliReads c)); c = c\<lparr>cliReads := cliReads c + 1\<rparr>
         in if expired then Some (Inl TimedOutConnecting, Close c)
            else connect_loop env deadline (n + 1) (snd (Poll env c))))"

definition connectOptions :: "string \<Rightarrow> string \<Rightarrow> Options" where
  "connectOptions ingressEndpoints egressEndpoint = \<lparr>IngressChannel = ''aeron:udp?alias=gomatch-ingress'',
     IngressEndpoints = ingressEndpoints,
     EgressChannel = ''aeron:udp?alias=gomatch-egress|endpoint='' @ egressEndpoint\<rparr>"

definition ConnectWithEgress :: "'b clientEnv \<Rightarrow> string \<Rightarrow> string \<Rightarrow> string \<Rightarrow> (clientError + Client) option" where
  "ConnectWithEgress env aeronDir ingressEndpoints egressEndpoint =
     (let opts = connectOptions ingressEndpoints egressEndpoint
      in case newAeronCluster env aeronDir opts of
           Inl e \<Rightarrow> Some (Inl (ClusterError e))
         | Inr u \<Rightarrow>
             (let c = \<lparr>cliOpts = opts, cliAdapter = newEgressAdapter, cliPolls = 0, cliOffers = 0, cliReads = 0,
                    cliSent = [], cliClosed = False\<rparr>;
                  deadline = clock env (cliReads c) + 30 * second
              in case connect_loop env deadline 0 (c\<lparr>cliReads := cliReads c + 1\<rparr>) of
                   None \<Rightarrow> None
                 | Some (Inl e, c) \<Rightarrow> Some (Inl e)
                 | Some (Inr u, c) \<Rightarrow> Some (Inr c)))"

definition Connect :: "'b clientEnv \<Rightarrow> string \<Rightarrow> string \<Rightarrow> (clientError + Client) option" where
  "Connect env aeronDir ingressEndpoints = ConnectWithEgress env aeronDir ingressEndpoints ''localhost:0''"

text \<open>The loop of \<open>offer\<close>: offer until accepted or past the deadline.\<close>

partial_function (option) offer_loop :: "'b clientEnv \<Rightarrow> int \<Rightarrow> bytes \<Rightarrow> Client \<Rightarrow> ((clientError + unit) \<times> Client) option" where
  "offer_loop env deadline payload c =
     (if acOffer env (cliOffers c) <s 0 then
        (let expired = (deadline < clock env (cliReads c));
             c = c\<lparr>cliOffers := cliOffers c + 1, cliReads := cliReads c + 1\<rparr>
         in if expired then Some (Inl TimedOutOffering, c) else offer_loop env deadline payload (snd (Poll env c)))
      else Some (Inr (), c\<lparr>cliOffers := cliOffers c + 1, cliSent := cliSent c @ [payload]\<rparr>))"

definition clientOffer :: "'b clientEnv \<Rightarrow> sbeMessage \<Rightarrow> Client \<Rightarrow> ((clientError + unit) \<times> Client) option" where
  "clientOffer env msg c =
     (let buf = MessageHeader_Encode \<lparr>mh_BlockLength = SbeBlockLength (msgMeta msg), mh_TemplateId = SbeTemplateId (msgMeta msg),
            mh_SchemaId = SbeSchemaId (msgMeta msg), mh_Version = SbeSchemaVersion (msgMeta msg)\<rparr> []
      in case msgEncode msg True buf of
           Inl e \<Rightarrow> Some (Inl (EncodeError e), c)
         | Inr payload \<Rightarrow>
             (let deadline = clock env (cliReads c) + 10 * second
              in offer_loop env deadline payload (c\<lparr>cliReads := cliReads c + 1\<rparr>)))"

definition SubmitOrder :: "'b clientEnv \<Rightarrow> i64 \<Rightarrow> SideEnum \<Rightarrow> i64 \<Rightarrow> i64 \<Rightarrow> Client \<Rightarrow> ((clientError + unit) \<times> Client) option" where
  "SubmitOrder env cid sd p q c =
     clientOffer env (NewOrder_msg \<lparr>no_ClientOrderId = cid, no_Side = sd, no_Price = p, no_Qty = q\<rparr>) c"

definition SubmitCancel :: "'b clientEnv \<Rightarrow> i64 \<Rightarrow> Client \<Rightarrow> ((clientError + unit) \<times> Client) option" where
  "SubmitCancel env k c = clientOffer env (CancelOrder_msg \<lparr>co_OrderId = k\<rparr>) c"

section \<open>Frames and callbacks\<close>

definition callbackIn :: "bytes \<Rightarrow> callback option" where
  "callbackIn f = (if length f < 8 then None else egressCallback (u16At f 2) (u16At f 6) (u16At f 0) (drop 8 f))"

lemma onMessage_frame:
  assumes "frameAt api buf off len f"
  shows "onMessage api buf off len = callbackIn f"
  using frameAt_length [OF assms] frameAt_reads [OF assms]
  by (simp add: onMessage_def callbackIn_def Let_def del: not_sless)

text \<open>The callback that tells a listener of an event.\<close>

definition callbackOf :: "i64 \<Rightarrow> Event \<Rightarrow> callback" where
  "callbackOf ts ev = (case Type ev of
     EvTrade \<Rightarrow> OnTrade \<lparr>tr_Price = Price ev, tr_Qty = Qty ev, tr_MakerOrderId = MakerOrderId ev,
       tr_TakerOrderId = TakerOrderId ev, tr_Timestamp = ts\<rparr>
   | EvBookUpdate \<Rightarrow> OnBookUpdate \<lparr>bk_Side = EvSide ev, bk_Price = Price ev, bk_AggregateQty = AggregateQty ev, bk_Timestamp = ts\<rparr>
   | _ \<Rightarrow> OnExecutionReport \<lparr>xr_OrderId = OrderId ev, xr_ClientOrderId = ClientOrderId ev, xr_Status = statusOf ev,
       xr_Reason = reasonCode (Reason ev), xr_Side = EvSide ev, xr_Price = Price ev, xr_Qty = Qty ev,
       xr_RemainingQty = RemainingQty ev, xr_Timestamp = ts\<rparr>)"

lemma frame_callback:
  assumes "frameOf ts ev = Inr f"
  shows "callbackIn f = Some (callbackOf ts ev)"
proof -
  consider "Type ev = EvTrade" | "Type ev = EvBookUpdate"
    | "frameOf ts ev = encodeExecutionReport ev ts" "callbackOf ts ev = OnExecutionReport \<lparr>xr_OrderId = OrderId ev,
       xr_ClientOrderId = ClientOrderId ev, xr_Status = statusOf ev, xr_Reason = reasonCode (Reason ev),
       xr_Side = EvSide ev, xr_Price = Price ev, xr_Qty = Qty ev, xr_RemainingQty = RemainingQty ev, xr_Timestamp = ts\<rparr>"
    by (cases "Type ev") (auto simp: frameOf_def callbackOf_def)
  then show ?thesis
  proof cases
    case 1
    then have "encodeFrame \<lparr>msgEncode = TradeEvent_Encode (tradeOf ev ts), msgMeta = TradeEvent_meta\<rparr> = Inr f"
      using assms by (simp add: frameOf_def encodeTrade_def TradeEvent_msg_def)
    note d = te_codec.frame_decode [OF this]
    show ?thesis using d(2) [of emptyTradeEvent] 1 unfolding d(1) callbackIn_def
      by (simp add: frameBytes_header egressCallback_def callbackOf_def tradeOf_def TradeEvent_meta_def ExecutionReport_meta_def)
  next
    case 2
    then have "encodeFrame \<lparr>msgEncode = BookUpdate_Encode (updateOf ev ts), msgMeta = BookUpdate_meta\<rparr> = Inr f"
      using assms by (simp add: frameOf_def encodeBookUpdate_def BookUpdate_msg_def)
    note d = bu_codec.frame_decode [OF this]
    show ?thesis using d(2) [of emptyBookUpdate] 2 unfolding d(1) callbackIn_def
      by (simp add: frameBytes_header egressCallback_def callbackOf_def updateOf_def BookUpdate_meta_def TradeEvent_meta_def ExecutionReport_meta_def)
  next
    case 3
    then have "encodeFrame \<lparr>msgEncode = ExecutionReport_Encode (reportOf ev ts), msgMeta = ExecutionReport_meta\<rparr> = Inr f"
      using assms by (simp add: encodeExecutionReport_def ExecutionReport_msg_def)
    note d = er_codec.frame_decode [OF this]
    show ?thesis using d(2) [of emptyExecutionReport] 3(2) unfolding d(1) callbackIn_def
      by (simp add: frameBytes_header egressCallback_def reportOf_def ExecutionReport_meta_def del: statusOf.simps reasonCode.simps)
  qed
qed

text \<open>Frames that cause no callback.\<close>

lemma callbackIn_foreign:
  "length f < 8 \<or> (u16At f 2 \<noteq> 10 \<and> u16At f 2 \<noteq> 11 \<and> u16At f 2 \<noteq> 12) \<Longrightarrow> callbackIn f = None"
  by (auto simp: callbackIn_def egressCallback_def ExecutionReport_meta_def TradeEvent_meta_def BookUpdate_meta_def)

section \<open>The offer loop\<close>

text \<open>The clock passes every bound.\<close>

definition ticking :: "'b clientEnv \<Rightarrow> bool" where
  "ticking env \<longleftrightarrow> (\<forall>t n. \<exists>k \<ge> n. t < clock env k)"

text \<open>How an offer can end: the payload was accepted once, or the deadline passed and nothing was.\<close>

definition offerEnds :: "bytes list \<Rightarrow> bytes \<Rightarrow> clientError + unit \<Rightarrow> Client \<Rightarrow> bool" where
  "offerEnds sent0 payload r c' \<longleftrightarrow> (case r of Inr u \<Rightarrow> cliSent c' = sent0 @ [payload]
     | Inl e \<Rightarrow> e = TimedOutOffering \<and> cliSent c' = sent0)"

text \<open>Polling again and again: only the adapter and the count of polls move.\<close>

definition pollN :: "'b clientEnv \<Rightarrow> nat \<Rightarrow> Client \<Rightarrow> Client" where
  "pollN env i = (\<lambda>c. snd (Poll env c)) ^^ i"

lemma Poll_upd [simp]:
  "snd (Poll env (c\<lparr>cliReads := k\<rparr>)) = (snd (Poll env c))\<lparr>cliReads := k\<rparr>"
  "snd (Poll env (c\<lparr>cliOffers := k\<rparr>)) = (snd (Poll env c))\<lparr>cliOffers := k\<rparr>"
  by (simp_all add: Poll_def split: prod.splits)

lemma Poll_sel [simp]:
  "cliOpts (snd (Poll env c)) = cliOpts c" "cliOffers (snd (Poll env c)) = cliOffers c"
  "cliReads (snd (Poll env c)) = cliReads c" "cliSent (snd (Poll env c)) = cliSent c"
  "cliClosed (snd (Poll env c)) = cliClosed c" "cliPolls (snd (Poll env c)) = cliPolls c + 1"
  by (simp_all add: Poll_def split: prod.splits)

lemma pollN_simps [simp]: "pollN env 0 c = c" "pollN env (Suc i) c = snd (Poll env (pollN env i c))"
  by (simp_all add: pollN_def)

lemma pollN_sel [simp]:
  "cliOpts (pollN env i c) = cliOpts c" "cliOffers (pollN env i c) = cliOffers c"
  "cliReads (pollN env i c) = cliReads c" "cliSent (pollN env i c) = cliSent c"
  "cliClosed (pollN env i c) = cliClosed c" "cliPolls (pollN env i c) = cliPolls c + i"
  by (induction i) simp_all

text \<open>What the listener hears in the \<open>k\<close>th poll, and that a call passes on all it polls: nothing is lost,
  repeated or reordered.\<close>

definition heardIn :: "'b clientEnv \<Rightarrow> nat \<Rightarrow> (int \<times> callback) list" where
  "heardIn env k = List.map_filter (\<lambda>(t, ev). map_option (Pair t) (clusterEgress (acApi env) ev)) (snd (acPoll env k))"

definition hears :: "'b clientEnv \<Rightarrow> Client \<Rightarrow> Client \<Rightarrow> bool" where
  "hears env c c' \<longleftrightarrow> cliPolls c \<le> cliPolls c'
     \<and> heard (cliAdapter c') = heard (cliAdapter c) @ concat (map (heardIn env) [cliPolls c..<cliPolls c'])"

lemma fold_hear: "heard (fold (hear api) evs a) =
    heard a @ List.map_filter (\<lambda>(t, ev). map_option (Pair t) (clusterEgress api ev)) evs"
  by (induction evs arbitrary: a) (auto simp: hear_def List.map_filter_def split: option.splits)

lemma hears_refl [simp]: "hears env c c"
  by (simp add: hears_def)

lemma hears_trans: "hears env c c1 \<Longrightarrow> hears env c1 c2 \<Longrightarrow> hears env c c2"
proof -
  assume a: "hears env c c1" "hears env c1 c2"
  have "[cliPolls c..<cliPolls c2] = [cliPolls c..<cliPolls c1] @ [cliPolls c1..<cliPolls c2]"
    using upt_add_eq_append [of "cliPolls c" "cliPolls c1" "cliPolls c2 - cliPolls c1"] a by (simp add: hears_def)
  then show ?thesis using a by (simp add: hears_def)
qed

lemma hears_Poll: "hears env c (snd (Poll env c))"
  by (simp add: hears_def Poll_def fold_hear heardIn_def split: prod.splits)

lemma hears_pollN: "hears env c (pollN env i c)"
  by (induction i) (auto intro: hears_trans hears_Poll)

lemma hears_upd [simp]:
  "hears env c (c'\<lparr>cliReads := k\<rparr>) = hears env c c'" "hears env c (c'\<lparr>cliOffers := k\<rparr>) = hears env c c'"
  "hears env c (c'\<lparr>cliSent := ps\<rparr>) = hears env c c'" "hears env c (c'\<lparr>cliClosed := b\<rparr>) = hears env c c'"
  "hears env (c\<lparr>cliReads := k\<rparr>) c' = hears env c c'"
  by (simp_all add: hears_def)

text \<open>The client in the \<open>i\<close>th round of the loop.\<close>

definition offering :: "'b clientEnv \<Rightarrow> Client \<Rightarrow> nat \<Rightarrow> Client" where
  "offering env c i = (pollN env i c)\<lparr>cliOffers := cliOffers c + i, cliReads := cliReads c + i\<rparr>"

interpretation ingress: retry_loop "\<lambda>i. 0 \<le>s acOffer env (cliOffers c + i) \<or> deadline < clock env (cliReads c + i)"
    "\<lambda>i. offer_loop env deadline payload (offering env c i)"
    "\<lambda>i. if 0 \<le>s acOffer env (cliOffers c + i)
      then (Inr (), (offering env c i)\<lparr>cliOffers := cliOffers c + i + 1, cliSent := cliSent c @ [payload]\<rparr>)
      else (Inl TimedOutOffering, (offering env c i)\<lparr>cliOffers := cliOffers c + i + 1, cliReads := cliReads c + i + 1\<rparr>)"
  for env deadline payload c
  by unfold_locales (subst offer_loop.simps, auto simp: Let_def sle_sless_False offering_def)+

lemma offer_loop_returns:
  assumes "cliReads c \<le> k" and "deadline < clock env k"
  shows "\<exists>r c'. offer_loop env deadline payload c = Some (r, c') \<and> offerEnds (cliSent c) payload r c' \<and> hears env c c'
    \<and> cliPolls c' + cliOffers c + 1 = cliPolls c + cliOffers c'"
proof -
  have "\<exists>i \<ge> 0. 0 \<le>s acOffer env (cliOffers c + i) \<or> deadline < clock env (cliReads c + i)"
    by (rule exI [of _ "k - cliReads c"]) (use assms in simp)
  then obtain i where "offer_loop env deadline payload (offering env c 0) =
      Some (if 0 \<le>s acOffer env (cliOffers c + i)
      then (Inr (), (offering env c i)\<lparr>cliOffers := cliOffers c + i + 1, cliSent := cliSent c @ [payload]\<rparr>)
      else (Inl TimedOutOffering, (offering env c i)\<lparr>cliOffers := cliOffers c + i + 1, cliReads := cliReads c + i + 1\<rparr>))"
    by (rule ingress.returns [of 0 env c deadline payload])
  moreover have "offering env c 0 = c" by (simp add: offering_def)
  moreover have "hears env c (offering env c i)" by (simp add: offering_def hears_pollN)
  ultimately show ?thesis by (auto simp: offerEnds_def offering_def split: if_splits)
qed

lemma clientOffer_frame:
  "clientOffer env msg c = (case encodeFrame msg of Inl e \<Rightarrow> Some (Inl (EncodeError e), c)
     | Inr f \<Rightarrow> offer_loop env (clock env (cliReads c) + 10 * second) f (c\<lparr>cliReads := cliReads c + 1\<rparr>))"
  by (cases "msgEncode msg True (MessageHeader_Encode (frameHeader (msgMeta msg)) [])")
    (simp_all add: clientOffer_def encodeFrame_def Let_def frameHeader_def)

lemma clientOffer_accepted:
  assumes "\<forall>k. 0 \<le>s acOffer env k" and "encodeFrame msg = Inr f"
  shows "clientOffer env msg c = Some (Inr (), c\<lparr>cliOffers := cliOffers c + 1, cliReads := cliReads c + 1,
    cliSent := cliSent c @ [f]\<rparr>)"
proof -
  have "\<not> acOffer env k <s 0" for k using assms(1) by simp
  then show ?thesis unfolding clientOffer_frame assms(2)
    by (simp add: offer_loop.simps [of env _ _ "c\<lparr>cliReads := Suc (cliReads c)\<rparr>"] del: not_sless)
qed

lemma clientOffer_returns:
  assumes "ticking env"
  shows "\<exists>r c'. clientOffer env msg c = Some (r, c') \<and> hears env c c' \<and> (case r of
     Inr u \<Rightarrow> \<exists>f. encodeFrame msg = Inr f \<and> cliSent c' = cliSent c @ [f]
   | Inl (EncodeError e) \<Rightarrow> encodeFrame msg = Inl e \<and> c' = c
   | Inl e \<Rightarrow> e = TimedOutOffering \<and> isOk (encodeFrame msg) \<and> cliSent c' = cliSent c)"
proof (cases "encodeFrame msg")
  case (Inl e)
  then show ?thesis by (simp add: clientOffer_frame)
next
  case (Inr f)
  obtain k where "cliReads c + 1 \<le> k" "clock env (cliReads c) + 10 * second < clock env k"
    using assms unfolding ticking_def by blast
  with offer_loop_returns [of "c\<lparr>cliReads := cliReads c + 1\<rparr>" k "clock env (cliReads c) + 10 * second" env f]
  obtain r c' where r: "offer_loop env (clock env (cliReads c) + 10 * second) f (c\<lparr>cliReads := cliReads c + 1\<rparr>) = Some (r, c')"
    "offerEnds (cliSent c) f r c'" "hears env c c'"
    by auto
  then show ?thesis using Inr by (cases r) (auto simp: clientOffer_frame offerEnds_def)
qed

text \<open>Every offer but the last is followed by a poll.\<close>

lemma clientOffer_polls:
  assumes "ticking env" and "clientOffer env msg c = Some (r, c')"
  shows "cliPolls c' + cliOffers c + (if isOk (encodeFrame msg) then 1 else 0) = cliPolls c + cliOffers c'"
proof (cases "encodeFrame msg")
  case (Inl e)
  then show ?thesis using assms(2) by (simp add: clientOffer_frame)
next
  case (Inr f)
  obtain k where "cliReads c + 1 \<le> k" "clock env (cliReads c) + 10 * second < clock env k"
    using assms(1) unfolding ticking_def by blast
  with offer_loop_returns [of "c\<lparr>cliReads := cliReads c + 1\<rparr>" k "clock env (cliReads c) + 10 * second" env f] Inr assms(2)
  show ?thesis by (auto simp: clientOffer_frame)
qed

definition connecting_at :: "'b clientEnv \<Rightarrow> Client \<Rightarrow> nat \<Rightarrow> Client" where
  "connecting_at env c i = (pollN env i c)\<lparr>cliReads := cliReads c + i\<rparr>"

interpretation connecting: retry_loop "\<lambda>i. isConnected env (n + i) \<or> deadline < clock env (cliReads c + i)"
    "\<lambda>i. connect_loop env deadline (n + i) (connecting_at env c i)"
    "\<lambda>i. if isConnected env (n + i) then (Inr (), connecting_at env c i)
      else (Inl TimedOutConnecting, Close ((connecting_at env c i)\<lparr>cliReads := cliReads c + i + 1\<rparr>))"
  for env deadline n c
  by unfold_locales (subst connect_loop.simps, auto simp: Let_def connecting_at_def)+

lemma connect_loop_returns:
  assumes "cliReads c \<le> m" and "deadline < clock env m"
  shows "\<exists>r c'. connect_loop env deadline n c = Some (r, c') \<and> hears env c c' \<and> cliSent c' = cliSent c \<and> cliOpts c' = cliOpts c
    \<and> (case r of
        Inr u \<Rightarrow> (\<exists>i \<ge> n. isConnected env i) \<and> cliClosed c' = cliClosed c
      | Inl e \<Rightarrow> e = TimedOutConnecting \<and> \<not> isConnected env n \<and> cliClosed c')"
proof -
  have "\<exists>i \<ge> 0. isConnected env (n + i) \<or> deadline < clock env (cliReads c + i)"
    by (rule exI [of _ "m - cliReads c"]) (use assms in simp)
  then obtain i where i: "\<And>j. 0 \<le> j \<Longrightarrow> j < i \<Longrightarrow> \<not> (isConnected env (n + j) \<or> deadline < clock env (cliReads c + j))"
    "connect_loop env deadline (n + 0) (connecting_at env c 0) = Some (if isConnected env (n + i) then (Inr (), connecting_at env c i)
      else (Inl TimedOutConnecting, Close ((connecting_at env c i)\<lparr>cliReads := cliReads c + i + 1\<rparr>)))"
    by (rule connecting.returns [of 0 env n deadline c]) blast
  have "\<not> isConnected env n" if "\<not> isConnected env (n + i)"
    using i(1) [of 0] that by (cases "i = 0") auto
  moreover have "connecting_at env c 0 = c" "hears env c (connecting_at env c i)"
    by (simp_all add: connecting_at_def hears_pollN)
  ultimately show ?thesis using i(2)
    by (auto simp: connecting_at_def Close_def split: if_splits intro: exI [of _ "n + i"])
qed

lemma ConnectWithEgress_returns:
  assumes "ticking env"
  shows "\<exists>r. ConnectWithEgress env dir ingress egress = Some r \<and> (case r of
      Inr c \<Rightarrow> cliSent c = [] \<and> (\<exists>n. isConnected env n) \<and> cliOpts c = connectOptions ingress egress \<and> \<not> cliClosed c
        \<and> heard (cliAdapter c) = concat (map (heardIn env) [0..<cliPolls c])
    | Inl (ClusterError e) \<Rightarrow> newAeronCluster env dir (connectOptions ingress egress) = Inl e
    | Inl e \<Rightarrow> e = TimedOutConnecting \<and> \<not> isConnected env 0)"
proof (cases "newAeronCluster env dir (connectOptions ingress egress)")
  case (Inl e)
  then show ?thesis by (simp add: ConnectWithEgress_def Let_def)
next
  case (Inr u)
  let ?c = "\<lparr>cliOpts = connectOptions ingress egress, cliAdapter = newEgressAdapter, cliPolls = 0, cliOffers = 0, cliReads = 1,
    cliSent = [], cliClosed = False\<rparr>"
  obtain m where "cliReads ?c \<le> m" "clock env 0 + 30 * second < clock env m" using assms unfolding ticking_def by blast
  from connect_loop_returns [OF this, of 0] obtain r c' where
    r: "connect_loop env (clock env 0 + 30 * second) 0 ?c = Some (r, c')" "hears env ?c c'" "cliSent c' = cliSent ?c"
      "cliOpts c' = cliOpts ?c"
      "case r of Inr u \<Rightarrow> (\<exists>i \<ge> 0. isConnected env i) \<and> cliClosed c' = cliClosed ?c | Inl e \<Rightarrow> e = TimedOutConnecting \<and> \<not> isConnected env 0 \<and> cliClosed c'"
    by blast
  then show ?thesis using Inr by (cases r) (auto simp: ConnectWithEgress_def Let_def hears_def newEgressAdapter_def)
qed

section \<open>Sequences of calls\<close>

datatype clientCall =
    CallSubmit i64 SideEnum i64 i64
  | CallCancel i64
  | CallPoll

fun doCall :: "'b clientEnv \<Rightarrow> clientCall \<Rightarrow> Client \<Rightarrow> Client option" where
  "doCall env (CallSubmit cid sd p q) c = map_option snd (SubmitOrder env cid sd p q c)"
| "doCall env (CallCancel k) c = map_option snd (SubmitCancel env k c)"
| "doCall env CallPoll c = Some (snd (Poll env c))"

primrec clientCalls :: "'b clientEnv \<Rightarrow> clientCall list \<Rightarrow> Client \<Rightarrow> Client option" where
  "clientCalls env [] c = Some c"
| "clientCalls env (x # xs) c = do { c \<leftarrow> doCall env x c; clientCalls env xs c }"

text \<open>Does the call get as far as offering a frame?\<close>

fun callOffers :: "clientCall \<Rightarrow> bool" where
  "callOffers (CallSubmit cid sd p q) \<longleftrightarrow> isOk (encodeFrame (NewOrder_msg \<lparr>no_ClientOrderId = cid, no_Side = sd, no_Price = p, no_Qty = q\<rparr>))"
| "callOffers (CallCancel k) \<longleftrightarrow> isOk (encodeFrame (CancelOrder_msg \<lparr>co_OrderId = k\<rparr>))"
| "callOffers CallPoll \<longleftrightarrow> False"

lemma doCall_polls:
  assumes "ticking env" and "doCall env x c = Some c'"
  shows "cliPolls c' + cliOffers c + (if callOffers x then 1 else 0) = cliPolls c + cliOffers c' + (if x = CallPoll then 1 else 0)"
  using assms(2) by (cases x) (auto simp: SubmitOrder_def SubmitCancel_def dest!: clientOffer_polls [OF assms(1)])

lemma clientCalls_polls:
  assumes "ticking env"
  shows "clientCalls env xs c = Some c' \<Longrightarrow> cliPolls c' + cliOffers c + length (filter callOffers xs)
    = cliPolls c + cliOffers c' + length (filter (\<lambda>x. x = CallPoll) xs)"
proof (induction xs arbitrary: c)
  case (Cons x xs)
  then obtain c1 where c1: "doCall env x c = Some c1" "clientCalls env xs c1 = Some c'" by (auto split: bind_splits)
  show ?case using doCall_polls [OF assms c1(1)] Cons.IH [OF c1(2)] by (auto split: if_splits)
qed simp

lemma doCall_hear:
  assumes "ticking env"
  shows "\<exists>c'. doCall env x c = Some c' \<and> hears env c c'"
proof -
  have "\<exists>c'. map_option snd (clientOffer env msg c) = Some c' \<and> hears env c c'" for msg
    using clientOffer_returns [OF assms, of msg c] by auto
  then show ?thesis by (cases x) (simp_all add: SubmitOrder_def SubmitCancel_def hears_Poll)
qed

lemma clientCalls_hear:
  assumes "ticking env"
  shows "\<exists>c'. clientCalls env xs c = Some c' \<and> hears env c c'"
proof (induction xs arbitrary: c)
  case (Cons x xs)
  obtain c1 where "doCall env x c = Some c1" "hears env c c1" using doCall_hear [OF assms] by blast
  then show ?case using Cons [of c1] hears_trans by fastforce
qed simp

end
