(* ===== verification/Percentile.thy ===== *)
theory Percentile
  imports Prelude "HOL-Library.Multiset"
begin

text \<open>
  The percentiles the load generator prints (\<open>pct\<close> in \<open>src/go/cmd/loadgen/main.go\<close>), with the \<open>float64\<close>
  arithmetic they go through. The numbers that occur are not negative and stay far inside the exponent
  range, so a float is a significand of at most 53 bits over a power of two, and each operation rounds
  the exact result to 53 bits, ties to even.
\<close>

section \<open>Floating point\<close>

record flt =
  sig :: nat
  scale :: nat

fun bitLen :: "nat \<Rightarrow> nat" where
  "bitLen n = (if n = 0 then 0 else Suc (bitLen (n div 2)))"

declare bitLen.simps [simp del]

definition roundEven :: "nat \<Rightarrow> nat \<Rightarrow> nat" where
  "roundEven n s = (let q = n div 2 ^ s; r = n mod 2 ^ s
     in if 2 * r < 2 ^ s \<or> (2 * r = 2 ^ s \<and> even q) then q else q + 1)"

definition round53 :: "nat \<Rightarrow> nat" where
  "round53 n = (let s = bitLen n - 53 in roundEven n s * 2 ^ s)"

text \<open>\<open>float64(k)\<close>, the product, and the truncation \<open>int(x)\<close>.\<close>

definition fltOfInt :: "nat \<Rightarrow> flt" where
  "fltOfInt k = \<lparr>sig = round53 k, scale = 0\<rparr>"

definition fltMul :: "flt \<Rightarrow> flt \<Rightarrow> flt" where
  "fltMul a b = \<lparr>sig = round53 (sig a * sig b), scale = scale a + scale b\<rparr>"

definition intOfFlt :: "flt \<Rightarrow> nat" where
  "intOfFlt a = sig a div 2 ^ scale a"

text \<open>The \<open>float64\<close> nearest to a decimal constant between one half and one.\<close>

definition fltLit :: "nat \<Rightarrow> nat \<Rightarrow> flt" where
  "fltLit num den = \<lparr>sig = (2 * num * 2 ^ 53 + den) div (2 * den), scale = 53\<rparr>"

section \<open>\<open>pct\<close>\<close>

definition pctIndex :: "flt \<Rightarrow> nat \<Rightarrow> nat" where
  "pctIndex p n = intOfFlt (fltMul p (fltOfInt (n - 1)))"

definition pct :: "int list \<Rightarrow> flt \<Rightarrow> int option" where
  "pct latencies p = (if length latencies = 0 then Some 0
     else
       (let idx = pctIndex p (length latencies)
        in if idx < length latencies then Some (latencies ! idx) else None))"

section \<open>Rounding\<close>

lemma bitLen_0 [simp]: "bitLen 0 = 0"
  by (simp add: bitLen.simps)

lemma bitLen_bounds: "n < 2 ^ bitLen n" "0 < n \<Longrightarrow> 2 ^ (bitLen n - 1) \<le> n"
proof (induction n rule: bitLen.induct)
  case (1 n)
  {
    case 1
    show ?case using "1.IH"(1) by (cases "n = 0") (simp_all add: bitLen.simps [of n])
  next
    case 2
    then show ?case using "1.IH"(2) by (cases "n div 2 = 0") (auto simp: bitLen.simps [of n] bitLen.simps [of "n div 2"])
  }
qed

lemma bitLen_le: "n < 2 ^ k \<Longrightarrow> bitLen n \<le> k"
proof (rule ccontr)
  assume n: "n < 2 ^ k" and "\<not> bitLen n \<le> k"
  then have "k \<le> bitLen n - 1" "0 < n" by (auto intro: Suc_leI gr0I)
  then have "(2 :: nat) ^ k \<le> n" using bitLen_bounds(2) [of n] power_increasing [of k "bitLen n - 1" "2 :: nat"] by linarith
  with n show False by simp
qed

lemma bitLen_mono: "n \<le> m \<Longrightarrow> bitLen n \<le> bitLen m"
  by (rule bitLen_le) (use bitLen_bounds(1) [of m] in linarith)

lemma roundEven_near: "n div 2 ^ s \<le> roundEven n s" "roundEven n s \<le> n div 2 ^ s + 1"
  by (simp_all add: roundEven_def Let_def)

lemma roundEven_exact: "2 ^ s dvd n \<Longrightarrow> roundEven n s = n div 2 ^ s"
  by (simp add: roundEven_def Let_def)

lemma roundEven_mono:
  assumes "n \<le> m"
  shows "roundEven n s \<le> roundEven m s"
proof (cases "n div 2 ^ s = m div 2 ^ s")
  case True
  have "n mod 2 ^ s \<le> m mod 2 ^ s" using assms True by (metis add_le_cancel_left div_mult_mod_eq)
  with True show ?thesis by (auto simp: roundEven_def Let_def)
next
  case False
  then have "n div 2 ^ s + 1 \<le> m div 2 ^ s" using div_le_mono [OF assms, of "2 ^ s"] by linarith
  then show ?thesis using roundEven_near(2) [of n s] roundEven_near(1) [of m s] by linarith
qed

lemma round53_exact:
  assumes "n = a * 2 ^ k" and "a < 2 ^ 53"
  shows "round53 n = n"
proof -
  have "bitLen n \<le> k + 53" using assms by (intro bitLen_le) (simp add: power_add)
  then have "2 ^ (bitLen n - 53) dvd n" using assms(1) by (simp add: dvd_mult le_imp_power_dvd)
  then show ?thesis by (simp add: round53_def Let_def roundEven_exact)
qed

lemma round53_small: "n < 2 ^ 53 \<Longrightarrow> round53 n = n"
  by (rule round53_exact [of n n 0]) simp_all

lemma round53_mono:
  assumes "n \<le> m"
  shows "round53 n \<le> round53 m"
proof (cases "bitLen n = bitLen m")
  case True
  then show ?thesis using roundEven_mono [OF assms] by (simp add: round53_def Let_def)
next
  case False
  let ?b = "2 ^ bitLen n :: nat"
  have l: "bitLen n \<le> bitLen m - 1" "0 < m"
    using False bitLen_mono [OF assms] assms by (auto simp: le_less intro: gr0I)
  have "?b \<le> m" using l bitLen_bounds(2) [of m] power_increasing [of "bitLen n" "bitLen m - 1" "2 :: nat"] by linarith
  have sides: "2 ^ (bitLen n - 53) dvd ?b" by (simp add: le_imp_power_dvd)
  have "round53 n \<le> ?b"
    using roundEven_mono [of n ?b "bitLen n - 53"] bitLen_bounds(1) [of n] roundEven_exact [OF sides] sides
    by (simp add: round53_def Let_def) (metis dvd_div_mult_self less_imp_le mult_le_mono1)
  moreover have "?b \<le> round53 m"
  proof -
    let ?s = "bitLen m - 53" and ?t = "2 ^ (bitLen m - 1) :: nat"
    have d: "2 ^ ?s dvd ?t" by (simp add: le_imp_power_dvd)
    have "?t \<le> m" using bitLen_bounds(2) [of m] l by simp
    then have "?t div 2 ^ ?s * 2 ^ ?s \<le> roundEven m ?s * 2 ^ ?s"
      using roundEven_mono [of ?t m ?s] roundEven_exact [OF d] by simp
    then have "?t \<le> round53 m" unfolding round53_def Let_def dvd_div_mult_self [OF d] .
    moreover have "?b \<le> ?t" using l by (simp add: power_increasing)
    ultimately show ?thesis by linarith
  qed
  ultimately show ?thesis by linarith
qed

text \<open>Rounding a number that misses a multiple of \<open>2 ^ 53\<close>: up to it from just below, and not across it from
  further away.\<close>

lemma round53_up:
  assumes "0 < d" and "4 * d \<le> j" and "j < 2 ^ 53"
  shows "round53 (j * 2 ^ 53 - d) = j * 2 ^ 53"
proof -
  let ?y = "j * 2 ^ 53 :: nat"
  define c where "c = bitLen j - 1"
  define s where "s = bitLen (?y - d) - 53"
  have j: "2 ^ c \<le> j" "j < 2 ^ Suc c" "0 < bitLen j"
    using assms(1,2) bitLen_bounds [of j] bitLen.simps [of j] unfolding c_def by auto
  have p: "(2 :: nat) ^ (c + 53) = 2 ^ c * 2 ^ 53" "(2 :: nat) ^ (Suc c + 53) = 2 ^ Suc c * 2 ^ 53" by (simp_all add: power_add)
  have "2 ^ (c + 53) \<le> ?y" unfolding p using j(1) by (rule mult_le_mono1)
  have dj: "d \<le> j" using assms(2) by simp
  have up: "bitLen (?y - d) \<le> Suc c + 53"
  proof (rule bitLen_le)
    have "?y < 2 ^ Suc c * 2 ^ 53" using j(2) by (simp only: mult_less_cancel2) simp
    then show "?y - d < 2 ^ (Suc c + 53)" unfolding p by linarith
  qed
  have lo: "c + 53 \<le> bitLen (?y - d)"
  proof (rule ccontr)
    assume "\<not> c + 53 \<le> bitLen (?y - d)"
    then have "bitLen (?y - d) \<le> c + 52" by simp
    then have "?y - d < 2 ^ (c + 52)" using bitLen_bounds(1) [of "?y - d"] power_increasing [of "bitLen (?y - d)" "c + 52" "2 :: nat"] by linarith
    moreover have "(2 :: nat) ^ (c + 53) = 2 * 2 ^ (c + 52)" by (simp add: power_add)
    ultimately have "?y < 2 * d" using \<open>2 ^ (c + 53) \<le> ?y\<close> by linarith
    then show False using dj by simp
  qed
  have s: "c \<le> s" "s \<le> Suc c" using up lo unfolding s_def by simp_all
  have "Suc c \<le> 53" using j(1) assms(3) by (metis Suc_leI le_less_trans power_less_imp_less_exp one_less_numeral_iff semiring_norm(76))
  then have "(2 :: nat) ^ s dvd 2 ^ 53" using s(2) by (intro le_imp_power_dvd) linarith
  then have "2 ^ s dvd ?y" by (rule dvd_mult)
  then obtain q where q: "?y = 2 ^ s * q" by blast
  have "2 ^ Suc c \<le> 2 * (2 :: nat) ^ s" using s by simp
  then have d: "2 * d < 2 ^ s" using assms(1,2) j(2) by linarith
  have "0 < q" using q assms(1,2) by (cases q) auto
  then obtain q' where q': "q = Suc q'" by (cases q) auto
  have e: "?y - d = 2 ^ s * q' + (2 ^ s - d)" using q q' d by simp
  have "2 ^ s - d < 2 ^ s" using d assms(1) by linarith
  then have "(?y - d) div 2 ^ s = q'" "(?y - d) mod 2 ^ s = 2 ^ s - d" unfolding e by (simp_all del: add_diff_assoc2 diff_add_assoc2 Nat.add_diff_assoc)
  then have "roundEven (?y - d) s = q" using d q' by (auto simp: roundEven_def Let_def)
  then show ?thesis using q unfolding round53_def s_def [symmetric] Let_def by (simp add: mult.commute)
qed

lemma roundEven_close: "2 * (roundEven n s * 2 ^ s) \<le> 2 * n + 2 ^ s"
proof -
  have "n = n div 2 ^ s * 2 ^ s + n mod 2 ^ s" by (rule div_mult_mod_eq [symmetric])
  moreover have "n mod 2 ^ s < 2 ^ s" by simp
  ultimately show ?thesis unfolding roundEven_def Let_def by (auto simp: distrib_right split: if_splits)
qed

lemma round53_below:
  assumes "x + d \<le> j * 2 ^ 53" and "0 < j" and "j < d"
  shows "round53 x < j * 2 ^ 53"
proof -
  let ?s = "bitLen x - 53"
  have "j < 2 ^ bitLen j" "2 ^ (bitLen j - 1) \<le> j" using assms(2) bitLen_bounds [of j] by auto
  have "x < 2 ^ (bitLen j + 53)" using assms(1,3) \<open>j < 2 ^ bitLen j\<close> mult_less_mono1 [of j "2 ^ bitLen j" "2 ^ 53 :: nat"]
    by (simp add: power_add)
  then have "?s \<le> bitLen j" using bitLen_le by fastforce
  have "0 < bitLen j" using assms(2) by (simp add: bitLen.simps [of j])
  then have "(2 :: nat) ^ bitLen j = 2 * 2 ^ (bitLen j - 1)" by (metis power_minus_mult mult.commute)
  then have "2 ^ ?s \<le> 2 * j" using \<open>2 ^ (bitLen j - 1) \<le> j\<close> power_increasing [OF \<open>?s \<le> bitLen j\<close>, of "2 :: nat"] by linarith
  then have "2 * round53 x \<le> 2 * x + 2 * j" using roundEven_close [of x ?s] unfolding round53_def Let_def by linarith
  then show ?thesis using assms by linarith
qed

section \<open>The index\<close>

lemma pctIndex_eq:
  assumes "scale p = 53" and "n \<le> 2 ^ 53"
  shows "pctIndex p n = round53 (sig p * (n - 1)) div 2 ^ 53"
  using assms round53_small [of "n - 1"] by (simp add: pctIndex_def intOfFlt_def fltMul_def fltOfInt_def)

text \<open>A literal that falls short of its decimal value by at most 8 parts in \<open>den * 2 ^ 53\<close>: the index computed in
  floating point is the exact quotient, rounded down.\<close>

lemma pctIndex_exact:
  assumes "scale p = 53" and lit: "den * sig p + e = num * 2 ^ 53" "e \<le> 8" and num: "32 \<le> num" "num < den"
    and "den * n \<le> 2 ^ 53"
  shows "pctIndex p n = num * (n - 1) div den"
proof (cases "n - 1 = 0")
  case True
  then show ?thesis by (simp add: pctIndex_def intOfFlt_def fltMul_def fltOfInt_def round53_small)
next
  case False
  define N k j where "N = (2 :: nat) ^ 53" and "k = n - 1" and "j = num * k div den"
  let ?x = "sig p * k"
  have k: "0 < k" "k < n" "k + 1 = n" using False by (simp_all add: k_def)
  have dn: "den * n \<le> N" using assms(6) by (simp add: N_def)
  have dk: "den * k < N" using dn k(2) num mult_less_mono2 [of k n den] by linarith
  have x: "den * ?x + e * k = num * k * N" using lit(1) by (metis N_def add_mult_distrib mult.assoc mult.commute)
  have j: "den * j \<le> num * k" "num * k < den * (j + 1)"
    using num dividend_less_times_div [of den "num * k"] by (simp_all add: j_def times_div_less_eq_dividend)
  have jk: "j < k" using j(1) num k(1) by (metis le_less_trans mult_less_mono1 mult_less_cancel1 not_le)
  have "1 * k \<le> den * k" "1 * n \<le> den * n" using num by (intro mult_le_mono1; simp)+
  then have "k < N" "n \<le> N" using dk dn by linarith+
  have "j * N \<le> round53 ?x"
  proof (cases "j * N \<le> ?x")
    case True
    have "round53 (j * N) = j * N" using jk \<open>k < N\<close> by (intro round53_exact [of _ j 53]) (simp_all add: N_def)
    then show ?thesis using round53_mono [OF True] by simp
  next
    case below: False
    define d where "d = j * N - ?x"
    have d: "0 < d" "?x = j * N - d" "?x + d = j * N" using below by (simp_all add: d_def)
    have "den * j = num * k"
    proof (rule ccontr)
      assume "den * j \<noteq> num * k"
      then have "den * j + 1 \<le> num * k" using j(1) by simp
      then have "den * j * N + N \<le> num * k * N" using mult_le_mono1 [of "den * j + 1" "num * k" N] by simp
      moreover have "e * k < N" using lit(2) num dk mult_le_mono1 [of e den k] by linarith
      ultimately have "den * (j * N) < den * ?x" using x mult.assoc [of den j N] by linarith
      then show False using below by simp
    qed
    then have "den * (?x + d) = num * k * N" unfolding d(3) by (simp flip: mult.assoc)
    then have "den * d = e * k" using x by (simp add: distrib_left)
    moreover have "4 * e * k \<le> num * k" using lit(2) num(1) by (intro mult_le_mono1) simp
    ultimately have "den * (4 * d) \<le> den * j" using \<open>den * j = num * k\<close> by linarith
    then have "4 * d \<le> j" using num by simp
    moreover have "j < N" using jk \<open>k < N\<close> by simp
    ultimately show ?thesis using round53_up [OF d(1)] unfolding d(2) N_def by simp
  qed
  moreover have "round53 ?x < (j + 1) * N"
  proof -
    have "num * k * N + N \<le> den * (j + 1) * N" using mult_le_mono1 [of "num * k + 1" "den * (j + 1)" N] j(2) by simp
    then have "den * ?x + N \<le> den * ((j + 1) * N)" using x unfolding mult.assoc by linarith
    moreover have "den * (N div den) \<le> N" by simp
    ultimately have "den * (?x + N div den) \<le> den * ((j + 1) * N)" unfolding distrib_left by linarith
    then have "?x + N div den \<le> (j + 1) * N" using num by simp
    moreover have "n \<le> N div den" using dn num by (simp add: less_eq_div_iff_mult_less_eq mult.commute)
    ultimately show ?thesis using jk k unfolding N_def by (intro round53_below [of _ "N div den"]) (simp_all add: N_def)
  qed
  ultimately have "round53 ?x div N = j"
    by (intro div_nat_eqI) (simp_all add: mult.commute)
  then show ?thesis using pctIndex_eq [OF assms(1)] \<open>n \<le> N\<close> unfolding N_def k_def j_def by simp
qed

lemma pctIndex_literals:
  assumes "1000 * n \<le> 2 ^ 53"
  shows "pctIndex (fltLit 50 100) n = 50 * (n - 1) div 100" "pctIndex (fltLit 99 100) n = 99 * (n - 1) div 100"
    "pctIndex (fltLit 999 1000) n = 999 * (n - 1) div 1000"
proof -
  show "pctIndex (fltLit 50 100) n = 50 * (n - 1) div 100"
    by (rule pctIndex_exact [of _ _ 0]) (use assms in \<open>simp_all add: fltLit_def\<close>)
  show "pctIndex (fltLit 99 100) n = 99 * (n - 1) div 100" "pctIndex (fltLit 999 1000) n = 999 * (n - 1) div 1000"
    by (rule pctIndex_exact [of _ _ 8]; use assms in \<open>simp add: fltLit_def\<close>)+
qed

section \<open>Ranks\<close>

lemma sorted_share:
  fixes xs :: "int list"
  assumes "sorted xs" and "i < length xs"
  shows "i + 1 \<le> length (filter (\<lambda>x. x \<le> xs ! i) xs)"
proof -
  have "\<forall>x \<in> set (take (i + 1) xs). x \<le> xs ! i"
    using assms by (auto simp: in_set_conv_nth less_Suc_eq_le sorted_iff_nth_mono)
  then have "filter (\<lambda>x. x \<le> xs ! i) (take (i + 1) xs) = take (i + 1) xs" by (rule filter_True)
  then have "length (take (i + 1) xs) \<le> length (filter (\<lambda>x. x \<le> xs ! i) xs)"
    by (metis append_take_drop_id filter_append le_add1 length_append)
  then show ?thesis using assms(2) by simp
qed

lemma sorted_below:
  fixes xs :: "int list"
  assumes "sorted xs" and "i < length xs"
  shows "length (filter (\<lambda>x. x < xs ! i) xs) \<le> i"
proof -
  have "\<forall>x \<in> set (drop i xs). xs ! i \<le> x"
    using assms by (auto simp: in_set_conv_nth sorted_iff_nth_mono)
  then have "filter (\<lambda>x. x < xs ! i) (drop i xs) = []" by (auto simp: filter_empty_conv)
  then have "filter (\<lambda>x. x < xs ! i) xs = filter (\<lambda>x. x < xs ! i) (take i xs)"
    by (metis append_Nil2 append_take_drop_id filter_append)
  then show ?thesis by (metis length_filter_le length_take min.bounded_iff)
qed

text \<open>What makes a value the percentile \<open>num / den\<close> of some samples: it is one of them, no more than that share
  of the others lies below it, and more than that share lies at or below it, itself counted.\<close>

definition quantile :: "nat \<Rightarrow> nat \<Rightarrow> int list \<Rightarrow> int \<Rightarrow> bool" where
  "quantile num den xs a \<longleftrightarrow> a \<in> set xs \<and> den * length (filter (\<lambda>x. x < a) xs) \<le> num * (length xs - 1)
     \<and> num * (length xs - 1) < den * length (filter (\<lambda>x. x \<le> a) xs)"

lemma pct_sorted:
  assumes "xs \<noteq> []" and "num < den" and i: "pctIndex p (length xs) = num * (length xs - 1) div den"
  shows "pct (sort xs) p = Some (sort xs ! (num * (length xs - 1) div den))"
    "num * (length xs - 1) div den < length xs" "quantile num den xs (sort xs ! (num * (length xs - 1) div den))"
proof -
  let ?n = "length xs" and ?i = "num * (length xs - 1) div den"
  have "num * (?n - 1) \<le> den * (?n - 1)" using assms(2) by (intro mult_le_mono1) simp
  then have "?i \<le> ?n - 1" using assms(2) by (metis div_le_mono gr_implies_not0 nonzero_mult_div_cancel_left)
  then show l: "?i < ?n" using assms(1) by (cases xs) auto
  then show "pct (sort xs) p = Some (sort xs ! ?i)" using assms(1) by (simp add: pct_def Let_def i)
  have f: "length (filter P (sort xs)) = length (filter P xs)" for P
    by (metis mset_filter mset_sort size_mset)
  have up: "?i + 1 \<le> length (filter (\<lambda>x. x \<le> sort xs ! ?i) xs)" and lo: "length (filter (\<lambda>x. x < sort xs ! ?i) xs) \<le> ?i"
    using sorted_share [of "sort xs" ?i] sorted_below [of "sort xs" ?i] l by (simp_all add: f)
  have "num * (?n - 1) < den * (?i + 1)" using assms(2) dividend_less_times_div [of den "num * (?n - 1)"] by simp
  also have "\<dots> \<le> den * length (filter (\<lambda>x. x \<le> sort xs ! ?i) xs)" using up by (rule mult_le_mono2)
  finally have "num * (?n - 1) < den * length (filter (\<lambda>x. x \<le> sort xs ! ?i) xs)" .
  moreover have "den * length (filter (\<lambda>x. x < sort xs ! ?i) xs) \<le> num * (?n - 1)"
    using mult_le_mono2 [OF lo, of den] times_div_less_eq_dividend [of den "num * (?n - 1)"] by linarith
  moreover have "sort xs ! ?i \<in> set xs" using l by (metis length_sort nth_mem set_sort)
  ultimately show "quantile num den xs (sort xs ! ?i)" by (simp add: quantile_def)
qed

lemma percentiles:
  assumes "xs \<noteq> []" and "1000 * length xs \<le> 2 ^ 53"
  shows "\<exists>a b c. pct (sort xs) (fltLit 50 100) = Some a \<and> pct (sort xs) (fltLit 99 100) = Some b
    \<and> pct (sort xs) (fltLit 999 1000) = Some c \<and> a = sort xs ! (50 * (length xs - 1) div 100)
    \<and> b = sort xs ! (99 * (length xs - 1) div 100) \<and> c = sort xs ! (999 * (length xs - 1) div 1000)
    \<and> quantile 50 100 xs a \<and> quantile 99 100 xs b \<and> quantile 999 1000 xs c \<and> a \<le> b \<and> b \<le> c"
proof -
  note i = pctIndex_literals [OF assms(2)]
  note a = pct_sorted [OF assms(1) _ i(1)] and b = pct_sorted [OF assms(1) _ i(2)] and c = pct_sorted [OF assms(1) _ i(3)]
  have "50 * (length xs - 1) div 100 \<le> 99 * (length xs - 1) div 100" by (intro div_le_mono) simp
  moreover have "990 * (length xs - 1) div 1000 \<le> 999 * (length xs - 1) div 1000" by (intro div_le_mono) simp
  then have "99 * (length xs - 1) div 100 \<le> 999 * (length xs - 1) div 1000"
    using div_mult_mult1 [of 10 "99 * (length xs - 1)" 100] by simp
  ultimately have "sort xs ! (50 * (length xs - 1) div 100) \<le> sort xs ! (99 * (length xs - 1) div 100)"
    "sort xs ! (99 * (length xs - 1) div 100) \<le> sort xs ! (999 * (length xs - 1) div 1000)"
    using b(2) c(2) by (intro sorted_nth_mono; simp)+
  then show ?thesis using a(1,3) b(1,3) c(1,3) by simp
qed

section \<open>Properties\<close>

text \<open>C36 (equivalence). The printed percentiles are what they say: with at least one sample, and no more than
  \<open>2 ^ 53 / 1000\<close>, the index computed in floating point is the exact rank \<open>p * (n - 1)\<close> rounded down, in spite
  of two roundings, so none is out of range; the value found there has at most the share \<open>p\<close> of the other
  \<open>n - 1\<close> samples below it, while the samples at or below it, itself counted, are more than \<open>p * (n - 1)\<close>; and
  p50, p99 and p99.9 are in this order.\<close>

theorem percentiles_correct:
  assumes "xs \<noteq> []" and "1000 * length xs \<le> 2 ^ 53"
  shows "\<exists>a b c. pct (sort xs) (fltLit 50 100) = Some a \<and> pct (sort xs) (fltLit 99 100) = Some b
    \<and> pct (sort xs) (fltLit 999 1000) = Some c \<and> a = sort xs ! (50 * (length xs - 1) div 100)
    \<and> b = sort xs ! (99 * (length xs - 1) div 100) \<and> c = sort xs ! (999 * (length xs - 1) div 1000)
    \<and> quantile 50 100 xs a \<and> quantile 99 100 xs b \<and> quantile 999 1000 xs c \<and> a \<le> b \<and> b \<le> c"
  using percentiles [OF assms] .

theorem percentiles_correct_witness:
  "pct (sort [30, 10, 20]) (fltLit 50 100) = Some 20 \<and> pct (sort [30, 10, 20]) (fltLit 99 100) = Some 20
    \<and> pct (sort [30, 10, 20]) (fltLit 999 1000) = Some 20 \<and> quantile 99 100 [30, 10, 20] 20"
proof -
  have "[30, 10, 20 :: int] \<noteq> [] \<and> 1000 * length [30, 10, 20 :: int] \<le> 2 ^ 53" by simp
  with percentiles_correct [of "[30, 10, 20]"] show ?thesis by auto
qed

end
