(* ===== verification/Loadgen.thy ===== *)
theory Loadgen
  imports Client Percentile
begin

text \<open>
  The load generator, \<open>src/go/cmd/loadgen/main.go\<close>: flags, the collector of acknowledgements that listens
  to the client, the orders it makes up, pacing, the submission loop, the final wait and the report. Random
  draws are a parameter. Every callback the client hears is run on the collector; the mutex is kept, and
  taking it twice is a hang (\<open>None\<close>). The printed rate of orders per second is left out.
\<close>

section \<open>The collector\<close>

record collector =
  mu :: bool
  submitted :: "i64 \<rightharpoonup> int"
  latencies :: "int list"
  acked :: nat

definition newCollector :: collector where
  "newCollector = \<lparr>mu = False, submitted = Map.empty, latencies = [], acked = 0\<rparr>"

definition Lock :: "collector \<Rightarrow> collector option" where
  "Lock c = (if mu c then None else Some (c\<lparr>mu := True\<rparr>))"

definition Unlock :: "collector \<Rightarrow> collector" where
  "Unlock c = c\<lparr>mu := False\<rparr>"

definition collector_OnExecutionReport :: "int \<Rightarrow> ExecReport \<Rightarrow> collector \<Rightarrow> collector option" where
  "collector_OnExecutionReport now e c = do {
     c \<leftarrow> Lock c;
     let c = (case submitted c (xr_ClientOrderId e) of
         None \<Rightarrow> c
       | Some t0 \<Rightarrow> c\<lparr>latencies := latencies c @ [now - t0], submitted := (submitted c)(xr_ClientOrderId e := None),
           acked := acked c + 1\<rparr>);
     Some (Unlock c)
   }"

definition collector_OnTrade :: "Trade \<Rightarrow> collector \<Rightarrow> collector" where
  "collector_OnTrade t c = c"

definition collector_OnBookUpdate :: "Book \<Rightarrow> collector \<Rightarrow> collector" where
  "collector_OnBookUpdate b c = c"

text \<open>The collector as the client's \<open>Listener\<close>, on the callbacks heard since an earlier state of the client.\<close>

fun collect :: "int \<times> callback \<Rightarrow> collector \<Rightarrow> collector option" where
  "collect (now, OnExecutionReport e) c = collector_OnExecutionReport now e c"
| "collect (now, OnTrade t) c = Some (collector_OnTrade t c)"
| "collect (now, OnBookUpdate b) c = Some (collector_OnBookUpdate b c)"

primrec collectAll :: "(int \<times> callback) list \<Rightarrow> collector \<Rightarrow> collector option" where
  "collectAll [] c = Some c"
| "collectAll (e # es) c = do { c \<leftarrow> collect e c; collectAll es c }"

definition listen :: "Client \<Rightarrow> Client \<Rightarrow> collector \<Rightarrow> collector option" where
  "listen c c' col = collectAll (drop (length (heard (cliAdapter c))) (heard (cliAdapter c'))) col"

section \<open>The orders\<close>

text \<open>\<open>rng.Intn(n)\<close>: the \<open>k\<close>th draw, below \<open>n\<close>.\<close>

definition Intn :: "(nat \<Rightarrow> nat) \<Rightarrow> nat \<Rightarrow> nat \<Rightarrow> nat" where
  "Intn draws k n = draws k mod n"

definition loadId :: "nat \<Rightarrow> i64" where
  "loadId i = word_of_nat (i + 1)"

definition loadSide :: "nat \<Rightarrow> SideEnum" where
  "loadSide i = (if i mod 2 = 1 then Side_SELL Side_values else Side_BUY Side_values)"

definition loadPrice :: "(nat \<Rightarrow> nat) \<Rightarrow> nat \<Rightarrow> i64" where
  "loadPrice draws i = word_of_int (100 + int (Intn draws (2 * i) 5) - 2)"

definition loadQty :: "(nat \<Rightarrow> nat) \<Rightarrow> nat \<Rightarrow> i64" where
  "loadQty draws i = word_of_nat (Intn draws (2 * i + 1) 10 + 1)"

section \<open>The run\<close>

text \<open>The flags with their defaults; \<open>user\<close> is the environment variable \<open>USER\<close>.\<close>

record loadFlags =
  flOrders :: int
  flRate :: int
  flAeronDir :: string
  flIngress :: string
  flEgress :: string

definition defaultFlags :: "string \<Rightarrow> loadFlags" where
  "defaultFlags user = \<lparr>flOrders = 100000, flRate = 0, flAeronDir = ''/dev/shm/aeron-'' @ user,
     flIngress = ''0=localhost:20000'', flEgress = ''localhost:0''\<rparr>"

text \<open>The time between two orders, an \<open>int64\<close> of nanoseconds, and the time order \<open>i\<close> is scheduled for.\<close>

definition loadInterval :: "loadFlags \<Rightarrow> i64" where
  "loadInterval fl = (if 0 < flRate fl then word_of_int (second div flRate fl) else 0)"

definition scheduled :: "int \<Rightarrow> i64 \<Rightarrow> nat \<Rightarrow> int" where
  "scheduled start interval i = start + sint (word_of_nat i * interval)"

text \<open>\<open>time.Now()\<close>.\<close>

definition now :: "'b clientEnv \<Rightarrow> Client \<Rightarrow> int \<times> Client" where
  "now env c = (clock env (cliReads c), c\<lparr>cliReads := cliReads c + 1\<rparr>)"

definition pollOnce :: "'b clientEnv \<Rightarrow> collector \<times> Client \<Rightarrow> (collector \<times> Client) option" where
  "pollOnce env st = (case st of (col, c) \<Rightarrow>
     (let c' = snd (Poll env c) in do { col \<leftarrow> listen c c' col; Some (col, c') }))"

partial_function (option) pace_loop :: "'b clientEnv \<Rightarrow> int \<Rightarrow> collector \<times> Client \<Rightarrow> (collector \<times> Client) option" where
  "pace_loop env sendTime st =
     (case now env (snd st) of (t, c) \<Rightarrow>
        if t < sendTime then do {
          st \<leftarrow> pollOnce env (fst st, c);
          pace_loop env sendTime st
        } else Some (fst st, c))"

text \<open>One iteration of the submission loop: the order is entered with the collector and submitted; a failed
  submission panics with its error.\<close>

definition loadSubmit :: "'b clientEnv \<Rightarrow> (nat \<Rightarrow> nat) \<Rightarrow> nat \<Rightarrow> int \<Rightarrow> collector \<times> Client \<Rightarrow>
    (clientError + collector \<times> Client) option" where
  "loadSubmit env draws i sendTime st = (case st of (col, c) \<Rightarrow> do {
     col \<leftarrow> Lock col;
     let col = Unlock (col\<lparr>submitted := (submitted col)(loadId i \<mapsto> sendTime)\<rparr>);
     (r, c') \<leftarrow> SubmitOrder env (loadId i) (loadSide i) (loadPrice draws i) (loadQty draws i) c;
     col \<leftarrow> listen c c' col;
     case r of Inl e \<Rightarrow> Some (Inl e)
     | Inr u \<Rightarrow> map_option Inr (pollOnce env (col, c'))
   })"

definition loadStep :: "'b clientEnv \<Rightarrow> (nat \<Rightarrow> nat) \<Rightarrow> i64 \<Rightarrow> int \<Rightarrow> nat \<Rightarrow> collector \<times> Client \<Rightarrow>
    (clientError + collector \<times> Client) option" where
  "loadStep env draws interval start i st =
     (case now env (snd st) of (sendTime, c) \<Rightarrow>
        if 0 <s interval then do {
          let sendTime = scheduled start interval i;
          st \<leftarrow> pace_loop env sendTime (fst st, c);
          loadSubmit env draws i sendTime st
        } else loadSubmit env draws i sendTime (fst st, c))"

fun loadLoop :: "'b clientEnv \<Rightarrow> (nat \<Rightarrow> nat) \<Rightarrow> i64 \<Rightarrow> int \<Rightarrow> nat \<Rightarrow> collector \<times> Client \<Rightarrow>
    (clientError + collector \<times> Client) option" where
  "loadLoop env draws interval start 0 st = Some (Inr st)"
| "loadLoop env draws interval start (Suc n) st = do {
     r \<leftarrow> loadLoop env draws interval start n st;
     case r of Inl e \<Rightarrow> Some (Inl e) | Inr st \<Rightarrow> loadStep env draws interval start n st
   }"

text \<open>The wait for outstanding acknowledgements. The clock is read only when some are missing.\<close>

partial_function (option) drain_loop :: "'b clientEnv \<Rightarrow> int \<Rightarrow> int \<Rightarrow> collector \<times> Client \<Rightarrow> (collector \<times> Client) option" where
  "drain_loop env deadline wanted st = do {
     col \<leftarrow> Lock (fst st);
     let finished = (wanted \<le> int (acked col));
     let col = Unlock col;
     if finished then Some (col, snd st)
     else (case now env (snd st) of (t, c) \<Rightarrow>
       if deadline < t then Some (col, c)
       else do {
         st \<leftarrow> pollOnce env (col, c);
         drain_loop env deadline wanted st
       })
   }"

text \<open>What is printed.\<close>

record report =
  rpOrders :: int
  rpAcked :: nat
  rpTarget :: "int option"
  rpElapsed :: int
  rpP50 :: int
  rpP99 :: int
  rpP999 :: int

definition loadReport :: "loadFlags \<Rightarrow> int \<Rightarrow> collector \<Rightarrow> (report \<times> collector) option" where
  "loadReport fl elapsed col = do {
     col \<leftarrow> Lock col;
     let col = col\<lparr>latencies := sort (latencies col)\<rparr>;
     p50 \<leftarrow> pct (latencies col) (fltLit 50 100);
     p99 \<leftarrow> pct (latencies col) (fltLit 99 100);
     p999 \<leftarrow> pct (latencies col) (fltLit 999 1000);
     Some (\<lparr>rpOrders = flOrders fl, rpAcked = acked col, rpTarget = (if 0 < flRate fl then Some (flRate fl) else None),
       rpElapsed = elapsed, rpP50 = p50, rpP99 = p99, rpP999 = p999\<rparr>, Unlock col)
   }"

text \<open>\<open>main\<close>: a panic with a client error, or the report with the closed client.\<close>

definition loadMain :: "'b clientEnv \<Rightarrow> (nat \<Rightarrow> nat) \<Rightarrow> loadFlags \<Rightarrow> (clientError + report \<times> collector \<times> Client) option" where
  "loadMain env draws fl = do {
     r \<leftarrow> ConnectWithEgress env (flAeronDir fl) (flIngress fl) (flEgress fl);
     case r of Inl e \<Rightarrow> Some (Inl e)
     | Inr c \<Rightarrow> do {
         col \<leftarrow> collectAll (heard (cliAdapter c)) newCollector;
         let (start, c) = now env c;
         r \<leftarrow> loadLoop env draws (loadInterval fl) start (nat (flOrders fl)) (col, c);
         case r of Inl e \<Rightarrow> Some (Inl e)
         | Inr (col, c) \<Rightarrow> do {
             let (t, c) = now env c;
             (col, c) \<leftarrow> drain_loop env (t + 30 * second) (flOrders fl) (col, c);
             let (t, c) = now env c;
             (rep, col) \<leftarrow> loadReport fl (t - start) col;
             Some (Inr (rep, col, Close c))
           }
       }
   }"

section \<open>Counting\<close>

text \<open>Every order submitted is either still outstanding or acknowledged, once; the mutex is free.\<close>

definition counted :: "nat \<Rightarrow> collector \<Rightarrow> bool" where
  "counted n c \<longleftrightarrow> \<not> mu c \<and> acked c = length (latencies c) \<and> finite (dom (submitted c))
     \<and> acked c + card (dom (submitted c)) = n \<and> dom (submitted c) \<subseteq> loadId ` {..<n}"

lemma counted_new: "counted 0 newCollector"
  by (simp add: counted_def newCollector_def)

lemma counted_report: "counted n c \<Longrightarrow> \<exists>c'. collector_OnExecutionReport t e c = Some c' \<and> counted n c'"
proof (cases "submitted c (xr_ClientOrderId e)")
  case (Some t0)
  assume c: "counted n c"
  have "xr_ClientOrderId e \<in> dom (submitted c)" using Some by auto
  then have "card (dom (submitted c)) = Suc (card (dom (submitted c) - {xr_ClientOrderId e}))"
    using c by (metis card.remove counted_def)
  then show ?thesis using c Some by (auto simp: counted_def collector_OnExecutionReport_def Lock_def Unlock_def)
qed (auto simp: collector_OnExecutionReport_def Lock_def Unlock_def counted_def)

lemma counted_collect: "counted n c \<Longrightarrow> \<exists>c'. collect e c = Some c' \<and> counted n c'"
  by (cases "(e, c)" rule: collect.cases) (auto simp: counted_report collector_OnTrade_def collector_OnBookUpdate_def)

lemma counted_collectAll: "counted n c \<Longrightarrow> \<exists>c'. collectAll es c = Some c' \<and> counted n c'"
proof (induction es arbitrary: c)
  case (Cons e es)
  then show ?case using counted_collect [OF Cons.prems, of e] by auto
qed simp

lemma counted_listen: "counted n col \<Longrightarrow> \<exists>col'. listen c c' col = Some col' \<and> counted n col'"
  by (simp add: listen_def counted_collectAll)

lemma sint_loadId: "int i < 2 ^ 63 - 1 \<Longrightarrow> sint (loadId i) = int i + 1"
  using sint_of_int64 [of "int i + 1"] by (simp add: loadId_def add.commute)

lemma loadId_fresh:
  assumes "int n < 2 ^ 63 - 1"
  shows "loadId n \<notin> loadId ` {..<n}"
proof
  assume "loadId n \<in> loadId ` {..<n}"
  then obtain i where i: "i < n" "loadId n = loadId i" by blast
  have "int n + 1 = int i + 1" using sint_loadId [OF assms] sint_loadId [of i] i assms by simp
  then show False using i(1) by simp
qed

lemma counted_submit:
  assumes "counted n c" and "int n < 2 ^ 63 - 1"
  shows "counted (Suc n) (c\<lparr>submitted := (submitted c)(loadId n \<mapsto> t), mu := False\<rparr>)"
proof -
  have "loadId n \<notin> dom (submitted c)" using loadId_fresh [OF assms(2)] assms(1) unfolding counted_def by blast
  then show ?thesis using assms(1) by (auto simp: counted_def lessThan_Suc)
qed

text \<open>What the generator submits.\<close>

lemma load_fields:
  "loadSide i = Buy \<or> loadSide i = Sell" "98 \<le> sint (loadPrice ds i)" "sint (loadPrice ds i) \<le> 102"
  "1 \<le> sint (loadQty ds i)" "sint (loadQty ds i) \<le> 10"
proof -
  show "loadSide i = Buy \<or> loadSide i = Sell" by (simp add: loadSide_def Side_values_def Buy_def Sell_def)
  have p: "Intn ds k 5 < 5" "Intn ds k 10 < 10" for k by (simp_all add: Intn_def)
  have s: "sint (word_of_int x :: i64) = x" if "0 \<le> x" "x < 200" for x
    using that by (simp add: sint_of_int64)
  have "sint (loadPrice ds i) = 100 + int (Intn ds (2 * i) 5) - 2"
    unfolding loadPrice_def using p(1) [of "2 * i"] by (intro s) linarith+
  then show "98 \<le> sint (loadPrice ds i)" "sint (loadPrice ds i) \<le> 102" using p(1) [of "2 * i"] by linarith+
  have "sint (loadQty ds i) = int (Intn ds (2 * i + 1) 10 + 1)"
    unfolding loadQty_def using p(2) [of "2 * i + 1"] s [of "int (Intn ds (2 * i + 1) 10 + 1)"] by simp
  then show "1 \<le> sint (loadQty ds i)" "sint (loadQty ds i) \<le> 10" using p(2) [of "2 * i + 1"] by linarith+
qed

text \<open>A cluster that accepts every offer at once.\<close>

lemma SubmitOrder_accepted:
  assumes "\<forall>k. 0 \<le>s acOffer env k" and "cid \<noteq> minInt64" "sideKnown sd" "p \<noteq> minInt64" "q \<noteq> minInt64"
  shows "SubmitOrder env cid sd p q c = Some (Inr (), c\<lparr>cliOffers := cliOffers c + 1, cliReads := cliReads c + 1,
    cliSent := cliSent c @ [orderFrame cid sd p q]\<rparr>)"
  unfolding SubmitOrder_def by (rule clientOffer_accepted [OF assms(1) orderFrame_ok [OF assms(2-5)]])

lemma load_encodable:
  assumes "int i < 2 ^ 63 - 1"
  shows "loadId i \<noteq> minInt64" "sideKnown (loadSide i)" "loadPrice ds i \<noteq> minInt64" "loadQty ds i \<noteq> minInt64"
proof -
  show "loadId i \<noteq> minInt64" using sint_loadId [OF assms] by (intro nonneg_not_min) (simp add: signed_ord)
  show "sideKnown (loadSide i)" using load_fields(1) [of i] by auto
  show "loadPrice ds i \<noteq> minInt64" "loadQty ds i \<noteq> minInt64"
    using load_fields(2,4) [of ds i] by (auto intro!: nonneg_not_min simp: signed_ord)
qed

section \<open>The loops end\<close>

lemma pollOnce_returns:
  assumes "counted n col"
  shows "\<exists>col'. pollOnce env (col, c) = Some (col', snd (Poll env c)) \<and> counted n col'"
  using counted_listen [OF assms, of c "snd (Poll env c)"] by (auto simp: pollOnce_def Let_def)

text \<open>Pacing reads the clock until the scheduled time has come.\<close>

lemma pace_loop_returns:
  assumes "counted n col" and "cliReads c \<le> k" and "t \<le> clock env k"
  shows "\<exists>col' c'. pace_loop env t (col, c) = Some (col', c') \<and> counted n col' \<and> cliSent c' = cliSent c
    \<and> cliReads c < cliReads c' \<and> t \<le> clock env (cliReads c' - 1) \<and> (\<forall>j. cliReads c \<le> j \<and> j + 1 < cliReads c' \<longrightarrow> clock env j < t)"
  using assms
proof (induction "k - cliReads c" arbitrary: col c rule: less_induct)
  case less
  show ?case
  proof (cases "clock env (cliReads c) < t")
    case True
    let ?c = "snd (Poll env (c\<lparr>cliReads := cliReads c + 1\<rparr>))"
    obtain col1 where col1: "pollOnce env (col, c\<lparr>cliReads := cliReads c + 1\<rparr>) = Some (col1, ?c)" "counted n col1"
      using pollOnce_returns [OF less.prems(1)] by blast
    have "cliReads c \<noteq> k" using True less.prems(3) by auto
    with less.prems(2) have k: "k - cliReads ?c < k - cliReads c" "cliReads ?c \<le> k" by simp_all
    obtain col' c' where ih: "pace_loop env t (col1, ?c) = Some (col', c')" "counted n col'" "cliSent c' = cliSent c"
      "cliReads c + 1 < cliReads c'" "t \<le> clock env (cliReads c' - 1)"
      "\<forall>j. cliReads c + 1 \<le> j \<and> j + 1 < cliReads c' \<longrightarrow> clock env j < t"
      using less.hyps [OF k(1) col1(2) k(2) less.prems(3)] by auto
    have "pace_loop env t (col, c) = Some (col', c')"
      using True col1(1) ih(1) by (subst pace_loop.simps) (simp add: now_def)
    moreover have "\<forall>j. cliReads c \<le> j \<and> j + 1 < cliReads c' \<longrightarrow> clock env j < t"
      using ih(6) True by (metis Suc_eq_plus1 Suc_leI le_neq_implies_less)
    ultimately show ?thesis using ih(2-5) by auto
  next
    case False
    then have "pace_loop env t (col, c) = Some (col, c\<lparr>cliReads := cliReads c + 1\<rparr>)"
      by (subst pace_loop.simps) (simp add: now_def)
    then show ?thesis using False less.prems(1) by auto
  qed
qed

text \<open>The final wait polls until everything is acknowledged or the deadline has passed.\<close>

lemma drain_loop_returns:
  assumes "counted n col" and "cliReads c \<le> k" and "deadline < clock env k"
  shows "\<exists>col' c'. drain_loop env deadline m (col, c) = Some (col', c') \<and> counted n col' \<and> cliSent c' = cliSent c
    \<and> (m \<le> int (acked col') \<or> (\<exists>j. deadline < clock env j))"
  using assms
proof (induction "k - cliReads c" arbitrary: col c rule: less_induct)
  case less
  have l: "Lock col = Some (col\<lparr>mu := True\<rparr>)" "Unlock (col\<lparr>mu := True\<rparr>) = col"
    using less.prems(1) by (simp_all add: Lock_def Unlock_def counted_def)
  show ?case
  proof (cases "m \<le> int (acked col) \<or> deadline < clock env (cliReads c)")
    case True
    then show ?thesis using less.prems(1) l by (subst drain_loop.simps) (auto simp: now_def)
  next
    case False
    let ?c = "snd (Poll env (c\<lparr>cliReads := cliReads c + 1\<rparr>))"
    obtain col1 where col1: "pollOnce env (col, c\<lparr>cliReads := cliReads c + 1\<rparr>) = Some (col1, ?c)" "counted n col1"
      using pollOnce_returns [OF less.prems(1)] by blast
    have "cliReads c \<noteq> k" using False less.prems(3) by auto
    with less.prems(2) have k: "k - cliReads ?c < k - cliReads c" "cliReads ?c \<le> k" by simp_all
    have "drain_loop env deadline m (col, c) = drain_loop env deadline m (col1, ?c)"
      using False l col1(1) by (subst drain_loop.simps) (simp add: now_def)
    then show ?thesis using less.hyps [OF k(1) col1(2) k(2) less.prems(3)] by simp
  qed
qed

text \<open>When a list of callbacks first acknowledges an order, and what the collector has then made of the start
  time it was given: no latency yet and the start time still on record, or the difference measured and
  the order off the record.\<close>

fun ackTime :: "i64 \<Rightarrow> (int \<times> callback) list \<Rightarrow> int option" where
  "ackTime k [] = None"
| "ackTime k ((t, OnExecutionReport e) # es) = (if xr_ClientOrderId e = k then Some t else ackTime k es)"
| "ackTime k ((t, OnTrade x) # es) = ackTime k es"
| "ackTime k ((t, OnBookUpdate x) # es) = ackTime k es"

definition timedFrom :: "i64 \<Rightarrow> int \<Rightarrow> (int \<times> callback) list \<Rightarrow> collector \<Rightarrow> bool" where
  "timedFrom k t0 es col \<longleftrightarrow> (case ackTime k es of None \<Rightarrow> submitted col k = Some t0
     | Some t \<Rightarrow> submitted col k = None \<and> t - t0 \<in> set (latencies col))"

lemma collect_measured:
  "collectAll es col = Some col' \<Longrightarrow> submitted col k = None \<and> x \<in> set (latencies col) \<Longrightarrow>
    submitted col' k = None \<and> x \<in> set (latencies col')"
proof (induction es arbitrary: col)
  case (Cons e es)
  then obtain c1 where c1: "collect e col = Some c1" "collectAll es c1 = Some col'" by (auto split: bind_splits)
  then have "submitted c1 k = None \<and> x \<in> set (latencies c1)" using Cons.prems(2)
    by (cases "(e, col)" rule: collect.cases)
      (auto simp: collector_OnExecutionReport_def collector_OnTrade_def collector_OnBookUpdate_def Lock_def Unlock_def
        split: if_splits option.splits)
  with Cons.IH [OF c1(2)] show ?case .
qed simp

lemma collect_timed: "collectAll es col = Some col' \<Longrightarrow> submitted col k = Some t0 \<Longrightarrow> timedFrom k t0 es col'"
proof (induction k es arbitrary: col rule: ackTime.induct)
  case (2 k t e es)
  then obtain c1 where c1: "collector_OnExecutionReport t e col = Some c1" "collectAll es c1 = Some col'"
    by (auto split: bind_splits)
  show ?case
  proof (cases "xr_ClientOrderId e = k")
    case True
    then have "submitted c1 k = None \<and> t - t0 \<in> set (latencies c1)" using c1(1) "2.prems"(2)
      by (auto simp: collector_OnExecutionReport_def Lock_def Unlock_def split: if_splits)
    from collect_measured [OF c1(2) this] show ?thesis using True by (simp add: timedFrom_def)
  next
    case False
    then have "submitted c1 k = Some t0" using c1(1) "2.prems"(2)
      by (auto simp: collector_OnExecutionReport_def Lock_def Unlock_def split: if_splits option.splits)
    from "2.IH" [OF False c1(2) this] show ?thesis using False by (simp add: timedFrom_def)
  qed
qed (auto simp: timedFrom_def collector_OnTrade_def collector_OnBookUpdate_def split: bind_splits)

lemma collectAll_append: "collectAll (es @ fs) col = Option.bind (collectAll es col) (collectAll fs)"
  by (induction es arbitrary: col) (auto split: bind_splits)

text \<open>What has been offered after \<open>n\<close> orders.\<close>

definition loadFrames :: "(nat \<Rightarrow> nat) \<Rightarrow> nat \<Rightarrow> bytes list" where
  "loadFrames ds n = map (\<lambda>i. orderFrame (loadId i) (loadSide i) (loadPrice ds i) (loadQty ds i)) [0..<n]"

text \<open>How the submission of one order can end.\<close>

definition submitEnds :: "(nat \<Rightarrow> nat) \<Rightarrow> nat \<Rightarrow> bytes list \<Rightarrow> clientError + collector \<times> Client \<Rightarrow> bool" where
  "submitEnds ds i sent0 r \<longleftrightarrow> (case r of Inl e \<Rightarrow> e = TimedOutOffering
    | Inr (col', c') \<Rightarrow> counted (Suc i) col'
        \<and> cliSent c' = sent0 @ [orderFrame (loadId i) (loadSide i) (loadPrice ds i) (loadQty ds i)])"

lemma loadSubmit_returns:
  assumes tick: "ticking env" and col: "counted i col" and i: "int i < 2 ^ 63 - 1"
  shows "\<exists>r. loadSubmit env ds i t (col, c) = Some r \<and> submitEnds ds i (cliSent c) r"
proof -
  let ?f = "orderFrame (loadId i) (loadSide i) (loadPrice ds i) (loadQty ds i)"
  let ?col = "col\<lparr>submitted := (submitted col)(loadId i \<mapsto> t), mu := False\<rparr>"
  have ok: "encodeFrame (NewOrder_msg \<lparr>no_ClientOrderId = loadId i, no_Side = loadSide i, no_Price = loadPrice ds i,
      no_Qty = loadQty ds i\<rparr>) = Inr ?f"
    by (rule orderFrame_ok [OF load_encodable [OF i]])
  obtain r c' where r: "SubmitOrder env (loadId i) (loadSide i) (loadPrice ds i) (loadQty ds i) c = Some (r, c')"
    "case r of Inl e \<Rightarrow> e = TimedOutOffering | Inr u \<Rightarrow> cliSent c' = cliSent c @ [?f]"
    using clientOffer_returns [OF tick, of "NewOrder_msg \<lparr>no_ClientOrderId = loadId i, no_Side = loadSide i,
      no_Price = loadPrice ds i, no_Qty = loadQty ds i\<rparr>" c] ok
    unfolding SubmitOrder_def by (fastforce split: sum.splits clientError.splits)
  obtain col1 where col1: "listen c c' ?col = Some col1" "counted (Suc i) col1"
    using counted_listen [OF counted_submit [OF col i]] by blast
  obtain col2 where col2: "pollOnce env (col1, c') = Some (col2, snd (Poll env c'))" "counted (Suc i) col2"
    using pollOnce_returns [OF col1(2)] by blast
  have m: "Lock col = Some (col\<lparr>mu := True\<rparr>)" using col by (simp add: Lock_def counted_def)
  show ?thesis
    using r col1(1) col2 m by (cases r) (simp_all add: loadSubmit_def Unlock_def submitEnds_def)
qed

text \<open>The latency of the order submitted starts at the time handed to the submission.\<close>

lemma loadSubmit_timed:
  assumes "ticking env" and "loadSubmit env ds i t (col, c) = Some (Inr (col', c'))"
  shows "\<exists>es. heard (cliAdapter c') = heard (cliAdapter c) @ es \<and> timedFrom (loadId i) t es col'"
proof -
  obtain c2 where c2: "SubmitOrder env (loadId i) (loadSide i) (loadPrice ds i) (loadQty ds i) c = Some (Inr (), c2)"
      and "c' = snd (Poll env c2)"
    and l: "do { col2 \<leftarrow> listen c c2 (col\<lparr>submitted := (submitted col)(loadId i \<mapsto> t), mu := False\<rparr>); listen c2 c' col2 } = Some col'"
    using assms(2) by (auto simp: loadSubmit_def pollOnce_def Lock_def Unlock_def Let_def split: bind_splits sum.splits if_splits)
  have "hears env c c2"
    using c2 clientOffer_returns [OF assms(1), of "NewOrder_msg \<lparr>no_ClientOrderId = loadId i, no_Side = loadSide i,
      no_Price = loadPrice ds i, no_Qty = loadQty ds i\<rparr>" c] unfolding SubmitOrder_def by (elim exE conjE) simp
  then obtain es where es: "heard (cliAdapter c2) = heard (cliAdapter c) @ es" unfolding hears_def by blast
  obtain fs where fs: "heard (cliAdapter c') = heard (cliAdapter c2) @ fs"
    using hears_Poll [of env c2] unfolding \<open>c' = _\<close> hears_def by blast
  have "collectAll (es @ fs) (col\<lparr>submitted := (submitted col)(loadId i \<mapsto> t), mu := False\<rparr>) = Some col'"
    using l es fs by (simp add: collectAll_append listen_def)
  then have "timedFrom (loadId i) t (es @ fs) col'" by (rule collect_timed) simp
  then show ?thesis using es fs by auto
qed

lemma loadStep_returns:
  assumes "ticking env" and "counted i col" and "int i < 2 ^ 63 - 1"
  shows "\<exists>r. loadStep env ds iv start i (col, c) = Some r \<and> submitEnds ds i (cliSent c) r"
proof (cases "0 <s iv")
  case True
  obtain k where "cliReads c + 1 \<le> k" "scheduled start iv i < clock env k" using assms(1) unfolding ticking_def by blast
  then obtain col1 c1 where p: "pace_loop env (scheduled start iv i) (col, c\<lparr>cliReads := cliReads c + 1\<rparr>) = Some (col1, c1)"
    "counted i col1" "cliSent c1 = cliSent c"
    using pace_loop_returns [OF assms(2), of "c\<lparr>cliReads := cliReads c + 1\<rparr>" k "scheduled start iv i" env] by auto
  show ?thesis
    using True loadSubmit_returns [OF assms(1) p(2) assms(3), of ds "scheduled start iv i" c1] p(1,3)
    by (simp add: loadStep_def now_def)
next
  case False
  then show ?thesis
    using loadSubmit_returns [OF assms, of ds "clock env (cliReads c)" "c\<lparr>cliReads := cliReads c + 1\<rparr>"]
    by (simp add: loadStep_def now_def del: not_sless)
qed

lemma loadLoop_returns:
  assumes "ticking env" and "counted 0 col" and "int n < 2 ^ 63"
  shows "\<exists>r. loadLoop env ds iv start n (col, c) = Some r \<and> (case r of Inl e \<Rightarrow> e = TimedOutOffering
    | Inr (col', c') \<Rightarrow> counted n col' \<and> cliSent c' = cliSent c @ loadFrames ds n)"
  using assms(3)
proof (induction n)
  case 0
  show ?case using assms(2) by (simp add: loadFrames_def)
next
  case (Suc n)
  then obtain r where r: "loadLoop env ds iv start n (col, c) = Some r" "case r of Inl e \<Rightarrow> e = TimedOutOffering
    | Inr (col', c') \<Rightarrow> counted n col' \<and> cliSent c' = cliSent c @ loadFrames ds n" by auto
  show ?case
  proof (cases r)
    case (Inl e)
    then show ?thesis using r by simp
  next
    case (Inr st)
    obtain col' c' where st: "st = (col', c')" by force
    have i: "int n < 2 ^ 63 - 1" using Suc.prems by simp
    have c: "counted n col'" "cliSent c' = cliSent c @ loadFrames ds n" using r(2) Inr st by simp_all
    obtain r' where "loadStep env ds iv start n (col', c') = Some r'" "submitEnds ds n (cliSent c') r'"
      using loadStep_returns [OF assms(1) c(1) i] by blast
    then show ?thesis using r(1) Inr st c(2) by (simp add: submitEnds_def loadFrames_def split: sum.splits prod.splits)
  qed
qed

lemma loadReport_returns:
  assumes "counted n col" and "1000 * n \<le> 2 ^ 53"
  shows "\<exists>rep. loadReport fl el col = Some (rep, col\<lparr>latencies := sort (latencies col)\<rparr>) \<and> rpOrders rep = flOrders fl
    \<and> rpAcked rep = acked col \<and> rpElapsed rep = el \<and> rpP50 rep \<le> rpP99 rep \<and> rpP99 rep \<le> rpP999 rep"
proof -
  let ?p = "\<lambda>num den. pct (sort (latencies col)) (fltLit num den)"
  have len: "1000 * length (latencies col) \<le> 2 ^ 53" using assms by (simp add: counted_def)
  obtain a b c where "?p 50 100 = Some a" "?p 99 100 = Some b" "?p 999 1000 = Some c" "a \<le> b" "b \<le> c"
  proof (cases "latencies col = []")
    case True
    then have "?p num den = Some 0" for num den by (simp add: pct_def)
    then show thesis by (intro that [of 0 0 0]) simp_all
  next
    case False
    from percentiles [OF this len] that show thesis by blast
  qed
  then show ?thesis using assms(1) by (simp add: loadReport_def Lock_def Unlock_def counted_def)
qed

text \<open>A connected client and a cluster for the examples.\<close>

definition demo_client :: Client where
  "demo_client = \<lparr>cliOpts = connectOptions ''0=localhost:20000'' ''localhost:0'', cliAdapter = newEgressAdapter,
     cliPolls = 0, cliOffers = 0, cliReads = 0, cliSent = [], cliClosed = False\<rparr>"

definition demo_clientEnv :: "bytes clientEnv" where
  "demo_clientEnv = \<lparr>newAeronCluster = (\<lambda>d opts. Inr ()), isConnected = (\<lambda>n. True), acOffer = (\<lambda>n. 1),
     acPoll = (\<lambda>n. (0, [])), acApi = listApi, clock = int\<rparr>"

lemma demo_clientEnv_ticking: "ticking demo_clientEnv"
proof -
  have "\<exists>k \<ge> n. t < int k" for t n by (rule exI [of _ "n + nat t + 1"]) auto
  then show ?thesis by (simp add: ticking_def demo_clientEnv_def)
qed

section \<open>Properties\<close>

text \<open>C33 (functional). The generator's orders are all accepted: each names a side, has a price from 98 to 102
  and a quantity from 1 to 10, its frame carries it to the engine, and the engine answers with an
  acceptance, never with a rejection.\<close>

theorem load_orders_accepted:
  assumes "int i < 2 ^ 63 - 1" and "reach P b" and "sint (nextOrderId b) < 2 ^ 63 - 1"
  shows "\<exists>cmd es b'. commandOf session (orderFrame (loadId i) (loadSide i) (loadPrice ds i) (loadQty ds i)) = Some (SubmitCmd cmd)
    \<and> valid_side (SubmitCmd cmd) \<and> 98 \<le> sint (cmdPrice cmd) \<and> sint (cmdPrice cmd) \<le> 102
    \<and> 1 \<le> sint (cmdQty cmd) \<and> sint (cmdQty cmd) \<le> 10
    \<and> NewLimitOrder cmd b = Some (acceptedEvent (new_order cmd (nextOrderId b)) # es, b')"
proof -
  let ?cmd = "\<lparr>cmdClientOrderId = loadId i, cmdOwner = session, cmdSide = loadSide i, cmdPrice = loadPrice ds i, cmdQty = loadQty ds i\<rparr>"
  obtain a where a: "represents b a" "book_inv a" using reach_wf [OF assms(2)] by blast
  obtain es b' a' where e: "NewLimitOrder ?cmd b = Some (es, b')" "spec_new ?cmd a = (es, a')"
    using exec_spec [OF a assms(3), of "SubmitCmd ?cmd", unfolded exec.simps spec_exec.simps] by blast
  have pos: "0 <s cmdQty ?cmd" "0 <s cmdPrice ?cmd" using load_fields(2,4) [of ds i] by (simp_all add: signed_ord)
  obtain ev ta ms ps where sm: "spec_match (new_order ?cmd (anext a)) (side_of a (cmdSide ?cmd = Sell)) = (ev, ta, ms, ps)"
    by (metis prod_cases4)
  have "\<exists>es'. es = acceptedEvent (new_order ?cmd (anext a)) # es'"
    using spec_new_unfold [OF pos sm] e(2) by (auto simp: Let_def split: if_splits)
  then show ?thesis
    using e(1) orderFrame_command [OF load_encodable [OF assms(1)], of session ds ds] load_fields(1) [of i] load_fields(2-) [of ds i] wf_next [OF a(1)]
    by (intro exI [of _ ?cmd]) auto
qed

theorem load_orders_accepted_witness:
  "\<exists>cmd es b'. commandOf 7 (orderFrame (loadId 3) (loadSide 3) (loadPrice id 3) (loadQty id 3)) = Some (SubmitCmd cmd)
    \<and> valid_side (SubmitCmd cmd) \<and> 98 \<le> sint (cmdPrice cmd) \<and> sint (cmdPrice cmd) \<le> 102
    \<and> 1 \<le> sint (cmdQty cmd) \<and> sint (cmdQty cmd) \<le> 10
    \<and> NewLimitOrder cmd demo_book = Some (acceptedEvent (new_order cmd (nextOrderId demo_book)) # es, b')"
  by (rule load_orders_accepted [OF _ demo_facts(1)]) (simp_all add: demo_facts(3))

text \<open>C34 (liveness). The load generator's run ends: with a clock that moves on, \<open>main\<close> returns, whatever the
  cluster answers. It panics with a client error, or it has submitted every order exactly once and in
  order, closed the client and printed a report in which each order is either acknowledged once or still
  outstanding, however often reports were repeated; the collector's mutex is never taken twice and no
  percentile is out of range.\<close>

theorem load_run_returns:
  assumes "ticking env" and "0 \<le> flOrders fl" and "1000 * flOrders fl \<le> 2 ^ 53"
  shows "\<exists>r. loadMain env ds fl = Some r \<and> (case r of
      Inl (EncodeError e) \<Rightarrow> False
    | Inl e \<Rightarrow> True
    | Inr (rep, col, c) \<Rightarrow> cliSent c = loadFrames ds (nat (flOrders fl)) \<and> cliClosed c \<and> \<not> mu col
        \<and> rpAcked rep = length (latencies col) \<and> int (rpAcked rep + card (dom (submitted col))) = flOrders fl
        \<and> sorted (latencies col) \<and> rpP50 rep \<le> rpP99 rep \<and> rpP99 rep \<le> rpP999 rep)"
proof -
  let ?n = "nat (flOrders fl)"
  have n: "int ?n < 2 ^ 63" "1000 * ?n \<le> 2 ^ 53" using assms(2,3) by simp_all
  obtain r where r: "ConnectWithEgress env (flAeronDir fl) (flIngress fl) (flEgress fl) = Some r"
    "case r of Inl (EncodeError e) \<Rightarrow> False | Inl e \<Rightarrow> True | Inr c \<Rightarrow> cliSent c = []"
    using ConnectWithEgress_returns [OF assms(1), of "flAeronDir fl" "flIngress fl" "flEgress fl"]
    by (fastforce split: sum.splits clientError.splits)
  show ?thesis
  proof (cases r)
    case (Inl e)
    then show ?thesis using r by (auto simp: loadMain_def split: clientError.splits)
  next
    case (Inr c)
    obtain col where col: "collectAll (heard (cliAdapter c)) newCollector = Some col" "counted 0 col"
      using counted_collectAll [OF counted_new] by blast
    let ?c = "c\<lparr>cliReads := cliReads c + 1\<rparr>" and ?start = "clock env (cliReads c)"
    obtain r1 where r1: "loadLoop env ds (loadInterval fl) ?start ?n (col, ?c) = Some r1" "case r1 of Inl e \<Rightarrow> e = TimedOutOffering
      | Inr (col', c') \<Rightarrow> counted ?n col' \<and> cliSent c' = cliSent ?c @ loadFrames ds ?n"
      using loadLoop_returns [OF assms(1) col(2) n(1)] by blast
    show ?thesis
    proof (cases r1)
      case Inl1: (Inl e)
      then show ?thesis using r(1) r1 Inr col(1) by (simp add: loadMain_def now_def)
    next
      case Inr1: (Inr st)
      obtain col1 c1 where st: "st = (col1, c1)" by force
      have c1: "counted ?n col1" "cliSent c1 = loadFrames ds ?n" using r1(2) Inr1 st r(2) Inr by simp_all
      let ?c1 = "c1\<lparr>cliReads := cliReads c1 + 1\<rparr>" and ?dl = "clock env (cliReads c1) + 30 * second"
      obtain k where "cliReads ?c1 \<le> k" "?dl < clock env k" using assms(1) unfolding ticking_def by blast
      from drain_loop_returns [OF c1(1) this, of "flOrders fl"] obtain col2 c2 where
        d: "drain_loop env ?dl (flOrders fl) (col1, ?c1) = Some (col2, c2)" "counted ?n col2" "cliSent c2 = loadFrames ds ?n"
        using c1(2) by auto
      obtain rep where rep: "loadReport fl (clock env (cliReads c2) - ?start) col2 = Some (rep, col2\<lparr>latencies := sort (latencies col2)\<rparr>)"
        "rpAcked rep = acked col2" "rpP50 rep \<le> rpP99 rep" "rpP99 rep \<le> rpP999 rep"
        using loadReport_returns [OF d(2) n(2)] by blast
      have "loadMain env ds fl = Some (Inr (rep, col2\<lparr>latencies := sort (latencies col2)\<rparr>, Close (c2\<lparr>cliReads := cliReads c2 + 1\<rparr>)))"
        using r(1) r1(1) Inr Inr1 st col(1) d(1) rep(1) by (simp add: loadMain_def now_def)
      then show ?thesis using rep(2-4) d(2,3) assms(2) by (auto simp: counted_def Close_def)
    qed
  qed
qed

theorem load_run_returns_witness:
  "\<exists>r. loadMain demo_clientEnv id \<lparr>flOrders = 3, flRate = 0, flAeronDir = ''/dev/shm/aeron'', flIngress = ''0=localhost:20000'', flEgress = ''localhost:0''\<rparr> = Some r
    \<and> (case r of Inl (EncodeError e) \<Rightarrow> False | Inl e \<Rightarrow> True
       | Inr (rep, col, c) \<Rightarrow> cliSent c = loadFrames id 3 \<and> int (rpAcked rep + card (dom (submitted col))) = 3)"
  using load_run_returns [OF demo_clientEnv_ticking, of "\<lparr>flOrders = 3, flRate = 0, flAeronDir = ''/dev/shm/aeron'',
      flIngress = ''0=localhost:20000'', flEgress = ''localhost:0''\<rparr>" id]
  by (fastforce split: sum.splits clientError.splits)

text \<open>C35 (functional). Pacing without coordinated omission: when a rate is set, an iteration reads the clock
  until the order's scheduled time has come and no longer, and only then submits. It ends with a timeout,
  or with the order sent once and its latency counted from the scheduled time, not from the time of
  sending: if a report for the order was heard since, the measured latency is the time of the first such
  report less the scheduled time, and if none was, the scheduled time is on record for it.\<close>

theorem paced_submission:
  assumes "ticking env" and "0 <s iv" and "counted i col" and "sint iv * int i < 2 ^ 63" and "int i < 2 ^ 63 - 1"
  shows "\<exists>col1 c1 r. loadStep env ds iv start i (col, c) = loadSubmit env ds i (start + sint iv * int i) (col1, c1)
    \<and> cliSent c1 = cliSent c \<and> start + sint iv * int i \<le> clock env (cliReads c1 - 1)
    \<and> (\<forall>j. cliReads c < j \<and> j + 1 < cliReads c1 \<longrightarrow> clock env j < start + sint iv * int i)
    \<and> loadStep env ds iv start i (col, c) = Some r
    \<and> (case r of Inl e \<Rightarrow> e = TimedOutOffering
       | Inr (col', c') \<Rightarrow> cliSent c' = cliSent c @ [orderFrame (loadId i) (loadSide i) (loadPrice ds i) (loadQty ds i)]
           \<and> (\<exists>es. heard (cliAdapter c') = heard (cliAdapter c1) @ es \<and> timedFrom (loadId i) (start + sint iv * int i) es col'))"
proof -
  have "0 < sint iv" using assms(2) by (simp add: signed_ord)
  then have "0 \<le> sint iv * int i" by simp
  then have "sint (word_of_nat i * iv) = sint iv * int i"
    using sint_of_int64 [of "sint iv * int i"] assms(4) by (simp add: mult.commute)
  then have s: "scheduled start iv i = start + sint iv * int i" by (simp add: scheduled_def)
  obtain k where "cliReads c + 1 \<le> k" "scheduled start iv i < clock env k" using assms(1) unfolding ticking_def by blast
  then obtain col1 c1 where p: "pace_loop env (scheduled start iv i) (col, c\<lparr>cliReads := cliReads c + 1\<rparr>) = Some (col1, c1)"
    "counted i col1" "cliSent c1 = cliSent c" "scheduled start iv i \<le> clock env (cliReads c1 - 1)"
    "\<forall>j. cliReads c + 1 \<le> j \<and> j + 1 < cliReads c1 \<longrightarrow> clock env j < scheduled start iv i"
    using pace_loop_returns [OF assms(3), of "c\<lparr>cliReads := cliReads c + 1\<rparr>" k "scheduled start iv i" env] by auto
  have e: "loadStep env ds iv start i (col, c) = loadSubmit env ds i (start + sint iv * int i) (col1, c1)"
    using assms(2) p(1) by (simp add: loadStep_def now_def s)
  obtain r where r: "loadSubmit env ds i (start + sint iv * int i) (col1, c1) = Some r" "submitEnds ds i (cliSent c1) r"
    using loadSubmit_returns [OF assms(1) p(2) assms(5)] by blast
  have "case r of Inl e \<Rightarrow> e = TimedOutOffering
       | Inr (col', c') \<Rightarrow> cliSent c' = cliSent c @ [orderFrame (loadId i) (loadSide i) (loadPrice ds i) (loadQty ds i)]
           \<and> (\<exists>es. heard (cliAdapter c') = heard (cliAdapter c1) @ es \<and> timedFrom (loadId i) (start + sint iv * int i) es col')"
    using r(2) p(3) loadSubmit_timed [OF assms(1), of ds i "start + sint iv * int i" col1 c1] r(1)
    unfolding submitEnds_def by (auto split: sum.splits)
  then show ?thesis using e r(1) p(3-5) unfolding s by (intro exI [of _ col1] exI [of _ c1] exI [of _ r]) auto
qed

theorem paced_submission_witness:
  "\<exists>(c1 :: Client) r. 100 \<le> clock demo_clientEnv (cliReads c1 - 1) \<and> loadStep demo_clientEnv id 10 100 0 (newCollector, demo_client) = Some r
    \<and> (case r of Inl e \<Rightarrow> e = TimedOutOffering
       | Inr (col', c') \<Rightarrow> \<exists>es. heard (cliAdapter c') = heard (cliAdapter c1) @ es \<and> timedFrom (loadId 0) 100 es col')"
proof -
  have h: "0 <s (10 :: i64)" "sint (10 :: i64) * int 0 < 2 ^ 63" "int 0 < 2 ^ 63 - 1" "100 + sint (10 :: i64) * int 0 = 100"
    by (simp_all add: signed_ord)
  obtain c1 :: Client and r where "100 \<le> clock demo_clientEnv (cliReads c1 - 1)"
      "loadStep demo_clientEnv id 10 100 0 (newCollector, demo_client) = Some r"
    and r: "case r of Inl e \<Rightarrow> e = TimedOutOffering
       | Inr (col', c') \<Rightarrow> cliSent c' = cliSent demo_client @ [orderFrame (loadId 0) (loadSide 0) (loadPrice id 0) (loadQty id 0)]
           \<and> (\<exists>es. heard (cliAdapter c') = heard (cliAdapter c1) @ es \<and> timedFrom (loadId 0) 100 es col')"
    using paced_submission [OF demo_clientEnv_ticking h(1) counted_new h(2,3), of id 100 demo_client, unfolded h(4)]
    by blast
  moreover have "case r of Inl e \<Rightarrow> e = TimedOutOffering
       | Inr (col', c') \<Rightarrow> \<exists>es. heard (cliAdapter c') = heard (cliAdapter c1) @ es \<and> timedFrom (loadId 0) 100 es col'"
    using r by (cases r) auto
  ultimately show ?thesis by blast
qed

end
