(* ===== verification/Systest.thy ===== *)
theory Systest
  imports Prelude "HOL-Library.Signed_Division"
begin

text \<open>
  The integration-test harness, \<open>src/go/systest/harness.go\<close>, up to the start of a process: the port blocks, the
  endpoints of a member, where the jar is looked for, and the directories, log file and command line a
  driver is launched with. The process id and the counter of driver instances are state of the process; the
  operating system and the defaults of Aeron are parameters (\<open>osEnv\<close>). \<open>Driver\<close> and \<open>Runner\<close> have the
  concurrent part.
\<close>

section \<open>Ports\<close>

text \<open>\<open>nextBasePort\<close>: the counter is an \<open>int32\<close>, \<open>%\<close> truncates.\<close>

definition nextBasePort :: "int \<Rightarrow> i32 \<Rightarrow> int \<times> i32" where
  "nextBasePort pid driverInstances =
     (let driverInstances = driverInstances + 1;
          inst = sint (driverInstances - 1)
      in (20000 + (pid smod 100) * 120 + (inst smod 6) * 20, driverInstances))"

definition endpointPorts :: "int \<Rightarrow> int list" where
  "endpointPorts basePort = [basePort, basePort + 1, basePort + 2, basePort + 3, basePort + 10]"

fun itoa :: "nat \<Rightarrow> string" where
  "itoa n = (if n < 10 then [char_of (48 + n)] else itoa (n div 10) @ [char_of (48 + n mod 10)])"

declare itoa.simps [simp del]

text \<open>\<open>%d\<close>.\<close>

definition fmtInt :: "int \<Rightarrow> string" where
  "fmtInt i = (if i < 0 then ''-'' @ itoa (nat (- i)) else itoa (nat i))"

definition memberEndpoints :: "int \<Rightarrow> int \<Rightarrow> string" where
  "memberEndpoints member port =
     fmtInt member @ concat (map (\<lambda>p. '',localhost:'' @ fmtInt p) (endpointPorts port))"

lemma smod_pos: "0 \<le> x \<Longrightarrow> 0 < (k :: int) \<Longrightarrow> x smod k = x mod k"
  by (cases "x = 0") (simp_all add: signed_modulo_int_def signed_divide_int_def minus_div_mult_eq_mod)

lemma nextBasePort_value:
  assumes "0 \<le> pid" and "0 \<le> sint d"
  shows "fst (nextBasePort pid d) = 20000 + (pid mod 100) * 120 + (sint d mod 6) * 20"
  using assms by (simp add: nextBasePort_def Let_def smod_pos)

text \<open>Every port a driver is given lies in \<open>[20000, 32768)\<close>, below the kernel's ephemeral range, and the five
  endpoints of a member are distinct, as long as the 32-bit counter has not wrapped.\<close>

lemma ports_in_range:
  assumes "0 \<le> pid" and "0 \<le> sint d" and "p \<in> set (endpointPorts (fst (nextBasePort pid d)))"
  shows "20000 \<le> p \<and> p < 32768 \<and> distinct (endpointPorts (fst (nextBasePort pid d)))"
proof -
  have "0 \<le> pid mod 100" "pid mod 100 < 100" "0 \<le> sint d mod 6" "sint d mod 6 < 6" by simp_all
  then show ?thesis using assms(3) nextBasePort_value [OF assms(1,2)] by (auto simp: endpointPorts_def)
qed

section \<open>What a driver is launched with\<close>

text \<open>The environment: variables, existing files, the outcome of creating directories and files, successive
  UUIDs, two constants of the Aeron client, and whether the platform's \<open>SysProcAttr\<close> has the field \<open>Pdeathsig\<close>.\<close>

record osEnv =
  Getenv :: "string \<Rightarrow> string"
  Stat :: "string \<Rightarrow> bool"
  MkdirTemp :: "string \<Rightarrow> string + string"
  MkdirAll :: "string \<Rightarrow> string option"
  Create :: "string \<Rightarrow> string option"
  uuid :: "nat \<Rightarrow> string"
  DefaultAeronDir :: string
  UserName :: string
  hasPdeathsig :: bool

definition defaultJarName :: string where
  "defaultJarName = ''aeron-all-1.52.0.jar''"

definition jarPath :: "osEnv \<Rightarrow> string" where
  "jarPath env = (let path = Getenv env ''AERON_ALL_JAR'' in if path \<noteq> [] then path else defaultJarName)"

definition JarAvailable :: "osEnv \<Rightarrow> string \<times> bool" where
  "JarAvailable env = (let path = jarPath env in (path, Stat env path))"

text \<open>The descriptive part of a driver.\<close>

record ClusteredMediaDriver =
  AeronDir :: string
  ClusterDir :: string
  ArchiveDir :: string
  IngressEndpoint :: string
  LogPath :: string
  basePort :: int
  memberId :: int
  clusterMembers :: string

definition minuteNanos :: int where
  "minuteNanos = 60000000000"

definition javaArgs :: "string \<Rightarrow> string \<Rightarrow> string \<Rightarrow> string \<Rightarrow> string \<Rightarrow> int \<Rightarrow> int \<Rightarrow> string list" where
  "javaArgs jar aeronDir clusterDir archiveDir members member port =
     [''java'',
      ''--add-opens=java.base/sun.nio.ch=ALL-UNNAMED'',
      ''--add-exports=java.base/jdk.internal.misc=ALL-UNNAMED'',
      ''-XX:+UnlockDiagnosticVMOptions'',
      ''-XX:GuaranteedSafepointInterval=300000'',
      ''-Daeron.dir='' @ aeronDir,
      ''-Daeron.dir.delete.on.start=true'',
      ''-Daeron.dir.delete.on.shutdown=true'',
      ''-Daeron.threading.mode=SHARED'',
      ''-Daeron.client.liveness.timeout='' @ fmtInt minuteNanos,
      ''-Daeron.publication.unblock.timeout='' @ fmtInt (15 * minuteNanos),
      ''-Daeron.archive.dir='' @ archiveDir,
      ''-Daeron.archive.control.channel='' @ ''aeron:udp?endpoint=localhost:'' @ fmtInt (port + 10),
      ''-Daeron.archive.replication.channel=aeron:udp?endpoint=localhost:0'',
      ''-Daeron.archive.threading.mode=SHARED'',
      ''-Daeron.cluster.dir='' @ clusterDir,
      ''-Daeron.cluster.members='' @ members,
      ''-Daeron.cluster.member.id='' @ fmtInt member,
      ''-Daeron.cluster.ingress.channel=aeron:udp?term-length=64k'',
      ''-Daeron.cluster.replication.channel=aeron:udp?endpoint=localhost:0'',
      ''-Daeron.cluster.service.count=1'',
      ''-cp'', jar, ''io.aeron.cluster.ClusteredMediaDriver'']"

definition clusterToolArgs :: "osEnv \<Rightarrow> ClusteredMediaDriver \<Rightarrow> string \<Rightarrow> string list" where
  "clusterToolArgs env d command =
     [''java'',
      ''--add-opens=java.base/sun.nio.ch=ALL-UNNAMED'',
      ''--add-exports=java.base/jdk.internal.misc=ALL-UNNAMED'',
      ''-cp'', fst (JarAvailable env), ''io.aeron.cluster.ClusterTool'', ClusterDir d, command]"

text \<open>\<open>filepath.Dir\<close>, for a clean path with a slash.\<close>

definition pathDir :: "string \<Rightarrow> string" where
  "pathDir p = rev (tl (dropWhile (\<lambda>c. c \<noteq> CHR ''/'') (rev p)))"

text \<open>\<open>setupPdeathsig\<close>: the child gets \<open>SIGTERM\<close> when its parent dies, where the platform has the field.\<close>

record SysProcAttr =
  Pdeathsig :: nat

definition SIGTERM :: nat where
  "SIGTERM = 15"

definition setupPdeathsig :: "bool \<Rightarrow> SysProcAttr option \<Rightarrow> SysProcAttr option" where
  "setupPdeathsig fieldValid attr =
     (let attr = (case attr of None \<Rightarrow> Some \<lparr>Pdeathsig = 0\<rparr> | Some a \<Rightarrow> Some a)
      in if fieldValid then map_option (\<lambda>a. a\<lparr>Pdeathsig := SIGTERM\<rparr>) attr else attr)"

text \<open>A command before it is started: \<open>exec.Command\<close> sets the arguments, \<open>launchDriver\<close> the output file and the
  process attributes.\<close>

record Cmd =
  Args :: "string list"
  Stdout :: "string option"
  Stderr :: "string option"
  procAttr :: "SysProcAttr option"

definition Command :: "string list \<Rightarrow> Cmd" where
  "Command args = \<lparr>Args = args, Stdout = None, Stderr = None, procAttr = None\<rparr>"

text \<open>The state the launch functions work on: the paths they have created and the UUIDs drawn.\<close>

record launchState =
  fsys :: "string set"
  uuids :: nat

datatype launchError = OsError string | JarNotFound string

text \<open>\<open>launchDriver\<close> up to the point where the process is started: the driver and its command line.\<close>

definition prepareDriver :: "osEnv \<Rightarrow> int \<Rightarrow> string \<Rightarrow> string \<Rightarrow> string \<Rightarrow> string \<Rightarrow> int \<Rightarrow> launchState \<Rightarrow>
    (launchError + ClusteredMediaDriver \<times> Cmd) \<times> launchState" where
  "prepareDriver env member members aeronDir clusterDir archiveDir port ls =
     (case JarAvailable env of (jar, ok) \<Rightarrow>
        if \<not> ok then (Inl (JarNotFound jar), ls)
        else
          (let cmd = Command (javaArgs jar aeronDir clusterDir archiveDir members member port);
               logPath = pathDir clusterDir @ ''/driver-'' @ take 8 (uuid env (uuids ls)) @ ''.log'';
               ls = ls\<lparr>uuids := uuids ls + 1\<rparr>
           in case Create env logPath of
                Some e \<Rightarrow> (Inl (OsError e), ls)
              | None \<Rightarrow> (Inr (\<lparr>AeronDir = aeronDir, ClusterDir = clusterDir, ArchiveDir = archiveDir,
                  IngressEndpoint = ''localhost:'' @ fmtInt port, LogPath = logPath, basePort = port, memberId = member,
                  clusterMembers = members\<rparr>,
                  cmd\<lparr>Stdout := Some logPath, Stderr := Some logPath, procAttr := setupPdeathsig (hasPdeathsig env) (procAttr cmd)\<rparr>),
                  ls\<lparr>fsys := insert logPath (fsys ls)\<rparr>)))"

definition launchNode :: "osEnv \<Rightarrow> int \<Rightarrow> string \<Rightarrow> int \<Rightarrow> launchState \<Rightarrow>
    (launchError + ClusteredMediaDriver \<times> Cmd) \<times> launchState" where
  "launchNode env member members port ls =
     (let i = uuid env (uuids ls);
          ls = ls\<lparr>uuids := uuids ls + 1\<rparr>;
          aeronDir = DefaultAeronDir env @ ''/aeron-'' @ UserName env @ ''/'' @ i @ ''/driver''
      in case MkdirTemp env ''aeron-go-cluster-systest'' of
           Inl e \<Rightarrow> (Inl (OsError e), ls)
         | Inr baseDir \<Rightarrow>
             (let ls = ls\<lparr>fsys := insert baseDir (fsys ls)\<rparr>;
                  clusterDir = baseDir @ ''/cluster'';
                  archiveDir = baseDir @ ''/archive''
              in case MkdirAll env clusterDir of
                   Some e \<Rightarrow> (Inl (OsError e), ls)
                 | None \<Rightarrow> prepareDriver env member members aeronDir clusterDir archiveDir port
                     (ls\<lparr>fsys := insert clusterDir (fsys ls)\<rparr>)))"

definition StartClusteredMediaDriver :: "osEnv \<Rightarrow> int \<Rightarrow> i32 \<times> launchState \<Rightarrow>
    (launchError + ClusteredMediaDriver \<times> Cmd) \<times> i32 \<times> launchState" where
  "StartClusteredMediaDriver env pid st = (case nextBasePort pid (fst st) of (port, n) \<Rightarrow>
     (case launchNode env 0 (memberEndpoints 0 port) port (snd st) of (r, ls) \<Rightarrow> (r, n, ls)))"

definition Restart :: "osEnv \<Rightarrow> ClusteredMediaDriver \<Rightarrow> launchState \<Rightarrow>
    (launchError + ClusteredMediaDriver \<times> Cmd) \<times> launchState" where
  "Restart env d ls = prepareDriver env (memberId d) (clusterMembers d) (AeronDir d) (ClusterDir d) (ArchiveDir d) (basePort d) ls"

text \<open>\<open>os.RemoveAll\<close>, and the loop over the driver's directories in \<open>Stop\<close>.\<close>

definition RemoveAll :: "string \<Rightarrow> string set \<Rightarrow> string set" where
  "RemoveAll d fs = {p \<in> fs. p \<noteq> d \<and> take (length d + 1) p \<noteq> d @ ''/''}"

definition removeDirs :: "ClusteredMediaDriver \<Rightarrow> string set \<Rightarrow> string set" where
  "removeDirs d fs = fold RemoveAll [AeronDir d, ClusterDir d, ArchiveDir d] fs"

section \<open>Directories\<close>

lemma pathDir_sub: "CHR ''/'' \<notin> set x \<Longrightarrow> pathDir (d @ CHR ''/'' # x) = d"
  by (simp add: pathDir_def, subst dropWhile_append2) auto

lemma prepareDriver_ok:
  assumes "prepareDriver env member members aeronDir clusterDir archiveDir port ls = (Inr (d, cmd), ls')"
  shows "d = \<lparr>AeronDir = aeronDir, ClusterDir = clusterDir, ArchiveDir = archiveDir, IngressEndpoint = ''localhost:'' @ fmtInt port,
      LogPath = pathDir clusterDir @ ''/driver-'' @ take 8 (uuid env (uuids ls)) @ ''.log'', basePort = port, memberId = member,
      clusterMembers = members\<rparr>"
    and "Args cmd = javaArgs (jarPath env) aeronDir clusterDir archiveDir members member port"
    and "Stdout cmd = Some (LogPath d)" and "Stderr cmd = Some (LogPath d)"
    and "procAttr cmd = Some \<lparr>Pdeathsig = (if hasPdeathsig env then SIGTERM else 0)\<rparr>"
    and "fsys ls' = insert (LogPath d) (fsys ls)"
  using assms by (auto simp: prepareDriver_def JarAvailable_def Command_def setupPdeathsig_def Let_def split: if_splits option.splits)

text \<open>A restarted driver is the old one with a new log: the same command line over the same directories,
  member and ports.\<close>

lemma Restart_same:
  assumes "prepareDriver env member members aeronDir clusterDir archiveDir port ls = (Inr (d, cmd), ls0)"
    and "Restart env d ls1 = (Inr (d', cmd'), ls2)"
  shows "Args cmd' = Args cmd \<and> procAttr cmd' = procAttr cmd \<and> d' = d\<lparr>LogPath := LogPath d'\<rparr>"
  using prepareDriver_ok(1,2,5) [OF assms(1)] prepareDriver_ok(1,2,5) [OF assms(2) [unfolded Restart_def]] by simp

text \<open>\<open>Stop\<close> does not remove everything a launch created: the base directory and the log in it stay.\<close>

lemma stop_leaves_base:
  assumes l: "launchNode env member members port ls = (Inr (d, cmd), ls')" and t: "MkdirTemp env ''aeron-go-cluster-systest'' = Inr base"
    and other: "AeronDir d \<noteq> base" "take (length (AeronDir d)) (LogPath d) \<noteq> AeronDir d" "take (length (AeronDir d)) base \<noteq> AeronDir d"
  shows "base \<in> removeDirs d (fsys ls') \<and> LogPath d \<in> removeDirs d (fsys ls') \<and> ClusterDir d \<notin> removeDirs d (fsys ls')"
proof -
  have p: "pathDir (base @ ''/cluster'') = base" using pathDir_sub [of "''cluster''" base] by simp
  obtain ls0 aeronDir where q: "prepareDriver env member members aeronDir (base @ ''/cluster'') (base @ ''/archive'') port ls0 = (Inr (d, cmd), ls')"
    "base \<in> fsys ls0"
    using l t by (auto simp: launchNode_def Let_def split: option.splits)
  note d = prepareDriver_ok [OF q(1), unfolded p]
  have log: "LogPath d = base @ ''/driver-'' @ take 8 (uuid env (uuids ls0)) @ ''.log''" "ClusterDir d = base @ ''/cluster''"
    "ArchiveDir d = base @ ''/archive''" using d(1) by simp_all
  have keep: "x \<in> RemoveAll (AeronDir d) fs" if "x \<in> fs" "x \<noteq> AeronDir d" "take (length (AeronDir d)) x \<noteq> AeronDir d" for x fs
    using that by (auto simp: RemoveAll_def dest: arg_cong [where f = "take (length (AeronDir d))"])
  have "base \<in> RemoveAll (AeronDir d) (fsys ls')" "LogPath d \<in> RemoveAll (AeronDir d) (fsys ls')"
    using d(6) q(2) other by (intro keep; force)+
  then show ?thesis unfolding removeDirs_def by (simp add: RemoveAll_def log)
qed

section \<open>Properties\<close>

text \<open>C40 (safety). Two drivers share a port exactly when their process ids agree modulo 100 and their instance
  numbers modulo 6. So six drivers of one process are kept apart, but a seventh, and a process whose id
  is 100 away, get a block that is in use.\<close>

theorem ports_shared_iff:
  assumes "0 \<le> pid" and "0 \<le> pid'" and "0 \<le> sint d" and "0 \<le> sint d'"
  shows "set (endpointPorts (fst (nextBasePort pid d))) \<inter> set (endpointPorts (fst (nextBasePort pid' d'))) \<noteq> {}
    \<longleftrightarrow> pid mod 100 = pid' mod 100 \<and> sint d mod 6 = sint d' mod 6"
proof -
  define a b a' b' where "a = pid mod 100" and "b = sint d mod 6" and "a' = pid' mod 100" and "b' = sint d' mod 6"
  have r: "0 \<le> a" "a < 100" "0 \<le> a'" "a' < 100" "0 \<le> b" "b < 6" "0 \<le> b'" "b' < 6"
    by (simp_all add: a_def b_def a'_def b'_def)
  have v: "fst (nextBasePort pid d) = 20000 + a * 120 + b * 20" "fst (nextBasePort pid' d') = 20000 + a' * 120 + b' * 20"
    using assms nextBasePort_value by (simp_all add: a_def b_def a'_def b'_def)
  have k: "6 * a + b = 6 * a' + b' \<longleftrightarrow> a = a' \<and> b = b'"
  proof
    assume e: "6 * a + b = 6 * a' + b'"
    have "(6 * a + b) div 6 = a" "(6 * a' + b') div 6 = a'" using r by simp_all
    with e show "a = a' \<and> b = b'" by simp
  qed simp
  show ?thesis
  proof (cases "6 * a + b" "6 * a' + b'" rule: linorder_cases)
    case equal
    then show ?thesis using k by (auto simp: v endpointPorts_def a_def b_def a'_def b'_def)
  next
    case less
    then show ?thesis using k by (auto simp: v endpointPorts_def simp flip: a_def b_def a'_def b'_def)
  next
    case greater
    then show ?thesis using k by (auto simp: v endpointPorts_def simp flip: a_def b_def a'_def b'_def)
  qed
qed

theorem ports_shared_iff_witness:
  "set (endpointPorts (fst (nextBasePort 4242 0))) \<inter> set (endpointPorts (fst (nextBasePort 4242 6))) \<noteq> {}
   \<and> set (endpointPorts (fst (nextBasePort 4242 0))) \<inter> set (endpointPorts (fst (nextBasePort 4342 0))) \<noteq> {}
   \<and> set (endpointPorts (fst (nextBasePort 4242 0))) \<inter> set (endpointPorts (fst (nextBasePort 4242 5))) = {}"
  using ports_shared_iff [of 4242 4242 0 6] ports_shared_iff [of 4242 4342 0 0] ports_shared_iff [of 4242 4242 0 5]
  by simp

end
