(* ===== verification/Driver.thy ===== *)
theory Driver
  imports Systest
begin

text \<open>
  The life of a driver process in \<open>src/go/systest/harness.go\<close>: the goroutine of \<open>launchDriver\<close> that starts the
  process, waits for it and closes the log and the channel \<open>exited\<close>; the caller that launches, shuts down
  or stops the driver; and the process itself, which may end at any time. Each rule is one statement of one
  of them, and any interleaving is possible. What the operating system and Aeron answer (whether the
  process starts, whether a signal is delivered, whether the driver becomes ready, when a timeout expires)
  is left open.
\<close>

section \<open>Waiting for the driver\<close>

text \<open>\<open>awaitMediaDriverReady\<close>: attempt \<open>k\<close> follows reading \<open>k\<close> of the clock; a failed \<open>Connect\<close> is \<open>None\<close>, otherwise
  the result of closing the connection is returned.\<close>

record readyEnv =
  readyClock :: "nat \<Rightarrow> int"
  aeronConnect :: "nat \<Rightarrow> (string + unit) option"

partial_function (option) await_loop :: "readyEnv \<Rightarrow> int \<Rightarrow> nat \<Rightarrow> (string + unit) option" where
  "await_loop env deadline k =
     (if readyClock env k < deadline then
        (case aeronConnect env k of
           Some r \<Rightarrow> Some r
         | None \<Rightarrow> await_loop env deadline (k + 1))
      else Some (Inl ''timed out waiting for ClusteredMediaDriver to start''))"

definition awaitMediaDriverReady :: "readyEnv \<Rightarrow> (string + unit) option" where
  "awaitMediaDriverReady env = await_loop env (readyClock env 0 + 10 * 1000000000) 1"

interpretation readying: retry_loop "\<lambda>k. \<not> readyClock env k < deadline \<or> aeronConnect env k \<noteq> None" "await_loop env deadline"
    "\<lambda>k. if readyClock env k < deadline then the (aeronConnect env k)
      else Inl ''timed out waiting for ClusteredMediaDriver to start''"
  for env deadline
  by unfold_locales (subst await_loop.simps, auto split: option.splits)+

lemma awaitMediaDriverReady_returns:
  assumes "\<forall>t. \<exists>k \<ge> 1. t \<le> readyClock env k"
  shows "awaitMediaDriverReady env \<noteq> None"
proof -
  let ?d = "readyClock env 0 + 10 * 1000000000"
  have "\<exists>k \<ge> 1. \<not> readyClock env k < ?d \<or> aeronConnect env k \<noteq> None" using assms not_less by blast
  then show ?thesis unfolding awaitMediaDriverReady_def by (rule readying.returns) simp
qed

section \<open>Threads\<close>

datatype procState = Unstarted | Running | Ended

text \<open>The goroutine: \<open>cmd.Start\<close>; on failure \<open>logFile.Close\<close> and the send of the error; otherwise the send of
  \<open>nil\<close>, \<open>cmd.Wait\<close>, \<open>logFile.Close\<close>, \<open>close(exited)\<close>.\<close>

datatype waiterPc = WStart | WFailClose string | WFailSend string | WSend | WWait | WClose | WExit | WReturned

text \<open>The caller: in \<open>launchDriver\<close> the receive from \<open>started\<close> and \<open>awaitMediaDriverReady\<close>; in \<open>Stop\<close> the kill, the
  receive from \<open>exited\<close> and the removal of the directories; in \<open>Shutdown\<close> the signal, the select, the kill
  after its timeout and the receive. \<open>CIdle\<close>: a driver was returned and no call is running; \<open>CFailed\<close>:
  \<open>launchDriver\<close> has returned an error.\<close>

datatype callerPc = CStarted | CAwait | CKill | CAwaitExit | CRemove | CTerm | CSelect | CForce | CForced | CIdle | CFailed

text \<open>\<open>started\<close> is the content of the channel of capacity 1, \<open>exited\<close> whether that channel is closed; \<open>killed\<close>
  whether a \<open>Process.Kill\<close> has succeeded, \<open>killFailed\<close> whether one has returned an error other than
  \<open>os.ErrProcessDone\<close>, \<open>removed\<close> whether the directories were removed.\<close>

record driverSys =
  proc :: procState
  waiter :: waiterPc
  caller :: callerPc
  started :: "string option list"
  exited :: bool
  logOpen :: bool
  launching :: bool
  killed :: bool
  killFailed :: bool
  removed :: bool

definition driverInit :: driverSys where
  "driverInit = \<lparr>proc = Unstarted, waiter = WStart, caller = CStarted, started = [], exited = False, logOpen = True,
     launching = True, killed = False, killFailed = False, removed = False\<rparr>"

definition Exited :: "driverSys \<Rightarrow> bool" where
  "Exited s = exited s"

inductive waiterStep :: "driverSys \<Rightarrow> driverSys \<Rightarrow> bool" where
  start_ok: "waiter s = WStart \<Longrightarrow> waiterStep s (s\<lparr>proc := Running, waiter := WSend\<rparr>)"
| start_err: "waiter s = WStart \<Longrightarrow> waiterStep s (s\<lparr>waiter := WFailClose e\<rparr>)"
| fail_close: "waiter s = WFailClose e \<Longrightarrow> waiterStep s (s\<lparr>logOpen := False, waiter := WFailSend e\<rparr>)"
| fail_send: "waiter s = WFailSend e \<Longrightarrow> length (started s) < 1 \<Longrightarrow>
    waiterStep s (s\<lparr>started := started s @ [Some e], waiter := WReturned\<rparr>)"
| send: "waiter s = WSend \<Longrightarrow> length (started s) < 1 \<Longrightarrow> waiterStep s (s\<lparr>started := started s @ [None], waiter := WWait\<rparr>)"
| wait: "waiter s = WWait \<Longrightarrow> proc s = Ended \<Longrightarrow> waiterStep s (s\<lparr>waiter := WClose\<rparr>)"
| close_log: "waiter s = WClose \<Longrightarrow> waiterStep s (s\<lparr>logOpen := False, waiter := WExit\<rparr>)"
| close_exited: "waiter s = WExit \<Longrightarrow> waiterStep s (s\<lparr>exited := True, waiter := WReturned\<rparr>)"

text \<open>\<open>Kill\<close> succeeds, or returns \<open>os.ErrProcessDone\<close> because the process has ended, or fails otherwise; the error is
  logged or discarded and the caller waits for \<open>exited\<close> in every case. An error of the \<open>SIGTERM\<close> is only logged.\<close>

inductive callerStep :: "driverSys \<Rightarrow> driverSys \<Rightarrow> bool" where
  recv_ok: "caller s = CStarted \<Longrightarrow> started s = None # xs \<Longrightarrow> callerStep s (s\<lparr>started := xs, caller := CAwait\<rparr>)"
| recv_err: "caller s = CStarted \<Longrightarrow> started s = Some e # xs \<Longrightarrow> callerStep s (s\<lparr>started := xs, caller := CFailed\<rparr>)"
| ready: "caller s = CAwait \<Longrightarrow> callerStep s (s\<lparr>launching := False, caller := CIdle\<rparr>)"
| not_ready: "caller s = CAwait \<Longrightarrow> callerStep s (s\<lparr>caller := CKill\<rparr>)"
| kill: "caller s = CKill \<Longrightarrow> callerStep s (s\<lparr>killed := True, caller := CAwaitExit\<rparr>)"
| kill_done: "caller s = CKill \<Longrightarrow> proc s = Ended \<Longrightarrow> callerStep s (s\<lparr>caller := CAwaitExit\<rparr>)"
| kill_err: "caller s = CKill \<Longrightarrow> callerStep s (s\<lparr>killFailed := True, caller := CAwaitExit\<rparr>)"
| await_exit: "caller s = CAwaitExit \<Longrightarrow> exited s \<Longrightarrow> callerStep s (s\<lparr>caller := CRemove\<rparr>)"
| remove: "caller s = CRemove \<Longrightarrow> callerStep s (s\<lparr>removed := True, caller := (if launching s then CFailed else CIdle)\<rparr>)"
| terminate: "caller s = CTerm \<Longrightarrow> callerStep s (s\<lparr>caller := CSelect\<rparr>)"
| select_exited: "caller s = CSelect \<Longrightarrow> exited s \<Longrightarrow> callerStep s (s\<lparr>caller := CIdle\<rparr>)"
| select_timeout: "caller s = CSelect \<Longrightarrow> callerStep s (s\<lparr>caller := CForce\<rparr>)"
| force: "caller s = CForce \<Longrightarrow> callerStep s (s\<lparr>killed := True, caller := CForced\<rparr>)"
| force_done: "caller s = CForce \<Longrightarrow> proc s = Ended \<Longrightarrow> callerStep s (s\<lparr>caller := CForced\<rparr>)"
| force_err: "caller s = CForce \<Longrightarrow> callerStep s (s\<lparr>killFailed := True, caller := CForced\<rparr>)"
| forced: "caller s = CForced \<Longrightarrow> exited s \<Longrightarrow> callerStep s (s\<lparr>caller := CIdle\<rparr>)"

text \<open>The process ends, by itself or because of a signal.\<close>

inductive procStep :: "driverSys \<Rightarrow> driverSys \<Rightarrow> bool" where
  ends: "proc s = Running \<Longrightarrow> procStep s (s\<lparr>proc := Ended\<rparr>)"

definition threadStep :: "driverSys \<Rightarrow> driverSys \<Rightarrow> bool" where
  "threadStep s s' \<longleftrightarrow> waiterStep s s' \<or> callerStep s s'"

definition driverStep :: "driverSys \<Rightarrow> driverSys \<Rightarrow> bool" where
  "driverStep s s' \<longleftrightarrow> threadStep s s' \<or> procStep s s'"

text \<open>The owner of a driver calls \<open>Shutdown\<close> and \<open>Stop\<close>, in any order and as often as it likes.\<close>

inductive driverReach :: "driverSys \<Rightarrow> bool" where
  init: "driverReach driverInit"
| step: "driverReach s \<Longrightarrow> driverStep s s' \<Longrightarrow> driverReach s'"
| Shutdown: "driverReach s \<Longrightarrow> caller s = CIdle \<Longrightarrow> driverReach (s\<lparr>caller := CTerm\<rparr>)"
| Stop: "driverReach s \<Longrightarrow> caller s = CIdle \<Longrightarrow> driverReach (s\<lparr>caller := CKill\<rparr>)"

section \<open>Invariant\<close>

text \<open>Before the result of \<open>cmd.Start\<close> was received; afterwards, with a process, while it has not been seen to
  end; and when it has.\<close>

definition launchPending :: "driverSys \<Rightarrow> string option list \<Rightarrow> bool" where
  "launchPending s xs \<longleftrightarrow> caller s = CStarted \<and> started s = xs"

definition inCall :: "driverSys \<Rightarrow> bool" where
  "inCall s \<longleftrightarrow> caller s \<noteq> CStarted \<and> started s = [] \<and> (caller s \<in> {CRemove, CFailed} \<longrightarrow> exited s)"

definition waiterOk :: "driverSys \<Rightarrow> bool" where
  "waiterOk s \<longleftrightarrow> (case waiter s of
     WStart \<Rightarrow> proc s = Unstarted \<and> launchPending s [] \<and> \<not> exited s
   | WFailClose e \<Rightarrow> proc s = Unstarted \<and> launchPending s [] \<and> \<not> exited s
   | WFailSend e \<Rightarrow> proc s = Unstarted \<and> launchPending s [] \<and> \<not> exited s \<and> \<not> logOpen s
   | WSend \<Rightarrow> proc s \<noteq> Unstarted \<and> launchPending s [] \<and> \<not> exited s
   | WWait \<Rightarrow> proc s \<noteq> Unstarted \<and> (launchPending s [None] \<or> inCall s) \<and> \<not> exited s
   | WClose \<Rightarrow> proc s = Ended \<and> (launchPending s [None] \<or> inCall s) \<and> \<not> exited s
   | WExit \<Rightarrow> proc s = Ended \<and> (launchPending s [None] \<or> inCall s) \<and> \<not> exited s \<and> \<not> logOpen s
   | WReturned \<Rightarrow> \<not> logOpen s \<and> (if exited s then proc s = Ended \<and> (launchPending s [None] \<or> inCall s)
       else proc s = Unstarted \<and> ((\<exists>e. launchPending s [Some e]) \<or> caller s = CFailed \<and> started s = [])))"

definition driverInv :: "driverSys \<Rightarrow> bool" where
  "driverInv s \<longleftrightarrow> waiterOk s \<and> (caller s \<in> {CAwaitExit, CForced} \<longrightarrow> killed s \<or> killFailed s \<or> proc s = Ended)
     \<and> (removed s \<longrightarrow> exited s)"

lemmas driver_defs = driverInv_def waiterOk_def launchPending_def inCall_def

lemma waiterStep_inv: "waiterStep s s' \<Longrightarrow> driverInv s \<Longrightarrow> driverInv s'"
  by (induction rule: waiterStep.induct) (auto simp: driver_defs)

lemma procStep_inv: "procStep s s' \<Longrightarrow> driverInv s \<Longrightarrow> driverInv s'"
  by (induction rule: procStep.induct) (auto simp: driver_defs split: waiterPc.splits if_splits)

lemma callerStep_inv: "callerStep s s' \<Longrightarrow> driverInv s \<Longrightarrow> driverInv s'"
  by (induction rule: callerStep.induct) (auto simp: driver_defs split: waiterPc.splits if_splits)

lemma driverStep_inv: "driverInv s \<Longrightarrow> driverStep s s' \<Longrightarrow> driverInv s'"
  unfolding driverStep_def threadStep_def using waiterStep_inv callerStep_inv procStep_inv by blast

lemma driverReach_inv: "driverReach s \<Longrightarrow> driverInv s"
proof (induction rule: driverReach.induct)
  case init
  show ?case by (simp add: driverInit_def driver_defs)
next
  case (step s s')
  then show ?case by (blast intro: driverStep_inv)
qed (auto simp: driver_defs split: waiterPc.splits if_splits)

section \<open>Every call returns\<close>

fun waiterRank :: "waiterPc \<Rightarrow> nat" where
  "waiterRank WStart = 6"
| "waiterRank (WFailClose e) = 2"
| "waiterRank (WFailSend e) = 1"
| "waiterRank WSend = 5"
| "waiterRank WWait = 4"
| "waiterRank WClose = 3"
| "waiterRank WExit = 2"
| "waiterRank WReturned = 0"

fun callerRank :: "callerPc \<Rightarrow> nat" where
  "callerRank CStarted = 5"
| "callerRank CAwait = 4"
| "callerRank CKill = 3"
| "callerRank CAwaitExit = 2"
| "callerRank CRemove = 1"
| "callerRank CTerm = 4"
| "callerRank CSelect = 3"
| "callerRank CForce = 2"
| "callerRank CForced = 1"
| "callerRank CIdle = 0"
| "callerRank CFailed = 0"

fun procRank :: "procState \<Rightarrow> nat" where
  "procRank Unstarted = 2"
| "procRank Running = 1"
| "procRank Ended = 0"

definition driverRank :: "driverSys \<Rightarrow> nat" where
  "driverRank s = waiterRank (waiter s) + callerRank (caller s) + procRank (proc s)"

lemma driverRank_less: "driverInv s \<Longrightarrow> driverStep s s' \<Longrightarrow> driverRank s' < driverRank s"
  unfolding driverStep_def threadStep_def
  by (elim disjE waiterStep.cases callerStep.cases procStep.cases) (auto simp: driverRank_def driver_defs)

text \<open>A caller that has not returned is never stuck: it, or the goroutine it waits for, can go on, unless it
  waits, after its attempt to kill it, for a process that still runs.\<close>

lemma driver_not_stuck:
  assumes "driverInv s" and "caller s \<notin> {CIdle, CFailed}"
  shows "(\<exists>s'. threadStep s s') \<or> (caller s \<in> {CAwaitExit, CForced} \<and> (killed s \<or> killFailed s) \<and> proc s = Running)"
proof -
  have w: "(\<exists>s'. waiterStep s s') \<or> ((killed s \<or> killFailed s) \<and> proc s = Running)"
    if "caller s \<in> {CAwaitExit, CForced}" "\<not> exited s"
  proof (cases "proc s = Running")
    case False
    with assms(1) that have "waiter s = WWait \<and> proc s = Ended \<or> waiter s = WClose \<or> waiter s = WExit"
      by (cases "proc s") (auto simp: driver_defs split: waiterPc.splits if_splits)
    then show ?thesis by (auto intro: waiterStep.intros)
  qed (use assms(1) that in \<open>auto simp: driverInv_def\<close>)
  have p: "\<exists>s'. waiterStep s s' \<or> callerStep s s'" if "caller s = CStarted"
  proof (cases "started s")
    case Nil
    with assms(1) that have "waiter s \<in> {WStart, WSend} \<or> (\<exists>e. waiter s = WFailClose e \<or> waiter s = WFailSend e)"
      by (auto simp: driver_defs split: waiterPc.splits if_splits)
    then show ?thesis using Nil by (auto intro: waiterStep.intros)
  next
    case (Cons x xs)
    then show ?thesis using that by (cases x) (auto intro: callerStep.intros)
  qed
  show ?thesis using assms(2) w p unfolding threadStep_def
    by (cases "caller s"; cases "exited s") (auto intro: callerStep.intros)
qed

lemma waiting_blocks:
  assumes "driverInv s" and "caller s \<in> {CAwaitExit, CForced}" and "callerStep s s'"
  shows "proc s = Ended"
proof -
  have "exited s" using assms(2,3) by (auto elim: callerStep.cases)
  then show ?thesis using assms(1) by (auto simp: driver_defs split: waiterPc.splits)
qed

text \<open>With the steps of the process the system comes to rest; once the process has ended, the two threads do so
  alone.\<close>

interpretation driving: converging driverStep driverInv driverRank "\<lambda>s. caller s \<in> {CIdle, CFailed}"
proof
  fix s s'
  show "driverInv s'" if "driverInv s" "driverStep s s'" using that by (rule driverStep_inv)
  show "driverRank s' < driverRank s" if "driverInv s" "driverStep s s'" using that by (rule driverRank_less)
  show "\<exists>s'. driverStep s s'" if "driverInv s" "caller s \<notin> {CIdle, CFailed}"
    using driver_not_stuck [OF that] procStep.ends [of s] unfolding driverStep_def by blast
qed

interpretation returning: converging threadStep "\<lambda>s. driverInv s \<and> proc s = Ended" driverRank "\<lambda>s. caller s \<in> {CIdle, CFailed}"
proof
  fix s s'
  show "driverInv s' \<and> proc s' = Ended" if a: "driverInv s \<and> proc s = Ended" "threadStep s s'"
  proof
    show "driverInv s'" using driverStep_inv [of s s'] a by (simp add: driverStep_def)
    have "waiter s \<noteq> WStart" using a(1) by (auto simp: driver_defs)
    then show "proc s' = Ended" using a unfolding threadStep_def by (auto elim!: waiterStep.cases callerStep.cases)
  qed
  show "driverRank s' < driverRank s" if "driverInv s \<and> proc s = Ended" "threadStep s s'"
    using that driverRank_less [of s s'] by (simp add: driverStep_def)
  show "\<exists>s'. threadStep s s'" if "driverInv s \<and> proc s = Ended" "caller s \<notin> {CIdle, CFailed}"
    using driver_not_stuck [of s] that by auto
qed

text \<open>A driver that was launched, became ready and has ended.\<close>

definition driverGone :: driverSys where
  "driverGone = \<lparr>proc = Ended, waiter = WReturned, caller = CIdle, started = [], exited = True, logOpen = False,
     launching = False, killed = False, killFailed = False, removed = False\<rparr>"

lemma driverGone_reach: "driverReach driverGone"
proof -
  let ?s = "\<lambda>p w c st ex lo la. \<lparr>proc = p, waiter = w, caller = c, started = st, exited = ex, logOpen = lo, launching = la,
     killed = False, killFailed = False, removed = False\<rparr>"
  note r = driverReach.step [unfolded driverStep_def threadStep_def]
  have "driverReach (?s Running WSend CStarted [] False True True)"
    using r [OF driverReach.init] waiterStep.start_ok [of driverInit] by (simp add: driverInit_def)
  from r [OF this] have "driverReach (?s Running WWait CStarted [None] False True True)"
    using waiterStep.send [of "?s Running WSend CStarted [] False True True"] by simp
  from r [OF this] have "driverReach (?s Running WWait CAwait [] False True True)"
    using callerStep.recv_ok [of "?s Running WWait CStarted [None] False True True" "[]"] by simp
  from r [OF this] have "driverReach (?s Running WWait CIdle [] False True False)"
    using callerStep.ready [of "?s Running WWait CAwait [] False True True"] by simp
  from r [OF this] have "driverReach (?s Ended WWait CIdle [] False True False)"
    using procStep.ends [of "?s Running WWait CIdle [] False True False"] by simp
  from r [OF this] have "driverReach (?s Ended WClose CIdle [] False True False)"
    using waiterStep.wait [of "?s Ended WWait CIdle [] False True False"] by simp
  from r [OF this] have "driverReach (?s Ended WExit CIdle [] False False False)"
    using waiterStep.close_log [of "?s Ended WClose CIdle [] False True False"] by simp
  from r [OF this] show ?thesis
    using waiterStep.close_exited [of "?s Ended WExit CIdle [] False False False"] by (simp add: driverGone_def)
qed

section \<open>Properties\<close>

text \<open>C37 (safety). No stranded driver: in every reachable interleaving, \<open>exited\<close> is closed only after the process
  has ended and its log is closed; a launch that returns an error leaves no process running; signals are
  only sent to a process that was started; the directories are removed only after the process has ended; and
  the goroutine's send on \<open>started\<close> never blocks.\<close>

theorem driver_lifecycle:
  assumes "driverReach s"
  shows "(Exited s \<longrightarrow> proc s = Ended \<and> \<not> logOpen s) \<and> (caller s = CFailed \<longrightarrow> proc s \<noteq> Running)
    \<and> (caller s \<in> {CKill, CTerm, CForce} \<longrightarrow> proc s \<noteq> Unstarted) \<and> (removed s \<longrightarrow> proc s = Ended)
    \<and> (waiter s = WSend \<or> (\<exists>e. waiter s = WFailSend e) \<longrightarrow> length (started s) < 1)"
  using driverReach_inv [OF assms]
  by (auto simp: driver_defs Exited_def split: waiterPc.splits if_splits)

theorem driver_lifecycle_witness:
  "driverReach driverGone \<and> Exited driverGone \<and> proc driverGone = Ended \<and> \<not> logOpen driverGone"
  using driver_lifecycle [OF driverGone_reach] driverGone_reach by (simp add: driverGone_def Exited_def)

text \<open>C38 (liveness). Launching, \<open>Shutdown\<close> and \<open>Stop\<close> return once the process is gone: from every reachable state
  no more than \<open>driverRank s\<close> steps can be taken, whatever the schedule; when the process has ended, the
  caller and the goroutine bring the call to its return by themselves; and a call that has not returned is
  blocked in one situation only, waiting for a process that still runs after the call has tried to kill
  it. There it stays for as long as the process runs, also when the \<open>Kill\<close> has failed.\<close>

theorem driver_calls_return:
  assumes "driverReach s"
  shows "((driverStep ^^ n) s s' \<longrightarrow> n \<le> driverRank s)
    \<and> (proc s = Ended \<longrightarrow> (\<exists>s'. threadStep\<^sup>*\<^sup>* s s' \<and> caller s' \<in> {CIdle, CFailed}))
    \<and> (caller s \<notin> {CIdle, CFailed} \<longrightarrow> (\<exists>s'. threadStep s s')
        \<or> caller s \<in> {CAwaitExit, CForced} \<and> (killed s \<or> killFailed s) \<and> proc s = Running)
    \<and> (caller s \<in> {CAwaitExit, CForced} \<and> callerStep s s' \<longrightarrow> proc s = Ended)"
proof -
  have i: "driverInv s" using assms by (rule driverReach_inv)
  show ?thesis using driving.run_bounded [OF i, of n s'] driver_not_stuck [OF i] returning.reaches_final [of s] waiting_blocks [OF i] i
    by auto
qed

theorem driver_calls_return_witness:
  "driverReach (driverGone\<lparr>caller := CKill\<rparr>) \<and> (\<exists>s'. threadStep\<^sup>*\<^sup>* (driverGone\<lparr>caller := CKill\<rparr>) s' \<and> caller s' \<in> {CIdle, CFailed})"
proof -
  have r: "driverReach (driverGone\<lparr>caller := CKill\<rparr>)" by (rule driverReach.Stop [OF driverGone_reach]) (simp add: driverGone_def)
  from driver_calls_return [OF r] r show ?thesis by (simp add: driverGone_def)
qed

end
