(* ===== verification/Runner.thy ===== *)
theory Runner
  imports Systest Service
begin

text \<open>
  The engine runner of the tests in \<open>src/go/systest/harness.go\<close>: \<open>startEngine\<close> with the goroutine that starts
  the service agent and drives it until told to stop, and \<open>shutdown\<close>. One rule per statement of the test's
  thread and of the goroutine, in any interleaving. The agent is Aeron's, and its calls are steps of their
  own (\<open>agentStep\<close>), which need never happen: \<open>OnStart\<close> may succeed, fail, panic or not return, \<open>Idle(DoWork())\<close> may
  return, panic or not return. When a timeout expires is left open as well.
\<close>

text \<open>The goroutine: inside \<open>OnStart\<close> (\<open>EStart\<close>), the send of its error or of \<open>nil\<close>, the test of \<open>stop\<close>, inside
  \<open>Idle(DoWork())\<close> (\<open>EWork\<close>), the deferred \<open>recover\<close> after a panic, the deferred \<open>close(done)\<close>.\<close>

datatype enginePc = EStart | ESendErr string | ESend | ECheck | EWork | ERecover | EClose | EEnded

text \<open>The test: the select of \<open>startEngine\<close>, which returns or is fatal; in \<open>shutdown\<close> the store to \<open>stop\<close>, the select
  and \<open>agent.Close\<close>.\<close>

datatype runnerPc = RSelect | RFatal | RReturned | HStore | HSelect | HClose | HReturned

record engineRunner =
  engine :: enginePc
  runner :: runnerPc
  startedChan :: "string option list"
  stop :: bool
  doneClosed :: bool
  panicked :: bool
  reported :: bool
  gaveUp :: bool
  agentCloses :: nat

definition runnerInit :: engineRunner where
  "runnerInit = \<lparr>engine = EStart, runner = RSelect, startedChan = [], stop = False, doneClosed = False, panicked = False,
     reported = False, gaveUp = False, agentCloses = 0\<rparr>"

text \<open>\<open>startEngine\<close> up to the \<open>go\<close> statement: an agent for a fresh service over the directories of the driver, and the
  runner in its first state; \<open>t.Fatalf\<close> is the error. \<open>NewClusteredServiceAgent\<close> is a parameter.\<close>

definition startEngine :: "(string \<Rightarrow> string \<Rightarrow> MatchingService \<Rightarrow> string + 'agent) \<Rightarrow> ClusteredMediaDriver \<Rightarrow>
    string + 'agent \<times> MatchingService \<times> engineRunner" where
  "startEngine newClusteredServiceAgent driver = (let svc = NewMatchingService in
     case newClusteredServiceAgent (AeronDir driver) (ClusterDir driver) svc of
       Inl e \<Rightarrow> Inl (''failed to create service agent: '' @ e)
     | Inr agent \<Rightarrow> Inr (agent, svc, runnerInit))"

text \<open>The calls of the agent come back.\<close>

inductive agentStep :: "engineRunner \<Rightarrow> engineRunner \<Rightarrow> bool" where
  start_ok: "engine s = EStart \<Longrightarrow> agentStep s (s\<lparr>engine := ESend\<rparr>)"
| start_err: "engine s = EStart \<Longrightarrow> agentStep s (s\<lparr>engine := ESendErr e\<rparr>)"
| start_panic: "engine s = EStart \<Longrightarrow> agentStep s (s\<lparr>panicked := True, engine := ERecover\<rparr>)"
| work: "engine s = EWork \<Longrightarrow> agentStep s (s\<lparr>engine := ECheck\<rparr>)"
| work_panic: "engine s = EWork \<Longrightarrow> agentStep s (s\<lparr>panicked := True, engine := ERecover\<rparr>)"

text \<open>The statements of the goroutine itself.\<close>

inductive engineStep :: "engineRunner \<Rightarrow> engineRunner \<Rightarrow> bool" where
  send_err: "engine s = ESendErr e \<Longrightarrow> length (startedChan s) < 1 \<Longrightarrow>
    engineStep s (s\<lparr>startedChan := startedChan s @ [Some e], engine := EClose\<rparr>)"
| send: "engine s = ESend \<Longrightarrow> length (startedChan s) < 1 \<Longrightarrow>
    engineStep s (s\<lparr>startedChan := startedChan s @ [None], engine := ECheck\<rparr>)"
| check_stop: "engine s = ECheck \<Longrightarrow> stop s \<Longrightarrow> engineStep s (s\<lparr>engine := EClose\<rparr>)"
| check_go: "engine s = ECheck \<Longrightarrow> \<not> stop s \<Longrightarrow> engineStep s (s\<lparr>engine := EWork\<rparr>)"
| recovered: "engine s = ERecover \<Longrightarrow> engineStep s (s\<lparr>reported := (reported s \<or> \<not> stop s), engine := EClose\<rparr>)"
| close_done: "engine s = EClose \<Longrightarrow> engineStep s (s\<lparr>doneClosed := True, engine := EEnded\<rparr>)"

inductive runnerStep :: "engineRunner \<Rightarrow> engineRunner \<Rightarrow> bool" where
  recv_ok: "runner s = RSelect \<Longrightarrow> startedChan s = None # xs \<Longrightarrow> runnerStep s (s\<lparr>startedChan := xs, runner := RReturned\<rparr>)"
| recv_err: "runner s = RSelect \<Longrightarrow> startedChan s = Some e # xs \<Longrightarrow> runnerStep s (s\<lparr>startedChan := xs, runner := RFatal\<rparr>)"
| start_timeout: "runner s = RSelect \<Longrightarrow> runnerStep s (s\<lparr>runner := RFatal\<rparr>)"
| store: "runner s = HStore \<Longrightarrow> runnerStep s (s\<lparr>stop := True, runner := HSelect\<rparr>)"
| select_done: "runner s = HSelect \<Longrightarrow> doneClosed s \<Longrightarrow> runnerStep s (s\<lparr>runner := HClose\<rparr>)"
| select_timeout: "runner s = HSelect \<Longrightarrow> runnerStep s (s\<lparr>gaveUp := True, runner := HClose\<rparr>)"
| close_agent: "runner s = HClose \<Longrightarrow> runnerStep s (s\<lparr>agentCloses := agentCloses s + 1, runner := HReturned\<rparr>)"

text \<open>The test calls \<open>shutdown\<close> once on the runner it got.\<close>

inductive runnerReach :: "engineRunner \<Rightarrow> bool" where
  init: "runnerReach runnerInit"
| agent: "runnerReach s \<Longrightarrow> agentStep s s' \<Longrightarrow> runnerReach s'"
| engine: "runnerReach s \<Longrightarrow> engineStep s s' \<Longrightarrow> runnerReach s'"
| runner: "runnerReach s \<Longrightarrow> runnerStep s s' \<Longrightarrow> runnerReach s'"
| shutdown: "runnerReach s \<Longrightarrow> runner s = RReturned \<Longrightarrow> runnerReach (s\<lparr>runner := HStore\<rparr>)"

text \<open>An engine started on a restarted driver serves from the directories of the driver before the restart.\<close>

lemma startEngine_restarted:
  assumes "Restart env driver ls = (Inr (driver', cmd), ls')"
  shows "startEngine newAgent driver' = startEngine newAgent driver"
  using prepareDriver_ok(1) [OF assms [unfolded Restart_def]] by (simp add: startEngine_def)

section \<open>Invariant\<close>

definition runnerInv :: "engineRunner \<Rightarrow> bool" where
  "runnerInv s \<longleftrightarrow>
     (engine s = EStart \<or> engine s = ESend \<or> (\<exists>e. engine s = ESendErr e) \<longrightarrow>
        startedChan s = [] \<and> runner s \<in> {RSelect, RFatal} \<and> \<not> panicked s)
   \<and> length (startedChan s) \<le> 1 \<and> (startedChan s \<noteq> [] \<longrightarrow> runner s \<in> {RSelect, RFatal})
   \<and> (doneClosed s \<longleftrightarrow> engine s = EEnded)
   \<and> (engine s \<in> {ECheck, EWork} \<longrightarrow> \<not> panicked s) \<and> (engine s = ERecover \<longrightarrow> panicked s \<and> \<not> reported s)
   \<and> (reported s \<longrightarrow> panicked s)
   \<and> (panicked s \<and> engine s \<in> {EClose, EEnded} \<and> \<not> stop s \<longrightarrow> reported s)
   \<and> (stop s \<longleftrightarrow> runner s \<in> {HSelect, HClose, HReturned})
   \<and> (runner s \<in> {HClose, HReturned} \<longrightarrow> doneClosed s \<or> gaveUp s)
   \<and> agentCloses s = (if runner s = HReturned then 1 else 0)"

lemma runnerInv_facts:
  assumes "runnerInv s"
  shows "doneClosed s \<longleftrightarrow> engine s = EEnded" "agentCloses s \<le> 1" "agentCloses s = 1 \<Longrightarrow> stop s"
    "agentCloses s = 1 \<Longrightarrow> doneClosed s \<or> gaveUp s" "panicked s \<Longrightarrow> doneClosed s \<Longrightarrow> \<not> stop s \<Longrightarrow> reported s"
proof -
  show d: "doneClosed s \<longleftrightarrow> engine s = EEnded" using assms unfolding runnerInv_def by blast
  have a: "agentCloses s = (if runner s = HReturned then 1 else 0)" using assms unfolding runnerInv_def by blast
  then show "agentCloses s \<le> 1" by simp
  show "stop s" "doneClosed s \<or> gaveUp s" if "agentCloses s = 1"
    using that a assms unfolding runnerInv_def by (metis insertCI zero_neq_one)+
  show "reported s" if "panicked s" "doneClosed s" "\<not> stop s" using that d assms unfolding runnerInv_def by blast
qed

lemma agentStep_inv: "agentStep s s' \<Longrightarrow> runnerInv s \<Longrightarrow> runnerInv s'"
  by (induction rule: agentStep.induct) (auto simp: runnerInv_def)

lemma engineStep_inv: "engineStep s s' \<Longrightarrow> runnerInv s \<Longrightarrow> runnerInv s'"
  by (induction rule: engineStep.induct) (auto simp: runnerInv_def)

lemma runnerStep_inv: "runnerStep s s' \<Longrightarrow> runnerInv s \<Longrightarrow> runnerInv s'"
  by (induction rule: runnerStep.induct) (auto simp: runnerInv_def)

lemma runnerReach_inv: "runnerReach s \<Longrightarrow> runnerInv s"
proof (induction rule: runnerReach.induct)
  case init
  show ?case by (simp add: runnerInit_def runnerInv_def)
next
  case (shutdown s)
  then show ?case by (auto simp: runnerInv_def)
qed (blast intro: agentStep_inv engineStep_inv runnerStep_inv)+

section \<open>The goroutine ends\<close>

fun engineRank :: "enginePc \<Rightarrow> nat" where
  "engineRank EStart = 5"
| "engineRank (ESendErr e) = 2"
| "engineRank ESend = 4"
| "engineRank ECheck = 2"
| "engineRank EWork = 3"
| "engineRank ERecover = 2"
| "engineRank EClose = 1"
| "engineRank EEnded = 0"

lemma engine_not_stuck:
  assumes "runnerInv s" and "engine s \<notin> {EStart, EWork, EEnded}"
  shows "\<exists>s'. engineStep s s'"
proof (cases "engine s")
  case (ESendErr e)
  then show ?thesis using assms(1) engineStep.send_err [of s e] by (auto simp: runnerInv_def)
next
  case ESend
  then show ?thesis using assms(1) engineStep.send [of s] by (auto simp: runnerInv_def)
next
  case ECheck
  then show ?thesis by (cases "stop s") (auto intro: engineStep.intros)
qed (use assms(2) in \<open>auto intro: engineStep.intros\<close>)

lemma agentStep_keeps: "agentStep s s' \<Longrightarrow> stop s' = stop s \<and> reported s' = reported s \<and> engine s \<in> {EStart, EWork} \<and> engine s' \<notin> {EStart, EWork}"
  by (auto elim: agentStep.cases)

lemma engineStep_keeps: "engineStep s s' \<Longrightarrow> stop s' = stop s \<and> (engine s \<noteq> ERecover \<longrightarrow> reported s' = reported s)
    \<and> engine s' \<noteq> EStart \<and> (stop s \<longrightarrow> engine s' \<noteq> EWork)"
  by (auto elim: engineStep.cases)

lemma runnerStep_keeps: "runnerStep s s' \<Longrightarrow> reported s' = reported s"
  by (auto elim: runnerStep.cases)

lemma recover_reports:
  assumes "runnerInv s" and "engine s = ERecover" and "engineStep s s'"
  shows "panicked s \<and> (reported s' \<longleftrightarrow> \<not> stop s)"
  using assms(3,1,2) by cases (auto simp: runnerInv_def)

text \<open>Once told to stop, the goroutine enters no further call of the agent and ends by its own statements.\<close>

lemma stop_started:
  assumes "runnerInv s" and "stop s"
  shows "engine s \<noteq> EStart"
proof
  assume "engine s = EStart"
  then have "runner s \<in> {RSelect, RFatal}" using assms(1) unfolding runnerInv_def by blast
  moreover have "runner s \<in> {HSelect, HClose, HReturned}" using assms unfolding runnerInv_def by blast
  ultimately show False by auto
qed

interpretation stopping: converging engineStep "\<lambda>s. runnerInv s \<and> stop s \<and> engine s \<notin> {EStart, EWork}"
    "\<lambda>s. engineRank (engine s)" "\<lambda>s. engine s = EEnded"
proof
  fix s s'
  show "runnerInv s' \<and> stop s' \<and> engine s' \<notin> {EStart, EWork}" if "runnerInv s \<and> stop s \<and> engine s \<notin> {EStart, EWork}" "engineStep s s'"
    using that engineStep_inv [of s s'] engineStep_keeps [of s s'] by auto
  show "\<exists>s'. engineStep s s'" if "runnerInv s \<and> stop s \<and> engine s \<notin> {EStart, EWork}" "engine s \<noteq> EEnded"
    using engine_not_stuck that by blast
  show "engineRank (engine s') < engineRank (engine s)" if "runnerInv s \<and> stop s \<and> engine s \<notin> {EStart, EWork}" "engineStep s s'"
    using that by (auto elim!: engineStep.cases)
qed

lemma stop_ends:
  assumes "runnerInv s" and "stop s" and "engine s \<noteq> EWork"
  shows "(engineStep ^^ n) s s' \<longrightarrow> n \<le> engineRank (engine s)" "\<exists>s'. engineStep\<^sup>*\<^sup>* s s' \<and> engine s' = EEnded"
  using stopping.run_bounded [of s n s'] stopping.reaches_final [of s] stop_started assms by auto

text \<open>A run in which the agent starts, works, and is shut down.\<close>

definition runnerStopped :: engineRunner where
  "runnerStopped = \<lparr>engine = ECheck, runner = HSelect, startedChan = [], stop = True, doneClosed = False, panicked = False,
     reported = False, gaveUp = False, agentCloses = 0\<rparr>"

lemma runnerStopped_reach: "runnerReach runnerStopped"
proof -
  let ?s = "\<lambda>e r st sp. \<lparr>engine = e, runner = r, startedChan = st, stop = sp, doneClosed = False, panicked = False,
     reported = False, gaveUp = False, agentCloses = 0\<rparr>"
  have "runnerReach (?s ESend RSelect [] False)"
    using runnerReach.agent [OF runnerReach.init] agentStep.start_ok [of runnerInit] by (simp add: runnerInit_def)
  from runnerReach.engine [OF this] have "runnerReach (?s ECheck RSelect [None] False)"
    using engineStep.send [of "?s ESend RSelect [] False"] by simp
  from runnerReach.runner [OF this] have "runnerReach (?s ECheck RReturned [] False)"
    using runnerStep.recv_ok [of "?s ECheck RSelect [None] False" "[]"] by simp
  from runnerReach.shutdown [OF this] have "runnerReach (?s ECheck HStore [] False)" by simp
  from runnerReach.runner [OF this] show ?thesis
    using runnerStep.store [of "?s ECheck HStore [] False"] by (simp add: runnerStopped_def)
qed

section \<open>Properties\<close>

text \<open>C39 (safety). The engine runner, whose agent may hang: outside the two calls of the agent its goroutine
  never blocks, not even when \<open>startEngine\<close> has given up on it. Once \<open>stop\<close> is set and no call of the agent
  is running, or as soon as the running one returns or panics, the goroutine ends and closes \<open>done\<close> by at
  most \<open>engineRank\<close> statements of its own and calls the agent no more. The agent is closed once, after
  \<open>stop\<close> was set and \<open>done\<close> was closed or the timeout expired. A recovered panic is reported to the test exactly
  when \<open>stop\<close> is not set at that moment, and nothing else is reported.\<close>

theorem engine_runner_stops:
  assumes "runnerReach s"
  shows "(engine s \<notin> {EStart, EWork, EEnded} \<longrightarrow> (\<exists>s'. engineStep s s'))
    \<and> (stop s \<and> engine s \<noteq> EWork \<longrightarrow> ((engineStep ^^ n) s u \<longrightarrow> n \<le> engineRank (engine s))
         \<and> (\<exists>s'. engineStep\<^sup>*\<^sup>* s s' \<and> engine s' = EEnded))
    \<and> (stop s \<and> agentStep s t \<longrightarrow> (\<exists>s'. engineStep\<^sup>*\<^sup>* t s' \<and> engine s' = EEnded))
    \<and> (doneClosed s \<longleftrightarrow> engine s = EEnded) \<and> agentCloses s \<le> 1
    \<and> (agentCloses s = 1 \<longrightarrow> stop s \<and> (doneClosed s \<or> gaveUp s))
    \<and> (engine s = ERecover \<and> engineStep s t \<longrightarrow> panicked s \<and> (reported t \<longleftrightarrow> \<not> stop s))
    \<and> (engine s \<noteq> ERecover \<and> (agentStep s t \<or> engineStep s t \<or> runnerStep s t) \<longrightarrow> reported t = reported s)
    \<and> (panicked s \<and> doneClosed s \<and> \<not> stop s \<longrightarrow> reported s)"
proof -
  have i: "runnerInv s" using assms by (rule runnerReach_inv)
  show ?thesis
  proof (intro conjI impI)
    show "\<exists>s'. engineStep s s'" if "engine s \<notin> {EStart, EWork, EEnded}" using engine_not_stuck [OF i that] .
    show "n \<le> engineRank (engine s)" if "stop s \<and> engine s \<noteq> EWork" "(engineStep ^^ n) s u"
      using stop_ends(1) [OF i, of n u] that by blast
    show "\<exists>s'. engineStep\<^sup>*\<^sup>* s s' \<and> engine s' = EEnded" if "stop s \<and> engine s \<noteq> EWork" using stop_ends(2) [OF i] that by blast
    show "\<exists>s'. engineStep\<^sup>*\<^sup>* t s' \<and> engine s' = EEnded" if "stop s \<and> agentStep s t"
      using stop_ends(2) [OF agentStep_inv [OF _ i, of t]] agentStep_keeps [of s t] that by blast
    show "panicked s" "reported t \<longleftrightarrow> \<not> stop s" if "engine s = ERecover \<and> engineStep s t"
      using recover_reports [OF i] that by blast+
    show "reported t = reported s" if "engine s \<noteq> ERecover \<and> (agentStep s t \<or> engineStep s t \<or> runnerStep s t)"
      using agentStep_keeps [of s t] engineStep_keeps [of s t] runnerStep_keeps [of s t] that by blast
  qed (use runnerInv_facts [OF i] in blast)+
qed

text \<open>A panic while the engine was not told to stop, about to be recovered.\<close>

definition runnerPanicked :: engineRunner where
  "runnerPanicked = runnerInit\<lparr>panicked := True, engine := ERecover\<rparr>"

lemma runnerPanicked_reach: "runnerReach runnerPanicked"
  using runnerReach.agent [OF runnerReach.init agentStep.start_panic] by (simp add: runnerPanicked_def runnerInit_def)

theorem engine_runner_stops_witness:
  "runnerReach runnerStopped \<and> stop runnerStopped \<and> (\<exists>s'. engineStep\<^sup>*\<^sup>* runnerStopped s' \<and> engine s' = EEnded)
   \<and> runnerReach runnerPanicked \<and> (\<exists>t. engineStep runnerPanicked t \<and> reported t)"
proof -
  have p: "engine runnerPanicked = ERecover" "\<not> stop runnerPanicked" by (simp_all add: runnerPanicked_def runnerInit_def)
  then obtain t where "engineStep runnerPanicked t" using engine_runner_stops [OF runnerPanicked_reach] by auto
  then have "engineStep runnerPanicked t \<and> reported t" using engine_runner_stops [OF runnerPanicked_reach] p by blast
  moreover have "\<exists>s'. engineStep\<^sup>*\<^sup>* runnerStopped s' \<and> engine s' = EEnded"
    using engine_runner_stops [OF runnerStopped_reach] by (simp add: runnerStopped_def)
  ultimately show ?thesis using runnerStopped_reach runnerPanicked_reach by (auto simp: runnerStopped_def)
qed

end
