(* ===== verification/Engine_Main.thy ===== *)
theory Engine_Main
  imports Service
begin

text \<open>
  The engine command, \<open>src/go/cmd/engine/main.go\<close>: where the Aeron and cluster directories come from, and how
  the service is handed to Aeron's agent. The environment, the defaults of Aeron's context and options and
  the agent are parameters; \<open>main\<close> returns when \<open>StartAndRun\<close> returns without an error, and a panic carries
  the agent's error.
\<close>

record 'agent mainEnv =
  envVar :: "string \<Rightarrow> string"
  pathExists :: "string \<Rightarrow> bool"
  aeronUser :: string
  contextDir :: string
  optionsDir :: string
  newAgent :: "string \<Rightarrow> string \<Rightarrow> MatchingService \<Rightarrow> string + 'agent"
  startAndRun :: "'agent \<Rightarrow> string option"

definition aeronDirOf :: "'agent mainEnv \<Rightarrow> string" where
  "aeronDirOf env = (let aeronDir = envVar env ''AERON_DIR'' in
     if aeronDir \<noteq> [] then aeronDir
     else if pathExists env ''/dev/shm'' then ''/dev/shm/aeron-'' @ aeronUser env
     else contextDir env)"

definition clusterDirOf :: "'agent mainEnv \<Rightarrow> string" where
  "clusterDirOf env = (let clusterDir = envVar env ''CLUSTER_DIR'' in
     if clusterDir \<noteq> [] then clusterDir else optionsDir env)"

datatype mainResult = MainPanics string | MainReturns

definition engineMain :: "'agent mainEnv \<Rightarrow> mainResult" where
  "engineMain env = (case newAgent env (aeronDirOf env) (clusterDirOf env) NewMatchingService of
     Inl e \<Rightarrow> MainPanics e
   | Inr agent \<Rightarrow> (case startAndRun env agent of
       Some e \<Rightarrow> MainPanics e
     | None \<Rightarrow> MainReturns))"

text \<open>The engine runs a fresh service over the directories of the environment; with \<open>AERON_DIR\<close> unset it uses
  shared memory where there is any.\<close>

lemma engineMain_returns:
  "engineMain env = MainReturns \<longleftrightarrow>
     (\<exists>agent. newAgent env (aeronDirOf env) (clusterDirOf env) NewMatchingService = Inr agent \<and> startAndRun env agent = None)"
  by (auto simp: engineMain_def split: sum.splits option.splits)

lemma aeronDirOf_cases:
  "envVar env ''AERON_DIR'' \<noteq> [] \<Longrightarrow> aeronDirOf env = envVar env ''AERON_DIR''"
  "envVar env ''AERON_DIR'' = [] \<Longrightarrow> pathExists env ''/dev/shm'' \<Longrightarrow> aeronDirOf env = ''/dev/shm/aeron-'' @ aeronUser env"
  by (simp_all add: aeronDirOf_def)

end
