(* ===== verification/Marshaller.thy ===== *)
theory Marshaller
  imports Wire
begin

text \<open>
  The marshaller of \<open>src/go/protocol/codecs/SbeMarshalling.go\<close> as an object: one 8-byte array, the slices
  \<open>b8\<close>, \<open>b1\<close>, \<open>b2\<close>, \<open>b4\<close> that share it, and the readers and writers that go through them. \<open>Wire\<close> describes
  the same methods without the array; here they are shown to agree with it for every content the array
  may have been left with, and the \<open>float32\<close> and \<open>float64\<close> methods are added. A float is its IEEE 754 bit
  pattern, which is what \<open>math.Float32bits\<close> and \<open>math.Float64bits\<close> return. \<open>None\<close> is an index out of range.
\<close>

section \<open>The scratch array\<close>

text \<open>A slice is its start in the array and its length.\<close>

type_synonym slice = "nat \<times> nat"

record SbeGoMarshaller =
  mem :: bytes
  b8 :: slice
  b1 :: slice
  b2 :: slice
  b4 :: slice

definition reslice :: "slice \<Rightarrow> nat \<Rightarrow> slice" where
  "reslice s n = (fst s, n)"

definition NewSbeGoMarshaller :: SbeGoMarshaller where
  "NewSbeGoMarshaller =
     (let m = \<lparr>mem = replicate 8 0, b8 = (0, 8), b1 = (0, 0), b2 = (0, 0), b4 = (0, 0)\<rparr>;
          m = m\<lparr>b1 := reslice (b8 m) 1\<rparr>;
          m = m\<lparr>b2 := reslice (b8 m) 2\<rparr>
      in m\<lparr>b4 := reslice (b8 m) 4\<rparr>)"

definition view :: "slice \<Rightarrow> SbeGoMarshaller \<Rightarrow> bytes" where
  "view s m = take (snd s) (drop (fst s) (mem m))"

text \<open>\<open>s[i] = x\<close>, and the statements \<open>s[i] = x0; s[i+1] = x1; ...\<close> of a writer.\<close>

definition setByte :: "slice \<Rightarrow> nat \<Rightarrow> u8 \<Rightarrow> SbeGoMarshaller \<Rightarrow> SbeGoMarshaller option" where
  "setByte s i x m = (if i < snd s then Some (m\<lparr>mem := (mem m)[fst s + i := x]\<rparr>) else None)"

primrec setBytes :: "slice \<Rightarrow> nat \<Rightarrow> bytes \<Rightarrow> SbeGoMarshaller \<Rightarrow> SbeGoMarshaller option" where
  "setBytes s i [] m = Some m"
| "setBytes s i (x # xs) m = do { m \<leftarrow> setByte s i x m; setBytes s (i + 1) xs m }"

text \<open>\<open>io.ReadFull(r, s)\<close>: what there is goes into the slice, also when it is too little.\<close>

definition copyInto :: "slice \<Rightarrow> bytes \<Rightarrow> SbeGoMarshaller \<Rightarrow> SbeGoMarshaller" where
  "copyInto s xs m = m\<lparr>mem := take (fst s) (mem m) @ take (snd s) xs @ drop (fst s + length (take (snd s) xs)) (mem m)\<rparr>"

definition ReadFull :: "slice \<Rightarrow> bytes \<Rightarrow> SbeGoMarshaller \<Rightarrow> (werror + bytes) \<times> SbeGoMarshaller" where
  "ReadFull s r m = (if snd s \<le> length r then Inr (drop (snd s) r) else if r = [] then Inl EOF else Inl UnexpectedEOF,
     copyInto s r m)"

section \<open>Writers\<close>

text \<open>All writers store the bytes of the value in a slice and hand the slice to the writer.\<close>

definition writeSlice :: "slice \<Rightarrow> bytes \<Rightarrow> SbeGoMarshaller \<Rightarrow> bytes \<Rightarrow> (bytes \<times> SbeGoMarshaller) option" where
  "writeSlice s xs m w = do { m \<leftarrow> setBytes s 0 xs m; Some (w @ view s m, m) }"

definition m_WriteUint8 :: "SbeGoMarshaller \<Rightarrow> bytes \<Rightarrow> u8 \<Rightarrow> (bytes \<times> SbeGoMarshaller) option" where
  "m_WriteUint8 m w v = writeSlice (b1 m) [v] m w"

definition m_WriteUint16 :: "SbeGoMarshaller \<Rightarrow> bytes \<Rightarrow> u16 \<Rightarrow> (bytes \<times> SbeGoMarshaller) option" where
  "m_WriteUint16 m w v = writeSlice (b2 m) [ucast v, ucast (drop_bit 8 v)] m w"

definition m_WriteUint32 :: "SbeGoMarshaller \<Rightarrow> bytes \<Rightarrow> u32 \<Rightarrow> (bytes \<times> SbeGoMarshaller) option" where
  "m_WriteUint32 m w v = writeSlice (b4 m)
     [ucast v, ucast (drop_bit 8 v), ucast (drop_bit 16 v), ucast (drop_bit 24 v)] m w"

definition m_WriteUint64 :: "SbeGoMarshaller \<Rightarrow> bytes \<Rightarrow> u64 \<Rightarrow> (bytes \<times> SbeGoMarshaller) option" where
  "m_WriteUint64 m w v = writeSlice (b8 m)
     [ucast v, ucast (drop_bit 8 v), ucast (drop_bit 16 v), ucast (drop_bit 24 v),
      ucast (drop_bit 32 v), ucast (drop_bit 40 v), ucast (drop_bit 48 v), ucast (drop_bit 56 v)] m w"

definition m_WriteInt8 :: "SbeGoMarshaller \<Rightarrow> bytes \<Rightarrow> i8 \<Rightarrow> (bytes \<times> SbeGoMarshaller) option" where
  "m_WriteInt8 m w v = writeSlice (b1 m) [v] m w"

definition m_WriteInt16 :: "SbeGoMarshaller \<Rightarrow> bytes \<Rightarrow> i16 \<Rightarrow> (bytes \<times> SbeGoMarshaller) option" where
  "m_WriteInt16 m w v = writeSlice (b2 m) [ucast v, ucast (signed_drop_bit 8 v)] m w"

definition m_WriteInt32 :: "SbeGoMarshaller \<Rightarrow> bytes \<Rightarrow> i32 \<Rightarrow> (bytes \<times> SbeGoMarshaller) option" where
  "m_WriteInt32 m w v = writeSlice (b4 m)
     [ucast v, ucast (signed_drop_bit 8 v), ucast (signed_drop_bit 16 v), ucast (signed_drop_bit 24 v)] m w"

definition m_WriteInt64 :: "SbeGoMarshaller \<Rightarrow> bytes \<Rightarrow> i64 \<Rightarrow> (bytes \<times> SbeGoMarshaller) option" where
  "m_WriteInt64 m w v = writeSlice (b8 m)
     [ucast v, ucast (signed_drop_bit 8 v), ucast (signed_drop_bit 16 v), ucast (signed_drop_bit 24 v),
      ucast (signed_drop_bit 32 v), ucast (signed_drop_bit 40 v), ucast (signed_drop_bit 48 v),
      ucast (signed_drop_bit 56 v)] m w"

datatype float32 = Float32frombits (Float32bits: u32)

datatype float64 = Float64frombits (Float64bits: u64)

definition m_WriteFloat32 :: "SbeGoMarshaller \<Rightarrow> bytes \<Rightarrow> float32 \<Rightarrow> (bytes \<times> SbeGoMarshaller) option" where
  "m_WriteFloat32 m w v = (let u32 = Float32bits v in writeSlice (b4 m)
     [ucast u32, ucast (drop_bit 8 u32), ucast (drop_bit 16 u32), ucast (drop_bit 24 u32)] m w)"

definition m_WriteFloat64 :: "SbeGoMarshaller \<Rightarrow> bytes \<Rightarrow> float64 \<Rightarrow> (bytes \<times> SbeGoMarshaller) option" where
  "m_WriteFloat64 m w v = (let u64 = Float64bits v in writeSlice (b8 m)
     [ucast u64, ucast (drop_bit 8 u64), ucast (drop_bit 16 u64), ucast (drop_bit 24 u64),
      ucast (drop_bit 32 u64), ucast (drop_bit 40 u64), ucast (drop_bit 48 u64), ucast (drop_bit 56 u64)] m w)"

section \<open>Readers\<close>

text \<open>All readers fill a slice and assemble the value from the slice's bytes.\<close>

definition readSlice :: "slice \<Rightarrow> (bytes \<Rightarrow> 'v) \<Rightarrow> SbeGoMarshaller \<Rightarrow> bytes \<Rightarrow> (werror + 'v \<times> bytes) \<times> SbeGoMarshaller" where
  "readSlice s value m r = (case ReadFull s r m of
     (Inl e, m) \<Rightarrow> (Inl e, m)
   | (Inr r, m) \<Rightarrow> (Inr (value (view s m), r), m))"

definition join16 :: "bytes \<Rightarrow> 16 word" where
  "join16 b = ucast (b ! 0) OR push_bit 8 (ucast (b ! 1))"

definition join32 :: "bytes \<Rightarrow> 32 word" where
  "join32 b = ucast (b ! 0) OR push_bit 8 (ucast (b ! 1)) OR push_bit 16 (ucast (b ! 2)) OR push_bit 24 (ucast (b ! 3))"

definition join64 :: "bytes \<Rightarrow> 64 word" where
  "join64 b = ucast (b ! 0) OR push_bit 8 (ucast (b ! 1)) OR push_bit 16 (ucast (b ! 2)) OR push_bit 24 (ucast (b ! 3))
     OR push_bit 32 (ucast (b ! 4)) OR push_bit 40 (ucast (b ! 5)) OR push_bit 48 (ucast (b ! 6)) OR push_bit 56 (ucast (b ! 7))"

definition m_ReadUint8 :: "SbeGoMarshaller \<Rightarrow> bytes \<Rightarrow> (werror + u8 \<times> bytes) \<times> SbeGoMarshaller" where
  "m_ReadUint8 m r = readSlice (b1 m) (\<lambda>b. b ! 0) m r"

definition m_ReadUint16 :: "SbeGoMarshaller \<Rightarrow> bytes \<Rightarrow> (werror + u16 \<times> bytes) \<times> SbeGoMarshaller" where
  "m_ReadUint16 m r = readSlice (b2 m) join16 m r"

definition m_ReadUint32 :: "SbeGoMarshaller \<Rightarrow> bytes \<Rightarrow> (werror + u32 \<times> bytes) \<times> SbeGoMarshaller" where
  "m_ReadUint32 m r = readSlice (b4 m) join32 m r"

definition m_ReadUint64 :: "SbeGoMarshaller \<Rightarrow> bytes \<Rightarrow> (werror + u64 \<times> bytes) \<times> SbeGoMarshaller" where
  "m_ReadUint64 m r = readSlice (b8 m) join64 m r"

definition m_ReadInt8 :: "SbeGoMarshaller \<Rightarrow> bytes \<Rightarrow> (werror + i8 \<times> bytes) \<times> SbeGoMarshaller" where
  "m_ReadInt8 m r = readSlice (b1 m) (\<lambda>b. b ! 0) m r"

definition m_ReadInt16 :: "SbeGoMarshaller \<Rightarrow> bytes \<Rightarrow> (werror + i16 \<times> bytes) \<times> SbeGoMarshaller" where
  "m_ReadInt16 m r = readSlice (b2 m) join16 m r"

definition m_ReadInt32 :: "SbeGoMarshaller \<Rightarrow> bytes \<Rightarrow> (werror + i32 \<times> bytes) \<times> SbeGoMarshaller" where
  "m_ReadInt32 m r = readSlice (b4 m) join32 m r"

definition m_ReadInt64 :: "SbeGoMarshaller \<Rightarrow> bytes \<Rightarrow> (werror + i64 \<times> bytes) \<times> SbeGoMarshaller" where
  "m_ReadInt64 m r = readSlice (b8 m) join64 m r"

definition m_ReadFloat32 :: "SbeGoMarshaller \<Rightarrow> bytes \<Rightarrow> (werror + float32 \<times> bytes) \<times> SbeGoMarshaller" where
  "m_ReadFloat32 m r = readSlice (b4 m) (\<lambda>b. Float32frombits (join32 b)) m r"

definition m_ReadFloat64 :: "SbeGoMarshaller \<Rightarrow> bytes \<Rightarrow> (werror + float64 \<times> bytes) \<times> SbeGoMarshaller" where
  "m_ReadFloat64 m r = readSlice (b8 m) (\<lambda>b. Float64frombits (join64 b)) m r"

text \<open>The header methods of the marshaller.\<close>

definition m_SbeGoMessageHeader_Encode :: "SbeGoMessageHeader \<Rightarrow> SbeGoMarshaller \<Rightarrow> bytes \<Rightarrow> (bytes \<times> SbeGoMarshaller) option" where
  "m_SbeGoMessageHeader_Encode h m w = writeSlice (b8 m)
     [ucast (hdrBlockLength h), ucast (drop_bit 8 (hdrBlockLength h)),
      ucast (hdrTemplateId h), ucast (drop_bit 8 (hdrTemplateId h)),
      ucast (hdrSchemaId h), ucast (drop_bit 8 (hdrSchemaId h)),
      ucast (hdrVersion h), ucast (drop_bit 8 (hdrVersion h))] m w"

definition m_SbeGoMessageHeader_Decode ::
    "SbeGoMarshaller \<Rightarrow> bytes \<Rightarrow> (werror + SbeGoMessageHeader \<times> bytes) \<times> SbeGoMarshaller" where
  "m_SbeGoMessageHeader_Decode m r = readSlice (b8 m) (\<lambda>b.
     \<lparr>hdrBlockLength = ucast (b ! 0) OR push_bit 8 (ucast (b ! 1)),
      hdrTemplateId = ucast (b ! 2) OR push_bit 8 (ucast (b ! 3)),
      hdrSchemaId = ucast (b ! 4) OR push_bit 8 (ucast (b ! 5)),
      hdrVersion = ucast (b ! 6) OR push_bit 8 (ucast (b ! 7))\<rparr>) m r"

section \<open>The array carries nothing from call to call\<close>

text \<open>The slices all start at the array and have the lengths of their names.\<close>

definition wf_marshaller :: "SbeGoMarshaller \<Rightarrow> bool" where
  "wf_marshaller m \<longleftrightarrow> length (mem m) = 8 \<and> b8 m = (0, 8) \<and> b1 m = (0, 1) \<and> b2 m = (0, 2) \<and> b4 m = (0, 4)"

lemma wf_New: "wf_marshaller NewSbeGoMarshaller"
  by (simp add: wf_marshaller_def NewSbeGoMarshaller_def reslice_def Let_def)

lemma wf_mem: "wf_marshaller m \<Longrightarrow> length xs = 8 \<Longrightarrow> wf_marshaller (m\<lparr>mem := xs\<rparr>)"
  by (simp add: wf_marshaller_def)

lemma setBytes_mem:
  "i + length xs \<le> n \<Longrightarrow> n \<le> length (mem m) \<Longrightarrow>
   setBytes (0, n) i xs m = Some (m\<lparr>mem := take i (mem m) @ xs @ drop (i + length xs) (mem m)\<rparr>)"
proof (induction xs arbitrary: i m)
  case (Cons x xs)
  have "take (Suc i) ((mem m)[i := x]) = take i (mem m) @ [x]"
    using Cons.prems by (simp add: take_Suc_conv_app_nth)
  then show ?case using Cons by (simp add: setByte_def)
qed simp

lemma writeSlice_ok:
  assumes "wf_marshaller m" and "length xs = n" and "n \<le> 8"
  shows "\<exists>m'. writeSlice (0, n) xs m w = Some (w @ xs, m') \<and> wf_marshaller m'"
  using assms by (simp add: writeSlice_def setBytes_mem view_def wf_marshaller_def)

lemma readSlice_ok:
  assumes "wf_marshaller m" and "n \<le> 8"
  shows "fst (readSlice (0, n) value m r) = bindE (readFull n r) (\<lambda>(b, r). Inr (value b, r))"
    and "wf_marshaller (snd (readSlice (0, n) value m r))"
  using assms by (auto simp: readSlice_def ReadFull_def readFull_def copyInto_def view_def wf_marshaller_def split: if_splits)

text \<open>A method agrees with its array-free description on every marshaller, and leaves a marshaller.\<close>

definition writes_as :: "(SbeGoMarshaller \<Rightarrow> bytes \<Rightarrow> 'v \<Rightarrow> (bytes \<times> SbeGoMarshaller) option) \<Rightarrow> (bytes \<Rightarrow> 'v \<Rightarrow> bytes) \<Rightarrow> bool" where
  "writes_as mwrite write \<longleftrightarrow> (\<forall>m w v. wf_marshaller m \<longrightarrow> (\<exists>m'. mwrite m w v = Some (write w v, m') \<and> wf_marshaller m'))"

definition reads_as :: "(SbeGoMarshaller \<Rightarrow> bytes \<Rightarrow> (werror + 'v \<times> bytes) \<times> SbeGoMarshaller) \<Rightarrow> (bytes \<Rightarrow> werror + 'v \<times> bytes) \<Rightarrow> bool" where
  "reads_as mread read \<longleftrightarrow> (\<forall>m r. wf_marshaller m \<longrightarrow> fst (mread m r) = read r \<and> wf_marshaller (snd (mread m r)))"

text \<open>The interface of one scalar type of the wire: which slice it uses, its bytes, and how the value is put
  together from them.\<close>

locale scalar =
  fixes slice :: "SbeGoMarshaller \<Rightarrow> slice" and width :: nat
    and toBytes :: "'v \<Rightarrow> bytes" and fromBytes :: "bytes \<Rightarrow> 'v"
  assumes slice_width: "wf_marshaller m \<Longrightarrow> slice m = (0, width)" "width \<le> 8"
    and toBytes_length: "length (toBytes v) = width"
    and from_to: "fromBytes (toBytes v) = v"
begin

lemma writes: "writes_as (\<lambda>m w v. writeSlice (slice m) (toBytes v) m w) (\<lambda>w v. w @ toBytes v)"
  using writeSlice_ok slice_width toBytes_length by (simp add: writes_as_def)

lemma reads: "reads_as (\<lambda>m r. readSlice (slice m) fromBytes m r) (\<lambda>r. bindE (readFull width r) (\<lambda>(b, r). Inr (fromBytes b, r)))"
  by (simp add: reads_as_def slice_width readSlice_ok)

lemma read_back:
  assumes "wf_marshaller m" and "wf_marshaller m'" and "writeSlice (slice m) (toBytes v) m w = Some (w', m1)"
  shows "\<exists>bs. w' = w @ bs \<and> length bs = width \<and> fst (readSlice (slice m') fromBytes m' (bs @ r)) = Inr (v, r)"
proof -
  have "w' = w @ toBytes v"
    using writeSlice_ok [OF assms(1), of "toBytes v" width w] assms slice_width toBytes_length by auto
  moreover have "fst (readSlice (slice m') fromBytes m' (toBytes v @ r)) = Inr (v, r)"
    using readSlice_ok(1) [OF assms(2) slice_width(2), of fromBytes "toBytes v @ r"] slice_width(1) [OF assms(2)]
    by (simp add: readFull_append toBytes_length from_to)
  ultimately show ?thesis using toBytes_length by blast
qed

end

interpretation uint8: scalar b1 1 "\<lambda>v :: u8. [v]" "\<lambda>b. b ! 0"
  by unfold_locales (simp_all add: wf_marshaller_def)

interpretation uint16: scalar b2 2 "\<lambda>v :: u16. [ucast v, ucast (drop_bit 8 v)]" join16
  by unfold_locales (simp_all add: wf_marshaller_def join16_def bytes16)

interpretation uint32: scalar b4 4 "\<lambda>v :: u32. [ucast v, ucast (drop_bit 8 v), ucast (drop_bit 16 v), ucast (drop_bit 24 v)]" join32
  by unfold_locales (simp_all add: wf_marshaller_def join32_def bytes32)

interpretation uint64: scalar b8 8 "\<lambda>v :: u64. [ucast v, ucast (drop_bit 8 v), ucast (drop_bit 16 v), ucast (drop_bit 24 v),
    ucast (drop_bit 32 v), ucast (drop_bit 40 v), ucast (drop_bit 48 v), ucast (drop_bit 56 v)]" join64
  by unfold_locales (simp_all add: wf_marshaller_def join64_def bytes64)

interpretation int16: scalar b2 2 "\<lambda>v :: i16. [ucast v, ucast (signed_drop_bit 8 v)]" join16
  by unfold_locales (simp_all add: wf_marshaller_def join16_def bytes16 byte_signed)

interpretation int32: scalar b4 4 "\<lambda>v :: i32. [ucast v, ucast (signed_drop_bit 8 v), ucast (signed_drop_bit 16 v),
    ucast (signed_drop_bit 24 v)]" join32
  by unfold_locales (simp_all add: wf_marshaller_def join32_def bytes32 byte_signed)

interpretation int64: scalar b8 8 "\<lambda>v :: i64. [ucast v, ucast (signed_drop_bit 8 v), ucast (signed_drop_bit 16 v),
    ucast (signed_drop_bit 24 v), ucast (signed_drop_bit 32 v), ucast (signed_drop_bit 40 v), ucast (signed_drop_bit 48 v),
    ucast (signed_drop_bit 56 v)]" join64
  by unfold_locales (simp_all add: wf_marshaller_def join64_def bytes64 byte_signed)

interpretation float32: scalar b4 4 "\<lambda>v. [ucast (Float32bits v), ucast (drop_bit 8 (Float32bits v)),
    ucast (drop_bit 16 (Float32bits v)), ucast (drop_bit 24 (Float32bits v))]" "\<lambda>b. Float32frombits (join32 b)"
  by unfold_locales (simp_all add: wf_marshaller_def join32_def bytes32)

interpretation float64: scalar b8 8 "\<lambda>v. [ucast (Float64bits v), ucast (drop_bit 8 (Float64bits v)),
    ucast (drop_bit 16 (Float64bits v)), ucast (drop_bit 24 (Float64bits v)), ucast (drop_bit 32 (Float64bits v)),
    ucast (drop_bit 40 (Float64bits v)), ucast (drop_bit 48 (Float64bits v)), ucast (drop_bit 56 (Float64bits v))]"
    "\<lambda>b. Float64frombits (join64 b)"
  by unfold_locales (simp_all add: wf_marshaller_def join64_def bytes64)

text \<open>The header methods, on the same array.\<close>

lemma header_slice: "wf_marshaller m \<Longrightarrow> b8 m = (0, 8)"
  by (simp add: wf_marshaller_def)

lemma header_writes: "writes_as (\<lambda>m w h. m_SbeGoMessageHeader_Encode h m w) (\<lambda>w h. SbeGoMessageHeader_Encode h w)"
  unfolding writes_as_def m_SbeGoMessageHeader_Encode_def SbeGoMessageHeader_Encode_def
  by (intro allI impI, subst header_slice, assumption) (rule writeSlice_ok; simp)

lemma header_reads: "reads_as m_SbeGoMessageHeader_Decode SbeGoMessageHeader_Decode"
  unfolding reads_as_def m_SbeGoMessageHeader_Decode_def SbeGoMessageHeader_Decode_def
  by (simp add: header_slice readSlice_ok)

section \<open>Properties\<close>

text \<open>C28 (equivalence). The marshaller's temporary buffer is invisible: whatever earlier calls, also failed
  reads, have left in the eight bytes that its four slices share, every reader and writer and both header
  methods return exactly what the description without a buffer returns, no index is out of range, and the
  slices stay intact.\<close>

theorem scratch_buffer_invisible:
  "writes_as m_WriteUint8 WriteUint8 \<and> writes_as m_WriteUint16 WriteUint16 \<and> writes_as m_WriteUint32 WriteUint32
   \<and> writes_as m_WriteUint64 WriteUint64 \<and> writes_as m_WriteInt8 WriteInt8 \<and> writes_as m_WriteInt16 WriteInt16
   \<and> writes_as m_WriteInt32 WriteInt32 \<and> writes_as m_WriteInt64 WriteInt64
   \<and> reads_as m_ReadUint8 ReadUint8 \<and> reads_as m_ReadUint16 ReadUint16 \<and> reads_as m_ReadUint32 ReadUint32
   \<and> reads_as m_ReadUint64 ReadUint64 \<and> reads_as m_ReadInt8 ReadInt8 \<and> reads_as m_ReadInt16 ReadInt16
   \<and> reads_as m_ReadInt32 ReadInt32 \<and> reads_as m_ReadInt64 ReadInt64
   \<and> writes_as (\<lambda>m w h. m_SbeGoMessageHeader_Encode h m w) (\<lambda>w h. SbeGoMessageHeader_Encode h w)
   \<and> reads_as m_SbeGoMessageHeader_Decode SbeGoMessageHeader_Decode \<and> wf_marshaller NewSbeGoMarshaller"
proof (intro conjI header_writes header_reads wf_New)
  show "writes_as m_WriteUint8 WriteUint8" "writes_as m_WriteInt8 WriteInt8"
    unfolding m_WriteUint8_def m_WriteInt8_def WriteUint8_def WriteInt8_def by (rule uint8.writes)+
  show "writes_as m_WriteUint16 WriteUint16" unfolding m_WriteUint16_def WriteUint16_def by (rule uint16.writes)+
  show "writes_as m_WriteUint32 WriteUint32" unfolding m_WriteUint32_def WriteUint32_def by (rule uint32.writes)+
  show "writes_as m_WriteUint64 WriteUint64" unfolding m_WriteUint64_def WriteUint64_def by (rule uint64.writes)+
  show "writes_as m_WriteInt16 WriteInt16" unfolding m_WriteInt16_def WriteInt16_def by (rule int16.writes)+
  show "writes_as m_WriteInt32 WriteInt32" unfolding m_WriteInt32_def WriteInt32_def by (rule int32.writes)+
  show "writes_as m_WriteInt64 WriteInt64" unfolding m_WriteInt64_def WriteInt64_def by (rule int64.writes)+
  show "reads_as m_ReadUint8 ReadUint8" "reads_as m_ReadInt8 ReadInt8"
    unfolding m_ReadUint8_def m_ReadInt8_def ReadUint8_def ReadInt8_def by (rule uint8.reads)+
  show "reads_as m_ReadUint16 ReadUint16" "reads_as m_ReadInt16 ReadInt16"
    unfolding m_ReadUint16_def m_ReadInt16_def ReadUint16_def ReadInt16_def join16_def by (rule uint16.reads [unfolded join16_def])+
  show "reads_as m_ReadUint32 ReadUint32" "reads_as m_ReadInt32 ReadInt32"
    unfolding m_ReadUint32_def m_ReadInt32_def ReadUint32_def ReadInt32_def join32_def by (rule uint32.reads [unfolded join32_def])+
  show "reads_as m_ReadUint64 ReadUint64" "reads_as m_ReadInt64 ReadInt64"
    unfolding m_ReadUint64_def m_ReadInt64_def ReadUint64_def ReadInt64_def join64_def by (rule uint64.reads [unfolded join64_def])+
qed

text \<open>Floats survive the wire bit for bit, NaN payloads and signed zeros included: what one
  marshaller writes for a \<open>float32\<close> or \<open>float64\<close>, any other reads back, and the input after it is left.\<close>

lemma floats_roundtrip:
  assumes "wf_marshaller m" and "wf_marshaller m'"
  shows "(\<exists>bs m1. m_WriteFloat32 m w x = Some (w @ bs, m1) \<and> length bs = 4 \<and> fst (m_ReadFloat32 m' (bs @ r)) = Inr (x, r))
    \<and> (\<exists>bs m1. m_WriteFloat64 m w y = Some (w @ bs, m1) \<and> length bs = 8 \<and> fst (m_ReadFloat64 m' (bs @ r)) = Inr (y, r))"
proof
  obtain w1 m1 where w1: "m_WriteFloat32 m w x = Some (w1, m1)"
    using float32.writes assms(1) unfolding writes_as_def m_WriteFloat32_def Let_def by blast
  with float32.read_back [OF assms w1 [unfolded m_WriteFloat32_def Let_def], of r]
  show "\<exists>bs m1. m_WriteFloat32 m w x = Some (w @ bs, m1) \<and> length bs = 4 \<and> fst (m_ReadFloat32 m' (bs @ r)) = Inr (x, r)"
    unfolding m_ReadFloat32_def by blast
  obtain w2 m2 where w2: "m_WriteFloat64 m w y = Some (w2, m2)"
    using float64.writes assms(1) unfolding writes_as_def m_WriteFloat64_def Let_def by blast
  with float64.read_back [OF assms w2 [unfolded m_WriteFloat64_def Let_def], of r]
  show "\<exists>bs m1. m_WriteFloat64 m w y = Some (w @ bs, m1) \<and> length bs = 8 \<and> fst (m_ReadFloat64 m' (bs @ r)) = Inr (y, r)"
    unfolding m_ReadFloat64_def by blast
qed

end
