(* ===== verification/Wire_Guarantees.thy ===== *)
theory Wire_Guarantees
  imports Encoding
begin

text \<open>
  The guarantees of the wire formats, for the five messages and the two forms of the header. The laws are
  named once for an encoder and a decoder and proved in the locale of SBE messages.
\<close>

text \<open>What an encoder appends is one block, and the decoder of the same version reads the message back and
  leaves the rest of the input.\<close>

definition round_trips :: "('m \<Rightarrow> bool \<Rightarrow> bytes \<Rightarrow> werror + bytes) \<Rightarrow>
    ('m \<Rightarrow> u16 \<Rightarrow> u16 \<Rightarrow> bool \<Rightarrow> bytes \<Rightarrow> werror + 'm \<times> bytes) \<Rightarrow> sbeMeta \<Rightarrow> bool" where
  "round_trips enc dec meta \<longleftrightarrow> (\<forall>m c w w'. enc m c w = Inr w' \<longrightarrow>
     (\<exists>bs. w' = w @ bs \<and> length bs = unat (SbeBlockLength meta)
       \<and> (\<forall>z bl r. dec z (SbeSchemaVersion meta) bl c (bs @ r) = Inr (m, r))))"

text \<open>Only the bytes the encoder would write decode, and a block that is too short does not.\<close>

definition canonical :: "('m \<Rightarrow> bool \<Rightarrow> bytes \<Rightarrow> werror + bytes) \<Rightarrow>
    ('m \<Rightarrow> u16 \<Rightarrow> u16 \<Rightarrow> bool \<Rightarrow> bytes \<Rightarrow> werror + 'm \<times> bytes) \<Rightarrow> sbeMeta \<Rightarrow> bool" where
  "canonical enc dec meta \<longleftrightarrow> (\<forall>z v bl c r m r'. dec z v bl c r = Inr (m, r') \<longrightarrow>
     unat (SbeBlockLength meta) \<le> length r \<and> enc m False [] = Inr (take (unat (SbeBlockLength meta)) r))"

text \<open>A newer version of the schema may append fields to the block: they are skipped.\<close>

definition skips_extension :: "('m \<Rightarrow> bool \<Rightarrow> bytes \<Rightarrow> werror + bytes) \<Rightarrow>
    ('m \<Rightarrow> u16 \<Rightarrow> u16 \<Rightarrow> bool \<Rightarrow> bytes \<Rightarrow> werror + 'm \<times> bytes) \<Rightarrow> sbeMeta \<Rightarrow> bool" where
  "skips_extension enc dec meta \<longleftrightarrow> (\<forall>m bs ext v bl z c r. enc m True [] = Inr bs \<longrightarrow> SbeSchemaVersion meta < v \<longrightarrow>
     unat bl = unat (SbeBlockLength meta) + length ext \<longrightarrow> dec z v bl c (bs @ ext @ r) = Inr (m, r))"

context sbe_message
begin

lemma round_trips: "round_trips Encode Decode meta"
  unfolding round_trips_def
proof (intro allI impI)
  fix m c w w'
  assume e: "Encode m c w = Inr w'"
  then have w': "w' = w @ body m" by (auto simp: encode bindE_Inr_iff)
  show "\<exists>bs. w' = w @ bs \<and> length bs = unat (SbeBlockLength meta)
      \<and> (\<forall>z bl r. Decode z (SbeSchemaVersion meta) bl c (bs @ r) = Inr (m, r))"
    using w' body_length roundtrip(2) [OF e [unfolded w']] by blast
qed

lemma canonical: "canonical Encode Decode meta"
  unfolding canonical_def
proof (intro allI impI conjI)
  fix z v bl c r m r'
  assume d: "Decode z v bl c r = Inr (m, r')"
  show "unat (SbeBlockLength meta) \<le> length r" by (rule decode_canonical(2) [OF d])
  show "Encode m False [] = Inr (take (unat (SbeBlockLength meta)) r)"
    by (simp add: encode decode_canonical(1) [OF d])
qed

end

text \<open>A range check that a message passes at the schema's version it passes at a newer one.\<close>

locale sbe_message_extensible = sbe_message +
  assumes newer_check: "isOk (RangeCheck m (SbeSchemaVersion meta) (SbeSchemaVersion meta)) \<Longrightarrow>
    SbeSchemaVersion meta < v \<Longrightarrow> isOk (RangeCheck m v (SbeSchemaVersion meta))"
begin

lemma skips_extension: "skips_extension Encode Decode meta"
  unfolding skips_extension_def
proof (intro allI impI)
  fix m z c and bs ext r :: bytes and v bl :: u16
  assume e: "Encode m True [] = Inr bs" and v: "SbeSchemaVersion meta < v"
    and bl: "unat bl = unat (SbeBlockLength meta) + length ext"
  have "bs = body m" using e by (auto simp: encode bindE_Inr_iff)
  moreover have "isOk (RangeCheck m v (SbeSchemaVersion meta))"
    using newer_check [OF _ v] encode_ok [of m "[]"] e by simp
  ultimately show "Decode z v bl c (bs @ ext @ r) = Inr (m, r)" using decode_newer [OF v bl] by simp
qed

end

lemma newer_enums:
  "sv < v \<Longrightarrow> isOk (SideEnum_RangeCheck x v sv)" "sv < v \<Longrightarrow> isOk (OrderStatusEnum_RangeCheck st v sv)"
  "sv < v \<Longrightarrow> isOk (RejectReasonEnum_RangeCheck rr v sv)"
  by (simp_all add: SideEnum_RangeCheck_def OrderStatusEnum_RangeCheck_def RejectReasonEnum_RangeCheck_def)

interpretation no_ext: sbe_message_extensible NewOrder_Encode NewOrder_Decode NewOrder_RangeCheck
    NewOrder_meta NewOrder_body NewOrder_parse
  by unfold_locales (unfold NewOrder_RangeCheck_def isOk_bindE, auto simp: newer_enums)

interpretation co_ext: sbe_message_extensible CancelOrder_Encode CancelOrder_Decode CancelOrder_RangeCheck
    CancelOrder_meta CancelOrder_body CancelOrder_parse
  by unfold_locales (unfold CancelOrder_RangeCheck_def isOk_bindE, auto simp: newer_enums)

interpretation er_ext: sbe_message_extensible ExecutionReport_Encode ExecutionReport_Decode ExecutionReport_RangeCheck
    ExecutionReport_meta ExecutionReport_body ExecutionReport_parse
  by unfold_locales (unfold ExecutionReport_RangeCheck_def isOk_bindE, auto simp: newer_enums)

interpretation te_ext: sbe_message_extensible TradeEvent_Encode TradeEvent_Decode TradeEvent_RangeCheck
    TradeEvent_meta TradeEvent_body TradeEvent_parse
  by unfold_locales (unfold TradeEvent_RangeCheck_def isOk_bindE, auto simp: newer_enums)

interpretation bu_ext: sbe_message_extensible BookUpdate_Encode BookUpdate_Decode BookUpdate_RangeCheck
    BookUpdate_meta BookUpdate_body BookUpdate_parse
  by unfold_locales (unfold BookUpdate_RangeCheck_def isOk_bindE, auto simp: newer_enums)

text \<open>The two header codecs, seen through the same record.\<close>

definition goHeader :: "MessageHeader \<Rightarrow> SbeGoMessageHeader" where
  "goHeader h = \<lparr>hdrBlockLength = mh_BlockLength h, hdrTemplateId = mh_TemplateId h, hdrSchemaId = mh_SchemaId h,
     hdrVersion = mh_Version h\<rparr>"

lemma headers_same: "SbeGoMessageHeader_Encode (goHeader h) w = MessageHeader_Encode h w"
  by (simp add: SbeGoMessageHeader_Encode_def MessageHeader_Encode_def goHeader_def WriteUint16_def Let_def)

section \<open>Properties\<close>

text \<open>C21 (roundtrip). For each of the five messages, what the encoder appends to its output is one block of
  the declared length, and the decoder reads the same message back from it, with or without the range
  check, and leaves the bytes that follow.\<close>

theorem messages_roundtrip:
  "round_trips NewOrder_Encode NewOrder_Decode NewOrder_meta
   \<and> round_trips CancelOrder_Encode CancelOrder_Decode CancelOrder_meta
   \<and> round_trips ExecutionReport_Encode ExecutionReport_Decode ExecutionReport_meta
   \<and> round_trips TradeEvent_Encode TradeEvent_Decode TradeEvent_meta
   \<and> round_trips BookUpdate_Encode BookUpdate_Decode BookUpdate_meta"
  by (intro conjI no_codec.round_trips co_codec.round_trips er_codec.round_trips te_codec.round_trips bu_codec.round_trips)

text \<open>C26 (error). For each of the five messages, whatever decodes is at least one block long and is the
  encoding of the decoded message: no bytes decode by accident, and a short block is refused.\<close>

theorem messages_canonical:
  "canonical NewOrder_Encode NewOrder_Decode NewOrder_meta
   \<and> canonical CancelOrder_Encode CancelOrder_Decode CancelOrder_meta
   \<and> canonical ExecutionReport_Encode ExecutionReport_Decode ExecutionReport_meta
   \<and> canonical TradeEvent_Encode TradeEvent_Decode TradeEvent_meta
   \<and> canonical BookUpdate_Encode BookUpdate_Decode BookUpdate_meta"
  by (intro conjI no_codec.canonical co_codec.canonical er_codec.canonical te_codec.canonical bu_codec.canonical)

text \<open>C27 (equivalence). Forward compatibility: a block that a newer schema has extended decodes to the same
  message, with the extension skipped and the bytes after the block left alone.\<close>

theorem newer_blocks_decode:
  "skips_extension NewOrder_Encode NewOrder_Decode NewOrder_meta
   \<and> skips_extension CancelOrder_Encode CancelOrder_Decode CancelOrder_meta
   \<and> skips_extension ExecutionReport_Encode ExecutionReport_Decode ExecutionReport_meta
   \<and> skips_extension TradeEvent_Encode TradeEvent_Decode TradeEvent_meta
   \<and> skips_extension BookUpdate_Encode BookUpdate_Decode BookUpdate_meta"
  by (intro conjI no_ext.skips_extension co_ext.skips_extension er_ext.skips_extension te_ext.skips_extension
      bu_ext.skips_extension)

text \<open>The header of the marshalling layer and the header of the message schema are the same
  eight bytes, each decoder reads back what either encoder wrote, and seven bytes or fewer are refused.\<close>

lemma headers_interchangeable:
  "SbeGoMessageHeader_Encode (goHeader h) w = MessageHeader_Encode h w
   \<and> MessageHeader_Decode v (MessageHeader_Encode h [] @ r) = Inr (h, r)
   \<and> SbeGoMessageHeader_Decode (MessageHeader_Encode h [] @ r) = Inr (goHeader h, r)
   \<and> \<not> isOk (SbeGoMessageHeader_Decode (take 7 q)) \<and> \<not> isOk (MessageHeader_Decode v (take 7 q))"
proof (intro conjI)
  show "SbeGoMessageHeader_Encode (goHeader h) w = MessageHeader_Encode h w" by (rule headers_same)
  show "MessageHeader_Decode v (MessageHeader_Encode h [] @ r) = Inr (h, r)" by (rule MessageHeader_roundtrip)
  have "SbeGoMessageHeader_Decode (SbeGoMessageHeader_Encode g [] @ r) = Inr (g, r)" for g
    by (cases g) (simp add: SbeGoMessageHeader_Encode_def SbeGoMessageHeader_Decode_def readFull_def bytes16)
  then show "SbeGoMessageHeader_Decode (MessageHeader_Encode h [] @ r) = Inr (goHeader h, r)"
    unfolding headers_same [symmetric] .
  show "\<not> isOk (SbeGoMessageHeader_Decode (take 7 q))" by (simp add: SbeGoMessageHeader_Decode_def readFull_def)
  show "\<not> isOk (MessageHeader_Decode v (take 7 q))"
    by (simp add: MessageHeader_Decode_def ReadUint16_def readFull_def)
qed

text \<open>C29 (bounds). Encoding fails exactly on the null values: for each message, the encoder with the range
  check succeeds if and only if no 64-bit field is the least \<open>int64\<close> and every enumeration has a value of
  the schema or its null value.\<close>

theorem encodable_iff:
  "(isOk (NewOrder_Encode n True w) \<longleftrightarrow> no_ClientOrderId n \<noteq> minInt64 \<and> no_Side n \<in> {0, 1, -128}
      \<and> no_Price n \<noteq> minInt64 \<and> no_Qty n \<noteq> minInt64)
   \<and> (isOk (CancelOrder_Encode k True w) \<longleftrightarrow> co_OrderId k \<noteq> minInt64)
   \<and> (isOk (ExecutionReport_Encode e True w) \<longleftrightarrow> er_OrderId e \<noteq> minInt64 \<and> er_ClientOrderId e \<noteq> minInt64
      \<and> er_Status e \<in> {0, 1, 2, 3, 4, -128} \<and> er_Reason e \<in> {0, 1, 2, 3, 4, -128} \<and> er_Side e \<in> {0, 1, -128}
      \<and> er_Price e \<noteq> minInt64 \<and> er_Qty e \<noteq> minInt64 \<and> er_RemainingQty e \<noteq> minInt64 \<and> er_Timestamp e \<noteq> minInt64)
   \<and> (isOk (TradeEvent_Encode t True w) \<longleftrightarrow> te_Price t \<noteq> minInt64 \<and> te_Qty t \<noteq> minInt64
      \<and> te_MakerOrderId t \<noteq> minInt64 \<and> te_TakerOrderId t \<noteq> minInt64 \<and> te_Timestamp t \<noteq> minInt64)
   \<and> (isOk (BookUpdate_Encode u True w) \<longleftrightarrow> bu_Side u \<in> {0, 1, -128} \<and> bu_Price u \<noteq> minInt64
      \<and> bu_AggregateQty u \<noteq> minInt64 \<and> bu_Timestamp u \<noteq> minInt64)"
proof -
  have s: "isOk (OrderStatusEnum_RangeCheck st v v) \<longleftrightarrow> st \<in> {0, 1, 2, 3, 4, -128}" for st v
    by (auto simp: OrderStatusEnum_RangeCheck_def OrderStatus_values_def)
  have r: "isOk (RejectReasonEnum_RangeCheck st v v) \<longleftrightarrow> st \<in> {0, 1, 2, 3, 4, -128}" for st v
    by (auto simp: RejectReasonEnum_RangeCheck_def RejectReason_values_def)
  show ?thesis
    unfolding no_codec.encode_ok co_codec.encode_ok er_codec.encode_ok te_codec.encode_ok bu_codec.encode_ok
      NewOrder_RangeCheck_def CancelOrder_RangeCheck_def ExecutionReport_RangeCheck_def TradeEvent_RangeCheck_def
      BookUpdate_RangeCheck_def isOk_bindE SideEnum_RangeCheck_iff s r
    by (auto simp: isOk_if sideKnown_def)
qed

end
