(* ===== verification/Spec2Isabelle.thy ===== *)
theory Spec2Isabelle
  imports Limits Loadgen Driver Runner Engine_Main Marshaller Wire_Guarantees
begin

text \<open>
  \<^bold>\<open>gomatch: a replicated limit order book.\<close>

  \<^bold>\<open>The program.\<close> The Go sources under \<open>src/go\<close> implement a single-instrument limit order book with
  price-time priority that runs as an Aeron Cluster service. A client (\<open>client/client.go\<close>) frames a \<open>NewOrder\<close>
  or \<open>CancelOrder\<close> message (\<open>protocol/codecs\<close>) and offers it to the cluster. Every replica's service
  (\<open>service/service.go\<close>) decodes the frame, runs the engine (\<open>engine/order_book.go\<close>), encodes the engine's
  events (\<open>service/encoding.go\<close>) and offers them to the sessions concerned: execution reports to the owner,
  trades and book updates to everybody. The client's egress adapter (\<open>client/egress.go\<close>) decodes them into
  listener callbacks. The service writes the book to a snapshot (\<open>engine/snapshot.go\<close>) and restores it at
  start. \<open>cmd/engine\<close> runs the service in Aeron's agent, \<open>cmd/loadgen\<close> generates load and measures latencies,
  \<open>systest\<close> holds the harness that launches Java drivers and an engine for the integration tests.

  \<^bold>\<open>Conventions.\<close> A Go \<open>intN\<close> or \<open>uintN\<close> is an \<open>N word\<close>, with wrapping arithmetic and the signed comparisons
  \<open><s\<close> and \<open>\<le>s\<close>. Errors are values of a sum type. \<open>None\<close> of an option is a Go panic or a loop that does not
  end; where the code cannot do either, that is a theorem. Aeron is not part of the sources and is a
  parameter: buffer accessors (\<open>bufferApi\<close>, with \<open>frameAt\<close> for what is relied on), the results of successive
  offers (\<open>aeronEnv\<close>, with \<open>fair\<close> for offers that do not stay retriable for ever), the polls of a snapshot image
  (\<open>imageApi\<close>), the cluster client with the egress events each poll hands over, and the clock (\<open>clientEnv\<close>, with
  \<open>ticking\<close>). The operating system is one too: \<open>osEnv\<close> for the harness, \<open>mainEnv\<close> for the engine command. Goroutines
  that share memory and channels are step relations, one rule per statement, in any interleaving.

  \<^bold>\<open>Theories and what they model.\<close>
  \<^item> \<open>Prelude\<close>: integers, signed order, lists, results with errors, the locale \<open>retry_loop\<close> of the loops that
    try again until an attempt ends them, and the locale \<open>converging\<close> of the transition systems whose steps
    lower a rank.
  \<^item> \<open>Events\<close>, \<open>Order_Book\<close>: \<open>engine/events.go\<close> and \<open>engine/order_book.go\<close>. The pointer structure is kept: two stores
    (orders, price levels), pointers as addresses, FIFOs as doubly linked lists, sides as slices of level
    pointers searched by the binary search \<open>levelIndex\<close>, and the map of resting orders. \<open>NewLimitOrder\<close>,
    \<open>match\<close>, \<open>restOrder\<close>, \<open>unlink\<close>, \<open>Cancel\<close> follow the source statement by statement.
  \<^item> \<open>Book_Shape\<close>: the representation invariant \<open>shape\<close> of the pointer structure, the contract of the search as
    the locale \<open>price_index\<close>, and what unlinking and resting do to the shape.
  \<^item> \<open>Price_Time\<close>: the abstract specification: each side one list in priority order.
  \<^item> \<open>Book_Refines\<close>, \<open>Engine_Refines\<close>, \<open>Engine\<close>: the simulation between the two, operation by operation, and the
    locale \<open>book_simulation\<close> for runs of commands, interpreted on the pointer-based book.
  \<^item> \<open>Market\<close>, \<open>Guarantees\<close>: conservation, priority, uncrossed book, market data, cancellation, structure and
    totality for the reachable books (\<open>reach\<close>); binary search against linear scan.
  \<^item> \<open>Wire\<close>, \<open>Codec_Types\<close>, \<open>Codecs\<close>: \<open>SbeMarshalling.go\<close>, the enumerations, the header and the five messages,
    with the locale \<open>sbe_message\<close> interpreted once per message. \<open>Wire_Guarantees\<close>: round trips, canonical
    encoding, forward compatibility, and exactly when encoding fails. \<open>Marshaller\<close>: \<open>SbeGoMarshaller\<close> with its
    eight bytes of scratch memory and the four slices that share them, every reader and writer including the
    floats, and the proof, over the locale \<open>scalar\<close>, that the memory does not show.
  \<^item> \<open>Snapshot\<close>: \<open>engine/snapshot.go\<close>, byte layout, restore, truncation.
  \<^item> \<open>Encoding\<close>, \<open>Service\<close>: \<open>service/encoding.go\<close> and \<open>service/service.go\<close>. The log \<open>svcLog\<close> records what was offered to
    which session. The notifications without effect (timer, role change, termination, leadership term) are
    inputs of the service like the others.
  \<^item> \<open>Delivery\<close>: the retry loop and what routing sends. \<open>Sendable\<close>: which events pass their range check.
    \<open>Ingress\<close>: which command the bytes of a frame carry. \<open>Service_Refines\<close>: the abstract service and the
    simulation, over the generic locale \<open>io_simulation\<close>. \<open>Handover\<close>: snapshot chunks, publication and replay.
    \<open>Service_Guarantees\<close>: the service's properties. \<open>Limits\<close>: the inputs on which the service panics or trades
    without a limit.
  \<^item> \<open>Client\<close>: \<open>client/client.go\<close> and \<open>client/egress.go\<close>, with the polls inside the retry loops and what the listener
    has heard from them.
  \<^item> \<open>Loadgen\<close>: \<open>cmd/loadgen/main.go\<close>, the run of \<open>main\<close> from the flags to the report, with the collector's mutex.
    \<open>Percentile\<close>: its \<open>pct\<close>, with float64 products rounded to 53 bits, against the exact ranks.
  \<^item> \<open>Engine_Main\<close>: \<open>cmd/engine/main.go\<close>.
  \<^item> \<open>Systest\<close>: ports, directories, command lines and launch errors of \<open>systest/harness.go\<close>. \<open>Driver\<close>: the driver
    process, the goroutine that waits for it, and launch, \<open>Shutdown\<close> and \<open>Stop\<close>, with a \<open>Kill\<close> that may fail.
    \<open>Runner\<close>: \<open>startEngine\<close>, its goroutine and \<open>shutdown\<close>, over an agent whose calls may hang.
  \<^item> This theory: properties of the whole path, from a client's call to the engine and from the engine's
    events to the listeners.

  \<^bold>\<open>Bounds.\<close> Order ids are 64-bit and never reused, so the engine theorems ask for a next id below
  \<open>2 ^ 63 - 1\<close>. The engine does not bound quantities: level totals wrap, and the theorems on the service ask
  for an open quantity below \<open>2 ^ 63\<close>; \<open>Limits\<close> shows the panic beyond it. The engine does not validate the
  side either: what is said of limits, of an uncrossed book and of market data asks for orders that name
  \<open>Buy\<close> or \<open>Sell\<close>. The count of orders in a snapshot is an \<open>int32\<close>. There is no fuel: loops that might not end are partial functions and their termination is
  proved (\<open>match\<close> on well-formed books, \<open>offer\<close> under fairness, the loops of the client and of the load
  generator under a moving clock). The percentiles are proved for up to \<open>2 ^ 53 / 1000\<close> samples, where the
  count is exact in a float64.

  \<^bold>\<open>Not modelled.\<close> Log output; the error results of writers, which are \<open>bytes.Buffer\<close>s everywhere and cannot fail;
  idle strategies and sleeps, which only wait; the text of the command-line parser; the orders-per-second
  quotient that the load generator prints; what the Java processes started by
  the harness do, and the output of \<open>ClusterTool\<close>. The Java port under \<open>src/java\<close>, the deployment scripts under
  \<open>src/bench-infra\<close> and the tests are outside the development.
\<close>

section \<open>From the client to the engine and back\<close>

text \<open>The frames a session got in a stretch of the log, and the callbacks they cause.\<close>

definition framesFor :: "ClientSession \<Rightarrow> (ClientSession \<times> bytes) list \<Rightarrow> bytes list" where
  "framesFor j ds = map snd (filter (\<lambda>(i, f). i = j) ds)"

lemma framesFor_concat: "framesFor j (concat dss) = concat (map (framesFor j) dss)"
  by (induction dss) (simp_all add: framesFor_def)

lemma framesFor_audience:
  assumes "distinct ids"
  shows "framesFor j (map (\<lambda>i. (i, f)) (audience ids ev)) = (if j \<in> set (audience ids ev) then [f] else [])"
proof -
  have "distinct (audience ids ev)" using assms by (simp add: audience_def)
  then have "map snd (filter (\<lambda>(i, f). i = j) (map (\<lambda>i. (i, f)) xs)) = (if j \<in> set xs then [f] else [])"
    if "distinct xs" for xs using that by (induction xs) auto
  then show ?thesis using \<open>distinct (audience ids ev)\<close> unfolding framesFor_def by blast
qed

lemma deliveries_callbacks:
  assumes "distinct ids" and "\<forall>ev \<in> set es. isOk (frameOf ts ev)"
  shows "map callbackIn (framesFor j (concat (map (\<lambda>ev. map (\<lambda>i. (i, projr (frameOf ts ev))) (audience ids ev)) es)))
    = map (\<lambda>ev. Some (callbackOf ts ev)) (filter (\<lambda>ev. j \<in> set (audience ids ev)) es)"
  using assms(2)
proof (induction es)
  case Nil
  show ?case by (simp add: framesFor_def)
next
  case (Cons ev es)
  then obtain f where f: "frameOf ts ev = Inr f" by (auto simp: isOk_iff)
  have "framesFor j (xs @ ys) = framesFor j xs @ framesFor j ys" for xs ys by (simp add: framesFor_def)
  then show ?case using Cons frame_callback [OF f] framesFor_audience [OF assms(1), of j f ev] f by simp
qed

text \<open>Facts on the example client.\<close>

lemma demo_client_facts: "ticking demo_clientEnv" "\<forall>k. 0 \<le>s acOffer demo_clientEnv k" "cliSent demo_client = []"
  by (rule demo_clientEnv_ticking) (simp_all add: demo_clientEnv_def demo_client_def signed_ord)

lemma demo_serves: "serves (OnSessionOpen 7 100 NewMatchingService) (fst spec_start, [7])"
  using serves_start sessions_ok_open [OF sessions_ok_start, of 7 100]
  by (simp add: serves_def spec_start_def OnSessionOpen_def NewMatchingService_def)

text \<open>Cancelling, as \<open>submit_reaches_engine\<close> below: \<open>CancelOrder\<close> returns, success means one frame taken, and a service
  that is handed it runs \<open>Cancel\<close> on this order id for the session.\<close>

lemma cancel_reaches_engine:
  assumes "ticking env"
  shows "\<exists>r c'. SubmitCancel env k c = Some (r, c') \<and> (case r of
      Inr u \<Rightarrow> \<exists>f. cliSent c' = cliSent c @ [f] \<and> (\<forall>(api :: bytes bufferApi) buf off len senv session ts s. frameAt api buf off len f \<longrightarrow>
        OnSessionMessage api senv session ts buf off len s = do {
          (events, book) \<leftarrow> Cancel k session (svcBook s);
          route senv events ts (s\<lparr>svcBook := book\<rparr>)
        })
    | Inl (EncodeError e) \<Rightarrow> c' = c \<and> k = minInt64
    | Inl e \<Rightarrow> e = TimedOutOffering \<and> cliSent c' = cliSent c)"
proof -
  let ?m = "\<lparr>co_OrderId = k\<rparr>"
  obtain r c' where r: "SubmitCancel env k c = Some (r, c')" "case r of
      Inr u \<Rightarrow> \<exists>f. encodeFrame (CancelOrder_msg ?m) = Inr f \<and> cliSent c' = cliSent c @ [f]
    | Inl (EncodeError e) \<Rightarrow> encodeFrame (CancelOrder_msg ?m) = Inl e \<and> c' = c
    | Inl e \<Rightarrow> e = TimedOutOffering \<and> isOk (encodeFrame (CancelOrder_msg ?m)) \<and> cliSent c' = cliSent c"
    using clientOffer_returns [OF assms, of "CancelOrder_msg ?m" c] unfolding SubmitCancel_def by blast
  have "OnSessionMessage api senv session ts buf off len s = do {
      (events, book) \<leftarrow> Cancel k session (svcBook s);
      route senv events ts (s\<lparr>svcBook := book\<rparr>)}"
    if "encodeFrame (CancelOrder_msg ?m) = Inr f" "frameAt api buf off len f"
    for f senv session ts s buf off len and api :: "bytes bufferApi"
    using commandOf_CancelOrder [OF that(1), of session] by (simp add: OnSessionMessage_frame [OF that(2)])
  with r encodeCancelOrder_ok [of ?m] show ?thesis
    by (cases r) (force split: clientError.splits)+
qed

text \<open>A frame the service encodes for an event, read from any buffer that holds it, calls the listener's method
  for that kind of event with the fields of the event.\<close>

lemma event_reaches_listener:
  assumes "frameOf ts ev = Inr f" and "frameAt api buf off len f"
  shows "onMessage api buf off len = Some (callbackOf ts ev)"
  using onMessage_frame [OF assms(2)] frame_callback [OF assms(1)] by simp

text \<open>What is too short for a header or is of no egress template calls no listener method, and neither does a
  report, trade or book update whose block is too short.\<close>

definition foreignFrame :: "bytes \<Rightarrow> bool" where
  "foreignFrame f \<longleftrightarrow> length f < 8 \<or> (u16At f 2 \<noteq> 10 \<and> u16At f 2 \<noteq> 11 \<and> u16At f 2 \<noteq> 12)
     \<or> (u16At f 2 = 10 \<and> length f < 59) \<or> (u16At f 2 = 11 \<and> length f < 48) \<or> (u16At f 2 = 12 \<and> length f < 33)"

lemma foreign_frames_ignored:
  assumes "frameAt api buf off len f" and "foreignFrame f"
  shows "onMessage api buf off len = None"
proof -
  have d: "(case r of Inl e \<Rightarrow> None | Inr (m, r) \<Rightarrow> Some (g m)) = None" if "\<not> isOk r" for r and g :: "'m \<Rightarrow> callback"
    using that by (cases r) auto
  have s: "length (drop 8 f) < 51 \<Longrightarrow> \<not> isOk (ExecutionReport_Decode z v bl True (drop 8 f))" for z v bl
    by (rule er_codec.short) (simp add: ExecutionReport_meta_def)
  have t: "length (drop 8 f) < 40 \<Longrightarrow> \<not> isOk (TradeEvent_Decode z v bl True (drop 8 f))" for z v bl
    by (rule te_codec.short) (simp add: TradeEvent_meta_def)
  have u: "length (drop 8 f) < 25 \<Longrightarrow> \<not> isOk (BookUpdate_Decode z v bl True (drop 8 f))" for z v bl
    by (rule bu_codec.short) (simp add: BookUpdate_meta_def)
  have "callbackIn f = None"
  proof (cases "length f < 8 \<or> (u16At f 2 \<noteq> 10 \<and> u16At f 2 \<noteq> 11 \<and> u16At f 2 \<noteq> 12)")
    case False
    then consider "u16At f 2 = 10" "length (drop 8 f) < 51" | "u16At f 2 = 11" "length (drop 8 f) < 40"
      | "u16At f 2 = 12" "length (drop 8 f) < 25" using assms(2) unfolding foreignFrame_def by fastforce
    then show ?thesis
      by cases (use s t u in \<open>simp_all add: callbackIn_def egressCallback_def d ExecutionReport_meta_def TradeEvent_meta_def BookUpdate_meta_def\<close>)
  qed (rule callbackIn_foreign)
  then show ?thesis by (simp add: onMessage_frame [OF assms(1)])
qed

text \<open>What an egress event of the cluster client tells: an engine event at a time, when it is a message that
  holds the frame of this event; nothing, when it is a notice of the session or a foreign frame. The
  definition speaks of the event and its frame, not of the client's decoder.\<close>

fun tells :: "'b bufferApi \<Rightarrow> 'b egressEvent \<Rightarrow> (i64 \<times> Event) option \<Rightarrow> bool" where
  "tells api (EgMessage t buf off len) (Some (ts, ev)) \<longleftrightarrow> (\<exists>f. frameAt api buf off len f \<and> frameOf ts ev = Inr f)"
| "tells api (EgMessage t buf off len) None \<longleftrightarrow> (\<exists>f. frameAt api buf off len f \<and> foreignFrame f)"
| "tells api EgConnect x \<longleftrightarrow> x = None"
| "tells api (EgDisconnect d) x \<longleftrightarrow> x = None"
| "tells api (EgNewLeader a b) x \<longleftrightarrow> x = None"
| "tells api (EgError d) x \<longleftrightarrow> x = None"

lemma tells_callback: "tells api eg x \<Longrightarrow> clusterEgress api eg = map_option (\<lambda>(ts, ev). callbackOf ts ev) x"
  by (cases "(api, eg, x)" rule: tells.cases) (auto simp: event_reaches_listener foreign_frames_ignored)

text \<open>The callbacks owed to a listener for what was told, and when.\<close>

definition owed :: "(int \<times> (i64 \<times> Event) option) list \<Rightarrow> (int \<times> callback) list" where
  "owed news = List.map_filter (\<lambda>(t, x). map_option (\<lambda>(ts, ev). (t, callbackOf ts ev)) x) news"

lemma told_heard:
  assumes "list_all2 (\<lambda>(t, eg) (u, x). t = u \<and> tells (acApi env) eg x) (snd (acPoll env k)) news"
  shows "heardIn env k = owed news"
  using assms unfolding heardIn_def owed_def
proof (induction rule: list_all2_induct)
  case (Cons e es n ns)
  then show ?case by (cases "snd n") (auto simp: List.map_filter_def tells_callback split: prod.splits option.splits)
qed (simp add: List.map_filter_def)

section \<open>Properties\<close>

text \<open>C15 (functional). Submitting: \<open>SubmitOrder\<close> returns. When it reports success the cluster has taken exactly
  one frame, and a service that is handed this frame runs \<open>NewLimitOrder\<close> with the arguments of the call
  and the session as owner. A call that fails has sent nothing, and it fails to encode only on a null
  value or an unknown side.\<close>

theorem submit_reaches_engine:
  assumes "ticking env"
  shows "\<exists>r c'. SubmitOrder env cid sd p q c = Some (r, c') \<and> (case r of
      Inr u \<Rightarrow> \<exists>f. cliSent c' = cliSent c @ [f] \<and> (\<forall>(api :: bytes bufferApi) buf off len senv session ts s. frameAt api buf off len f \<longrightarrow>
        OnSessionMessage api senv session ts buf off len s = do {
          (events, book) \<leftarrow> NewLimitOrder \<lparr>cmdClientOrderId = cid, cmdOwner = session, cmdSide = sd, cmdPrice = p, cmdQty = q\<rparr> (svcBook s);
          route senv events ts (s\<lparr>svcBook := book\<rparr>)
        })
    | Inl (EncodeError e) \<Rightarrow> c' = c \<and> (cid = minInt64 \<or> \<not> sideKnown sd \<or> p = minInt64 \<or> q = minInt64)
    | Inl e \<Rightarrow> e = TimedOutOffering \<and> cliSent c' = cliSent c)"
proof -
  let ?m = "\<lparr>no_ClientOrderId = cid, no_Side = sd, no_Price = p, no_Qty = q\<rparr>"
  obtain r c' where r: "SubmitOrder env cid sd p q c = Some (r, c')" "case r of
      Inr u \<Rightarrow> \<exists>f. encodeFrame (NewOrder_msg ?m) = Inr f \<and> cliSent c' = cliSent c @ [f]
    | Inl (EncodeError e) \<Rightarrow> encodeFrame (NewOrder_msg ?m) = Inl e \<and> c' = c
    | Inl e \<Rightarrow> e = TimedOutOffering \<and> isOk (encodeFrame (NewOrder_msg ?m)) \<and> cliSent c' = cliSent c"
    using clientOffer_returns [OF assms, of "NewOrder_msg ?m" c] unfolding SubmitOrder_def by blast
  have "OnSessionMessage api senv session ts buf off len s = do {
      (events, book) \<leftarrow> NewLimitOrder \<lparr>cmdClientOrderId = cid, cmdOwner = session, cmdSide = sd, cmdPrice = p, cmdQty = q\<rparr> (svcBook s);
      route senv events ts (s\<lparr>svcBook := book\<rparr>)}"
    if "encodeFrame (NewOrder_msg ?m) = Inr f" "frameAt api buf off len f"
    for f senv session ts s buf off len and api :: "bytes bufferApi"
    using commandOf_NewOrder [OF that(1), of session] by (simp add: OnSessionMessage_frame [OF that(2)])
  with r encodeNewOrder_ok [of ?m] show ?thesis
    by (cases r) (force split: clientError.splits)+
qed

theorem submit_reaches_engine_witness:
  "\<exists>f c'. SubmitOrder demo_clientEnv 1 Sell 10 5 demo_client = Some (Inr (), c') \<and> cliSent c' = [f]
    \<and> OnSessionMessage listApi demo_env 7 101 f 0 33 NewMatchingService = do {
        (events, book) \<leftarrow> NewLimitOrder \<lparr>cmdClientOrderId = 1, cmdOwner = 7, cmdSide = Sell, cmdPrice = 10, cmdQty = 5\<rparr> NewOrderBook;
        route demo_env events 101 (NewMatchingService\<lparr>svcBook := book\<rparr>)
      }"
proof -
  obtain c' where c': "SubmitOrder demo_clientEnv 1 Sell 10 5 demo_client = Some (Inr (), c')" "cliSent c' = [orderFrame 1 Sell 10 5]"
    using SubmitOrder_accepted [OF demo_client_facts(2), of 1 Sell 10 5 demo_client] by (simp add: demo_client_facts(3))
  have b: "svcBook NewMatchingService = NewOrderBook" by (simp add: NewMatchingService_def)
  have "OnSessionMessage listApi demo_env 7 101 (orderFrame 1 Sell 10 5) 0 33 NewMatchingService = do {
        (events, book) \<leftarrow> NewLimitOrder \<lparr>cmdClientOrderId = 1, cmdOwner = 7, cmdSide = Sell, cmdPrice = 10, cmdQty = 5\<rparr> NewOrderBook;
        route demo_env events 101 (NewMatchingService\<lparr>svcBook := book\<rparr>)}"
    using submit_reaches_engine [OF demo_client_facts(1), of 1 Sell 10 5 demo_client] c' orderFrame_at(1) [of 1 Sell 10 5]
    by (auto simp: demo_client_facts(3) b)
  with c' show ?thesis by blast
qed

text \<open>C16 (invariant). The listener hears everything that was sent to it and polled. Suppose the egress messages
  that Aeron hands over are frames of engine events, or foreign frames, between notices of the session.
  Then over any sequence of client calls, failed ones included, the listener is called back for exactly
  the engine events of the polls made, with the fields of the event, each once and in order. The polls
  made are the \<open>Poll\<close> calls and one after every offer that was not the last of its call.\<close>

theorem client_hears_all:
  assumes "ticking env"
    and "\<forall>k. list_all2 (\<lambda>(t, eg) (u, x). t = u \<and> tells (acApi env) eg x) (snd (acPoll env k)) (news k)"
  shows "\<exists>c'. clientCalls env calls c = Some c' \<and> cliPolls c \<le> cliPolls c'
    \<and> heard (cliAdapter c') = heard (cliAdapter c) @ concat (map (\<lambda>k. owed (news k)) [cliPolls c..<cliPolls c'])
    \<and> cliPolls c' + cliOffers c + length (filter callOffers calls)
       = cliPolls c + cliOffers c' + length (filter (\<lambda>x. x = CallPoll) calls)"
proof -
  have "heardIn env = (\<lambda>k. owed (news k))" using told_heard assms(2) by blast
  then show ?thesis using clientCalls_hear [OF assms(1), of calls c] clientCalls_polls [OF assms(1), of calls c]
    by (auto simp: hears_def)
qed

theorem client_hears_all_witness:
  "\<exists>f c'. frameOf 101 (bookUpdateEvent Sell 10 5) = Inr f
    \<and> clientCalls (demo_clientEnv\<lparr>acPoll := (\<lambda>n. (1, [(5, EgConnect), (6, EgMessage 101 f 0 33)]))\<rparr>) [CallPoll] demo_client = Some c'
    \<and> heard (cliAdapter c') = [(6, OnBookUpdate \<lparr>bk_Side = Sell, bk_Price = 10, bk_AggregateQty = 5, bk_Timestamp = 101\<rparr>)]"
proof -
  have "isOk (frameOf 101 (bookUpdateEvent Sell 10 5))" by (simp add: frameOf_ok minInt64_def)
  then obtain f where f: "frameOf 101 (bookUpdateEvent Sell 10 5) = Inr f" by (auto simp: isOk_iff)
  then have "f = frameBytes BookUpdate_meta (BookUpdate_body (updateOf (bookUpdateEvent Sell 10 5) 101))"
    by (intro bu_codec.frame_decode(1)) (simp add: frameOf_def encodeBookUpdate_def BookUpdate_msg_def)
  then have l: "length f = 33" using bu_codec.body_length by (simp add: BookUpdate_meta_def)
  have fr: "frameAt listApi f 0 33 f" using listApi_frame [of f] l by simp
  let ?env = "demo_clientEnv\<lparr>acPoll := (\<lambda>n. (1, [(5, EgConnect), (6, EgMessage 101 f 0 33)]))\<rparr>"
  let ?news = "\<lambda>k :: nat. [(5, None), (6, Some (101, bookUpdateEvent Sell 10 5))]"
  have "ticking ?env" using demo_client_facts(1) by (simp add: ticking_def)
  moreover have "\<forall>k. list_all2 (\<lambda>(t, eg) (u, x). t = u \<and> tells (acApi ?env) eg x) (snd (acPoll ?env k)) (?news k)"
    using f fr by (auto simp: demo_clientEnv_def)
  ultimately obtain c' where c': "clientCalls ?env [CallPoll] demo_client = Some c'" "cliPolls demo_client \<le> cliPolls c'"
    "heard (cliAdapter c') = heard (cliAdapter demo_client) @ concat (map (\<lambda>k. owed (?news k)) [cliPolls demo_client..<cliPolls c'])"
    using client_hears_all [of ?env ?news "[CallPoll]" demo_client] by blast
  then have "cliPolls c' = 1" by (simp add: demo_client_def Poll_def demo_clientEnv_def) auto
  then show ?thesis using c'(1,3) f
    by (auto simp: demo_client_def newEgressAdapter_def owed_def List.map_filter_def callbackOf_def bookUpdateEvent_def)
qed

text \<open>C11 (refinement). The whole path of one command: the events the engine produced for it reach the
  listeners. For every session, the frames logged for it, in order, decode to the callbacks of exactly
  the events it is entitled to: its own reports, and all trades and book updates while it is open.\<close>

theorem listeners_see_their_events:
  assumes "fair env" and "serves s (a, ids)" and "frameAt api buf off len f" and "commandOf i f = Some c"
    and "ts \<noteq> minInt64" and "sint (nextOrderId (svcBook s)) < 2 ^ 63 - 1" and "clean_cmd c" and "book_qty a + added c < 2 ^ 63"
  shows "\<exists>s' es b'. OnSessionMessage api env i ts buf off len s = Some s' \<and> exec c (svcBook s) = Some (es, b') \<and> svcBook s' = b'
    \<and> (\<forall>j. map callbackIn (framesFor j (map (\<lambda>(i, f, r). (i, f)) (drop (length (svcLog s)) (svcLog s'))))
         = map (\<lambda>ev. Some (callbackOf ts ev)) (filter (\<lambda>ev. j \<in> set (audience ids ev)) es))"
proof -
  have a: "represents (svcBook s) a" "book_inv a" "clean a" "distinct ids"
    using assms(2) by (auto simp: serves_def sessions_ok_def)
  obtain es b' a' where e: "exec c (svcBook s) = Some (es, b')" "spec_exec c a = (es, a')"
    using exec_spec [OF a(1,2) assms(6), of c] by blast
  have room: "sint (anext a) < 2 ^ 63 - 1" using assms(6) wf_next [OF a(1)] by simp
  obtain s' where s': "OnSessionMessage api env i ts buf off len s = Some s'"
    "sent (s\<lparr>svcBook := svcBook s'\<rparr>) (concat (map (\<lambda>ev. map (\<lambda>j. (j, projr (frameOf ts ev))) (audience ids ev)) es)) s'"
    using serves_message [OF assms(1-5) room assms(7,8) e(2)] by blast
  have "\<forall>ev \<in> set es. isOk (frameOf ts ev)"
    using spec_exec_sendable(1) [OF a(2,3) assms(7,8) e(2)] assms(5) by (simp add: frameOf_ok)
  from deliveries_callbacks [OF a(4) this] sent_drop [OF s'(2)]
  have "\<forall>j. map callbackIn (framesFor j (map (\<lambda>(i, f, r). (i, f)) (drop (length (svcLog s)) (svcLog s'))))
      = map (\<lambda>ev. Some (callbackOf ts ev)) (filter (\<lambda>ev. j \<in> set (audience ids ev)) es)" by simp
  moreover have "svcBook s' = b'"
    using s'(1) e(1) sent_same(1) [OF conjunct2 [OF route_Some]] by (auto simp: OnSessionMessage_frame [OF assms(3)] assms(4))
  ultimately show ?thesis using s'(1) e(1) by blast
qed

theorem listeners_see_their_events_witness:
  "\<exists>s' es b'. OnSessionMessage listApi demo_env 7 101 (orderFrame 1 Sell 10 5) 0 33 (OnSessionOpen 7 100 NewMatchingService) = Some s'
    \<and> exec (SubmitCmd \<lparr>cmdClientOrderId = 1, cmdOwner = 7, cmdSide = Sell, cmdPrice = 10, cmdQty = 5\<rparr>) NewOrderBook = Some (es, b')
    \<and> (\<forall>j. map callbackIn (framesFor j (map (\<lambda>(i, f, r). (i, f)) (svcLog s')))
         = map (\<lambda>ev. Some (callbackOf 101 ev)) (filter (\<lambda>ev. j \<in> set (audience [7] ev)) es))"
proof -
  have n: "svcBook (OnSessionOpen 7 100 NewMatchingService) = NewOrderBook" "svcLog (OnSessionOpen 7 100 NewMatchingService) = []"
    by (simp_all add: OnSessionOpen_def NewMatchingService_def)
  have c: "commandOf 7 (orderFrame 1 Sell 10 5) = Some (SubmitCmd \<lparr>cmdClientOrderId = 1, cmdOwner = 7, cmdSide = Sell, cmdPrice = 10, cmdQty = 5\<rparr>)"
    by (rule orderFrame_command) simp_all
  have f: "frameAt listApi (orderFrame 1 Sell 10 5) 0 33 (orderFrame 1 Sell 10 5)" by (rule orderFrame_at) simp_all
  have "(101 :: i64) \<noteq> minInt64" by (simp add: minInt64_def)
  from listeners_see_their_events [OF demo_env_fair demo_serves f c this] show ?thesis
    by (fastforce simp: n NewOrderBook_def spec_start_def book_qty_def)
qed

end
